(* ===== verification/Js_Base.thy ===== *)
theory Js_Base
  imports Main "HOL-Library.Word"
begin

text \<open>
  The prelude of the development: what the JavaScript under \<open>src/\<close> takes from the language.
  A JavaScript string is a list of UTF-16 code units (\<open>jsstr\<close>), written in the theories as
  \<open>lit ''...''\<close>. A Number is \<open>jsnum\<close>: a finite Number is kept as the shortest decimal that
  reads back as it, which is what \<open>Number::toString\<close> prints. A value is \<open>jsv\<close>; an object
  is the list of its own enumerable properties in enumeration order. Code that may throw
  returns \<open>jserr + 'a\<close>, and code that throws after it has changed something is a \<open>jsm\<close>
  (a state transformer that keeps the state of the moment of the throw).
\<close>

named_theorems js_eval \<open>equations that evaluate closed terms of the model\<close>

section \<open>Strings\<close>

type_synonym code_unit = "16 word"
type_synonym jsstr = "code_unit list"

definition lit :: "string \<Rightarrow> jsstr" where
  "lit s = map of_char s"

lemma lit_simps [js_eval]: "lit [] = []" "lit (c # cs) = of_char c # lit cs"
  by (simp_all add: lit_def)

lemma lit_append: "lit (xs @ ys) = lit xs @ lit ys"
  by (simp add: lit_def)

text \<open>The characters that \<open>String.prototype.trim\<close> removes and the class \<open>\s\<close> matches.\<close>

definition is_space :: "code_unit \<Rightarrow> bool" where
  "is_space c \<longleftrightarrow> (9 \<le> c \<and> c \<le> 13) \<or> c = 32 \<or> c = 0xA0 \<or> c = 0x1680 \<or>
     (0x2000 \<le> c \<and> c \<le> 0x200A) \<or> c = 0x2028 \<or> c = 0x2029 \<or> c = 0x202F \<or> c = 0x205F \<or>
     c = 0x3000 \<or> c = 0xFEFF"

definition trim_start :: "jsstr \<Rightarrow> jsstr" where
  "trim_start s = dropWhile is_space s"

definition trim_end :: "jsstr \<Rightarrow> jsstr" where
  "trim_end s = rev (dropWhile is_space (rev s))"

definition js_trim :: "jsstr \<Rightarrow> jsstr" where
  "js_trim s = trim_end (trim_start s)"

definition starts_with :: "jsstr \<Rightarrow> jsstr \<Rightarrow> bool" where
  "starts_with s p \<longleftrightarrow> take (length p) s = p"

definition ends_with :: "jsstr \<Rightarrow> jsstr \<Rightarrow> bool" where
  "ends_with s p \<longleftrightarrow> length p \<le> length s \<and> drop (length s - length p) s = p"

fun join_with :: "jsstr \<Rightarrow> jsstr list \<Rightarrow> jsstr" where
  "join_with sep [] = []"
| "join_with sep [x] = x"
| "join_with sep (x # y # ys) = x @ sep @ join_with sep (y # ys)"

definition is_digit :: "code_unit \<Rightarrow> bool" where
  "is_digit c \<longleftrightarrow> 48 \<le> c \<and> c \<le> 57"

definition digit_val :: "code_unit \<Rightarrow> nat" where
  "digit_val c = unat c - 48"

lemma js_trim_empty_iff: "js_trim s = [] \<longleftrightarrow> (\<forall>c \<in> set s. is_space c)"
proof -
  have "js_trim s = [] \<longleftrightarrow> (\<forall>c \<in> set (dropWhile is_space s). is_space c)"
    by (simp add: js_trim_def trim_end_def trim_start_def)
  also have "\<dots> \<longleftrightarrow> (\<forall>c \<in> set s. is_space c)"
    by (induction s) auto
  finally show ?thesis .
qed

text \<open>
  The number of bytes of \<open>new TextEncoder().encode(s)\<close>. A surrogate pair takes four bytes;
  a surrogate on its own is replaced by U+FFFD, which takes three.
\<close>

definition is_high :: "code_unit \<Rightarrow> bool" where
  "is_high c \<longleftrightarrow> 0xD800 \<le> c \<and> c \<le> 0xDBFF"

definition is_low :: "code_unit \<Rightarrow> bool" where
  "is_low c \<longleftrightarrow> 0xDC00 \<le> c \<and> c \<le> 0xDFFF"

definition unit_bytes :: "code_unit \<Rightarrow> nat" where
  "unit_bytes c = (if c < 0x80 then 1 else if c < 0x800 then 2 else 3)"

fun utf8_length :: "jsstr \<Rightarrow> nat" where
  "utf8_length [] = 0"
| "utf8_length [c] = unit_bytes c"
| "utf8_length (c # d # s) =
     (if is_high c \<and> is_low d then 4 + utf8_length s else unit_bytes c + utf8_length (d # s))"

lemma utf8_length_ge: "length s \<le> utf8_length s"
  by (induction s rule: utf8_length.induct) (auto simp: unit_bytes_def)

lemma utf8_length_le: "utf8_length s \<le> 3 * length s"
  by (induction s rule: utf8_length.induct) (auto simp: unit_bytes_def)

section \<open>Numbers\<close>

text \<open>
  \<open>Fin neg d e\<close> is \<open>d * 10 ^ e\<close>, negated when \<open>neg\<close>; \<open>Fin neg 0 0\<close> are the two
  zeros. The digits \<open>d\<close> have no trailing zero (\<open>norm_num\<close> strips them).
\<close>

datatype jsnum = NaN | Infty bool | Fin bool nat int

function strip_zeros :: "nat \<Rightarrow> int \<Rightarrow> nat \<times> int" where
  "strip_zeros d e =
     (if d = 0 then (0, 0) else if d mod 10 = 0 then strip_zeros (d div 10) (e + 1) else (d, e))"
  by pat_completeness auto
termination
  by (relation "measure fst") auto

declare strip_zeros.simps [simp del, js_eval]

definition norm_num :: "bool \<Rightarrow> nat \<Rightarrow> int \<Rightarrow> jsnum" where
  "norm_num neg d e = (case strip_zeros d e of (d', e') \<Rightarrow> Fin neg d' e')"

definition num_of_nat :: "nat \<Rightarrow> jsnum" where
  "num_of_nat n = norm_num False n 0"

fun num_neg :: "jsnum \<Rightarrow> jsnum" where
  "num_neg NaN = NaN"
| "num_neg (Infty s) = Infty (\<not> s)"
| "num_neg (Fin s d e) = Fin (\<not> s) d e"

fun digits_of :: "nat \<Rightarrow> nat list" where
  "digits_of n = (if n < 10 then [n] else digits_of (n div 10) @ [n mod 10])"

declare digits_of.simps [simp del, js_eval]

definition digit_unit :: "nat \<Rightarrow> code_unit" where
  "digit_unit d = word_of_nat (48 + d)"

definition nat_str :: "nat \<Rightarrow> jsstr" where
  "nat_str n = map digit_unit (digits_of n)"

text \<open>\<open>Number::toString\<close> with radix 10; \<open>k\<close> digits \<open>s\<close> and \<open>n\<close> as the standard names them.\<close>

definition pos_num_str :: "nat \<Rightarrow> int \<Rightarrow> jsstr" where
  "pos_num_str d e =
     (let s = nat_str d; k = int (length s); n = k + e in
      if k \<le> n \<and> n \<le> 21 then s @ replicate (nat (n - k)) 48
      else if 0 < n \<and> n \<le> 21 then take (nat n) s @ [46] @ drop (nat n) s
      else if -6 < n \<and> n \<le> 0 then [48, 46] @ replicate (nat (- n)) 48 @ s
      else let sgn_abs = (if n - 1 < 0 then [45] else [43]) @ nat_str (nat \<bar>n - 1\<bar>) in
        if k = 1 then s @ [101] @ sgn_abs
        else take 1 s @ [46] @ drop 1 s @ [101] @ sgn_abs)"

fun num_str :: "jsnum \<Rightarrow> jsstr" where
  "num_str NaN = lit ''NaN''"
| "num_str (Infty neg) = (if neg then lit ''-Infinity'' else lit ''Infinity'')"
| "num_str (Fin neg d e) =
     (if d = 0 then [48] else (if neg then [45] else []) @ pos_num_str d e)"

text \<open>\<open>a > b\<close> on Numbers; a comparison with NaN is false.\<close>

definition signed :: "bool \<Rightarrow> nat \<Rightarrow> int" where
  "signed neg d = (if neg then - int d else int d)"

fun num_gt :: "jsnum \<Rightarrow> jsnum \<Rightarrow> bool" where
  "num_gt NaN _ = False"
| "num_gt _ NaN = False"
| "num_gt (Infty a) (Infty b) = (\<not> a \<and> b)"
| "num_gt (Infty a) (Fin _ _ _) = (\<not> a)"
| "num_gt (Fin _ _ _) (Infty b) = b"
| "num_gt (Fin a d e) (Fin b d' e') =
     (let m = min e e' in
      signed a d * 10 ^ nat (e - m) > signed b d' * 10 ^ nat (e' - m))"

text \<open>\<open>Number.isSafeInteger\<close>: an integer of magnitude below \<open>2 ^ 53\<close>.\<close>

fun safe_integer :: "jsnum \<Rightarrow> bool" where
  "safe_integer NaN = False"
| "safe_integer (Infty _) = False"
| "safe_integer (Fin neg d e) = (d = 0 \<or> (0 \<le> e \<and> e < 16 \<and> d * 10 ^ nat e < 2 ^ 53))"

fun num_int :: "jsnum \<Rightarrow> int" where
  "num_int (Fin neg d e) = signed neg d * 10 ^ nat e"
| "num_int _ = 0"

section \<open>Values\<close>

datatype jsv =
    JUndef
  | JNull
  | JBool bool
  | JNum jsnum
  | JStr jsstr
  | JArr "jsv list"
  | JObj "(jsstr \<times> jsv) list"

datatype jserr =
    TypeError
  | RangeError        \<comment> \<open>the call stack is exhausted\<close>
  | LimitsError       \<comment> \<open>the one error of \<open>fail\<close> in \<open>preflight.mjs\<close>\<close>
  | Thrown jsstr      \<comment> \<open>\<open>throw new Error(message)\<close>\<close>

fun is_object :: "jsv \<Rightarrow> bool" where   \<comment> \<open>\<open>v \<and> typeof v === 'object'\<close>\<close>
  "is_object (JArr _) = True"
| "is_object (JObj _) = True"
| "is_object _ = False"

fun is_array :: "jsv \<Rightarrow> bool" where
  "is_array (JArr _) = True"
| "is_array _ = False"

fun is_str :: "jsv \<Rightarrow> bool" where
  "is_str (JStr _) = True"
| "is_str _ = False"

fun num_zero :: "jsnum \<Rightarrow> bool" where
  "num_zero (Fin _ d _) = (d = 0)"
| "num_zero _ = False"

fun truthy :: "jsv \<Rightarrow> bool" where
  "truthy JUndef = False"
| "truthy JNull = False"
| "truthy (JBool b) = b"
| "truthy (JNum n) = (n \<noteq> NaN \<and> \<not> num_zero n)"
| "truthy (JStr s) = (s \<noteq> [])"
| "truthy (JArr _) = True"
| "truthy (JObj _) = True"

fun nullish :: "jsv \<Rightarrow> bool" where
  "nullish JUndef = True"
| "nullish JNull = True"
| "nullish _ = False"

text \<open>
  The property keys \<open>"0"\<close>, \<open>"1"\<close>, \<dots> address the elements of an array and the code units of
  a string; \<open>index_key\<close> reads such a key.
\<close>

definition index_key :: "jsstr \<Rightarrow> nat option" where
  "index_key k =
     (if k \<noteq> [] \<and> list_all is_digit k \<and> (hd k \<noteq> 48 \<or> k = [48])
      then Some (foldl (\<lambda>n c. 10 * n + digit_val c) 0 k) else None)"

fun own_prop :: "jsv \<Rightarrow> jsstr \<Rightarrow> jsv option" where
  "own_prop (JStr s) k =
     (if k = lit ''length'' then Some (JNum (num_of_nat (length s)))
      else case index_key k of None \<Rightarrow> None
        | Some i \<Rightarrow> if i < length s then Some (JStr [s ! i]) else None)"
| "own_prop (JArr xs) k =
     (if k = lit ''length'' then Some (JNum (num_of_nat (length xs)))
      else case index_key k of None \<Rightarrow> None
        | Some i \<Rightarrow> if i < length xs then Some (xs ! i) else None)"
| "own_prop (JObj kvs) k = map_of kvs k"
| "own_prop _ _ = None"

text \<open>
  Reading a property by a name that no prototype has (the names the code reads are such):
  \<open>undefined\<close> when it is missing, a TypeError on \<open>undefined\<close> and \<open>null\<close>.
\<close>

definition prop_or_undef :: "jsv \<Rightarrow> jsstr \<Rightarrow> jsv" where
  "prop_or_undef v k = (case own_prop v k of Some x \<Rightarrow> x | None \<Rightarrow> JUndef)"

definition read_prop :: "jsv \<Rightarrow> jsstr \<Rightarrow> jserr + jsv" where
  "read_prop v k = (if nullish v then Inl TypeError else Inr (prop_or_undef v k))"

text \<open>\<open>Object.entries\<close>: an array's keys are its indices.\<close>

fun entries_of :: "jsv \<Rightarrow> (jsstr \<times> jsv) list" where
  "entries_of (JArr xs) = zip (map nat_str [0..<length xs]) xs"
| "entries_of (JObj kvs) = kvs"
| "entries_of (JStr s) = zip (map nat_str [0..<length s]) (map (\<lambda>c. JStr [c]) s)"
| "entries_of _ = []"

text \<open>\<open>obj[k] = v\<close> and \<open>Object.fromEntries\<close>: a later entry overwrites an earlier one in place.\<close>

fun put_prop :: "(jsstr \<times> jsv) list \<Rightarrow> jsstr \<Rightarrow> jsv \<Rightarrow> (jsstr \<times> jsv) list" where
  "put_prop [] k v = [(k, v)]"
| "put_prop ((k', v') # kvs) k v =
     (if k' = k then (k, v) # kvs else (k', v') # put_prop kvs k v)"

definition from_entries :: "(jsstr \<times> jsv) list \<Rightarrow> jsv" where
  "from_entries kvs = JObj (foldl (\<lambda>acc (k, v). put_prop acc k v) [] kvs)"

lemma map_of_put_prop [simp]: "map_of (put_prop kvs k v) = (map_of kvs)(k \<mapsto> v)"
  by (induction kvs) (auto simp: fun_eq_iff)

lemma keys_put_prop: "fst ` set (put_prop kvs k v) = insert k (fst ` set kvs)"
proof -
  have "dom (map_of (put_prop kvs k v)) = insert k (dom (map_of kvs))" by simp
  then show ?thesis by (simp only: dom_map_of_conv_image_fst)
qed

lemma distinct_put_prop:
  "distinct (map fst kvs) \<Longrightarrow> distinct (map fst (put_prop kvs k v))"
  by (induction kvs k v rule: put_prop.induct) (simp_all add: keys_put_prop, force)

text \<open>\<open>===\<close> on values of which arrays and objects come from different \<open>JSON.parse\<close> calls.\<close>

fun num_same :: "jsnum \<Rightarrow> jsnum \<Rightarrow> bool" where
  "num_same NaN _ = False"
| "num_same (Fin s d e) (Fin s' d' e') = (d = d' \<and> e = e' \<and> (d = 0 \<or> s = s'))"
| "num_same a b = (a = b)"

fun strict_eq :: "jsv \<Rightarrow> jsv \<Rightarrow> bool" where
  "strict_eq (JNum a) (JNum b) = num_same a b"
| "strict_eq (JArr _) _ = False"
| "strict_eq _ (JArr _) = False"
| "strict_eq (JObj _) _ = False"
| "strict_eq _ (JObj _) = False"
| "strict_eq a b = (a = b)"

lemma strict_eq_JStr [simp]: "strict_eq v (JStr s) \<longleftrightarrow> v = JStr s"
  by (cases v) auto

text \<open>
  \<open>String(v)\<close> and the string a template literal inserts. An array joins its elements, of
  which \<open>undefined\<close> and \<open>null\<close> give the empty string.
\<close>

fun to_str :: "jsv \<Rightarrow> jsstr" and elem_str :: "jsv \<Rightarrow> jsstr" where
  "to_str JUndef = lit ''undefined''"
| "to_str JNull = lit ''null''"
| "to_str (JBool b) = (if b then lit ''true'' else lit ''false'')"
| "to_str (JNum n) = num_str n"
| "to_str (JStr s) = s"
| "to_str (JArr xs) = join_with [44] (map elem_str xs)"
| "to_str (JObj _) = lit ''[object Object]''"
| "elem_str v = (if nullish v then [] else to_str v)"

section \<open>Effects\<close>

type_synonym ('s, 'a) jsm = "'s \<Rightarrow> (jserr + 'a) \<times> 's"

definition ret :: "'a \<Rightarrow> ('s, 'a) jsm" where
  "ret x = (\<lambda>s. (Inr x, s))"

definition throw :: "jserr \<Rightarrow> ('s, 'a) jsm" where
  "throw e = (\<lambda>s. (Inl e, s))"

definition bind :: "('s, 'a) jsm \<Rightarrow> ('a \<Rightarrow> ('s, 'b) jsm) \<Rightarrow> ('s, 'b) jsm" where
  "bind m f = (\<lambda>s. case m s of (Inl e, s') \<Rightarrow> (Inl e, s') | (Inr x, s') \<Rightarrow> f x s')"

definition next_do :: "('s, 'a) jsm \<Rightarrow> ('s, 'b) jsm \<Rightarrow> ('s, 'b) jsm" where
  "next_do m n = bind m (\<lambda>_. n)"

definition lift_err :: "jserr + 'a \<Rightarrow> ('s, 'a) jsm" where
  "lift_err r = (\<lambda>s. (r, s))"

definition modify :: "('s \<Rightarrow> 's) \<Rightarrow> ('s, unit) jsm" where
  "modify f = (\<lambda>s. (Inr (), f s))"

definition gets :: "('s \<Rightarrow> 'a) \<Rightarrow> ('s, 'a) jsm" where
  "gets f = (\<lambda>s. (Inr (f s), s))"

lemmas jsm_defs = ret_def throw_def bind_def next_do_def lift_err_def modify_def gets_def

definition bindE :: "jserr + 'a \<Rightarrow> ('a \<Rightarrow> jserr + 'b) \<Rightarrow> jserr + 'b" where
  "bindE r f = (case r of Inl e \<Rightarrow> Inl e | Inr x \<Rightarrow> f x)"

lemma bindE_simps [simp]: "bindE (Inl e) f = Inl e" "bindE (Inr x) f = f x"
  by (simp_all add: bindE_def)

lemma bindE_Inr_iff: "bindE r f = Inr y \<longleftrightarrow> (\<exists>x. r = Inr x \<and> f x = Inr y)"
  by (cases r) auto

text \<open>
  \<open>jsm_keeps P m\<close>: whatever \<open>m\<close> does, throwing included, it leaves \<open>P\<close> true. The rules make
  the invariant proofs of the handlers a matter of their primitive steps.
\<close>

definition jsm_keeps :: "('s \<Rightarrow> bool) \<Rightarrow> ('s, 'a) jsm \<Rightarrow> bool" where
  "jsm_keeps P m \<longleftrightarrow> (\<forall>s. P s \<longrightarrow> P (snd (m s)))"

named_theorems keeps \<open>rules for \<open>jsm_keeps\<close>\<close>

lemma jsm_keepsI: "(\<And>s. P s \<Longrightarrow> P (snd (m s))) \<Longrightarrow> jsm_keeps P m"
  by (simp add: jsm_keeps_def)

lemma jsm_keepsD: "jsm_keeps P m \<Longrightarrow> P s \<Longrightarrow> P (snd (m s))"
  by (simp add: jsm_keeps_def)

lemma keeps_ret [keeps]: "jsm_keeps P (ret x)"
  by (simp add: jsm_keeps_def ret_def)

lemma keeps_throw [keeps]: "jsm_keeps P (throw e)"
  by (simp add: jsm_keeps_def throw_def)

lemma keeps_lift_err [keeps]: "jsm_keeps P (lift_err r)"
  by (simp add: jsm_keeps_def lift_err_def)

lemma keeps_gets [keeps]: "jsm_keeps P (gets f)"
  by (simp add: jsm_keeps_def gets_def)

lemma keeps_modify: "(\<And>s. P s \<Longrightarrow> P (f s)) \<Longrightarrow> jsm_keeps P (modify f)"
  by (simp add: jsm_keeps_def modify_def)

lemma keeps_bind [keeps]:
  assumes "jsm_keeps P m" and "\<And>x. jsm_keeps P (f x)"
  shows "jsm_keeps P (bind m f)"
proof (rule jsm_keepsI)
  fix s assume "P s"
  with assms(1) have "P (snd (m s))" by (rule jsm_keepsD)
  then show "P (snd (bind m f s))"
    using assms(2) by (auto simp: bind_def jsm_keeps_def split: prod.splits sum.splits)
qed

lemma keeps_next_do [keeps]:
  "jsm_keeps P m \<Longrightarrow> jsm_keeps P n \<Longrightarrow> jsm_keeps P (next_do m n)"
  by (simp add: next_do_def keeps_bind)

lemma keeps_if [keeps]:
  "jsm_keeps P m \<Longrightarrow> jsm_keeps P n \<Longrightarrow> jsm_keeps P (if b then m else n)"
  by simp

end
