(* ===== verification/Js_Json.thy ===== *)
theory Js_Json
  imports Js_Base
begin

text \<open>
  The JSON functions of the language that the code calls: \<open>JSON.stringify\<close> on strings, Numbers
  and whole values, and \<open>JSON.parse\<close> on a string literal. The last lemma is the round trip
  on strings that the canonical source of \<open>preflight.mjs\<close> relies on.
\<close>

section \<open>Writing\<close>

definition hex_digit :: "nat \<Rightarrow> code_unit" where
  "hex_digit n = (if n < 10 then word_of_nat (48 + n) else word_of_nat (87 + n))"

definition hex4 :: "code_unit \<Rightarrow> jsstr" where
  "hex4 c = (let n = unat c in
     [hex_digit (n div 4096), hex_digit (n div 256 mod 16), hex_digit (n div 16 mod 16), hex_digit (n mod 16)])"

definition escape_unit :: "code_unit \<Rightarrow> jsstr" where
  "escape_unit c =
     (if c = 8 then [92, 98] else if c = 9 then [92, 116] else if c = 10 then [92, 110]
      else if c = 12 then [92, 102] else if c = 13 then [92, 114]
      else if c = 34 then [92, 34] else if c = 92 then [92, 92]
      else if c < 32 \<or> is_high c \<or> is_low c then [92, 117] @ hex4 c
      else [c])"

text \<open>A surrogate pair is written as it is, a surrogate on its own as an escape.\<close>

fun json_escape :: "jsstr \<Rightarrow> jsstr" where
  "json_escape [] = []"
| "json_escape [c] = escape_unit c"
| "json_escape (c # d # s) =
     (if is_high c \<and> is_low d then c # d # json_escape s
      else escape_unit c @ json_escape (d # s))"

definition json_str :: "jsstr \<Rightarrow> jsstr" where
  "json_str s = [34] @ json_escape s @ [34]"

definition json_num :: "jsnum \<Rightarrow> jsstr" where
  "json_num n = (case n of Fin _ _ _ \<Rightarrow> num_str n | _ \<Rightarrow> lit ''null'')"

text \<open>\<open>JSON.stringify\<close> of a value: an \<open>undefined\<close> property is left out.\<close>

fun json_text :: "jsv \<Rightarrow> jsstr" where
  "json_text JUndef = lit ''null''"
| "json_text JNull = lit ''null''"
| "json_text (JBool b) = (if b then lit ''true'' else lit ''false'')"
| "json_text (JNum n) = json_num n"
| "json_text (JStr s) = json_str s"
| "json_text (JArr xs) = [91] @ join_with [44] (map json_text xs) @ [93]"
| "json_text (JObj kvs) =
     [123] @ join_with [44] (map (\<lambda>(k, v). json_str k @ [58] @ json_text v)
       (filter (\<lambda>(k, v). v \<noteq> JUndef) kvs)) @ [125]"

section \<open>Reading a string literal\<close>

definition hex_val :: "code_unit \<Rightarrow> nat option" where
  "hex_val c =
     (if 48 \<le> c \<and> c \<le> 57 then Some (unat c - 48)
      else if 97 \<le> c \<and> c \<le> 102 then Some (unat c - 87)
      else if 65 \<le> c \<and> c \<le> 70 then Some (unat c - 55)
      else None)"

definition unhex4 :: "code_unit \<Rightarrow> code_unit \<Rightarrow> code_unit \<Rightarrow> code_unit \<Rightarrow> code_unit option" where
  "unhex4 a b c d =
     (case (hex_val a, hex_val b, hex_val c, hex_val d) of
        (Some p, Some q, Some r, Some s) \<Rightarrow> Some (word_of_nat (4096 * p + 256 * q + 16 * r + s))
      | _ \<Rightarrow> None)"

definition escape_val :: "code_unit \<Rightarrow> code_unit option" where
  "escape_val e =
     (if e = 34 then Some 34 else if e = 92 then Some 92 else if e = 47 then Some 47
      else if e = 98 then Some 8 else if e = 102 then Some 12 else if e = 110 then Some 10
      else if e = 114 then Some 13 else if e = 116 then Some 9 else None)"

definition cons_fst :: "'a \<Rightarrow> ('a list \<times> 'b) option \<Rightarrow> ('a list \<times> 'b) option" where
  "cons_fst x r = map_option (\<lambda>(xs, y). (x # xs, y)) r"

text \<open>The contents of a literal after its opening quote, and the text after the closing one.\<close>

fun json_chars :: "jsstr \<Rightarrow> (jsstr \<times> jsstr) option" where
  "json_chars [] = None"
| "json_chars (c # s) =
     (if c = 34 then Some ([], s)
      else if c = 92 then
        (case s of [] \<Rightarrow> None
         | e # s1 \<Rightarrow>
           (if e = 117 then
              (case s1 of h1 # h2 # h3 # h4 # s2 \<Rightarrow>
                 (case unhex4 h1 h2 h3 h4 of None \<Rightarrow> None | Some x \<Rightarrow> cons_fst x (json_chars s2))
               | _ \<Rightarrow> None)
            else (case escape_val e of None \<Rightarrow> None | Some x \<Rightarrow> cons_fst x (json_chars s1))))
      else if c < 32 then None
      else cons_fst c (json_chars s))"

declare json_chars.simps [simp del]

text \<open>\<open>JSON.parse\<close> on a text that starts with a quote; \<open>None\<close> is its SyntaxError.\<close>

definition json_parse_str :: "jsstr \<Rightarrow> jsstr option" where
  "json_parse_str t =
     (case t of c # s \<Rightarrow>
        if c = 34 then
          (case json_chars s of
             Some (x, rest) \<Rightarrow> if list_all (\<lambda>u. u = 32 \<or> u = 9 \<or> u = 10 \<or> u = 13) rest then Some x else None
           | None \<Rightarrow> None)
        else None
      | [] \<Rightarrow> None)"

section \<open>Round trip\<close>

definition escape_lt :: "jsstr \<Rightarrow> jsstr" where   \<comment> \<open>\<open>.replaceAll('<', '\u003c')\<close> with the escape spelled out\<close>
  "escape_lt s = concat (map (\<lambda>c. if c = 60 then lit (CHR 0x5C # ''u003c'') else [c]) s)"

lemma escape_lt_simps [simp]:
  "escape_lt [] = []" "escape_lt (s @ t) = escape_lt s @ escape_lt t"
  by (simp_all add: escape_lt_def)

lemma escape_lt_Cons: "escape_lt (c # s) = escape_lt [c] @ escape_lt s"
  by (simp add: escape_lt_def)

lemma escape_lt_no_lt: "60 \<notin> set (escape_lt s)"
  by (induction s) (auto simp: escape_lt_def lit_def)

lemma below_16: "n < 16 \<longleftrightarrow> n \<in> {0, 1, 2, 3, 4, 5, 6, 7, 8, 9, 10, 11, 12, 13, 14, 15 :: nat}"
  by (simp only: insert_iff empty_iff) presburger

lemma hex_digit_val: "n < 16 \<Longrightarrow> hex_val (hex_digit n) = Some n"
  unfolding below_16 by (elim insertE) (simp_all add: hex_digit_def hex_val_def)

lemma hex4_value:
  "4096 * (n div 4096) + 256 * (n div 256 mod 16) + 16 * (n div 16 mod 16) + n mod 16 = (n :: nat)"
proof -
  have "n = 16 * (n div 16) + n mod 16" by simp
  moreover have "n div 16 = 16 * (n div 256) + n div 16 mod 16"
    using mult_div_mod_eq[of 16 "n div 16"] by (simp add: div_mult2_eq[symmetric])
  moreover have "n div 256 = 16 * (n div 4096) + n div 256 mod 16"
    using mult_div_mod_eq[of 16 "n div 256"] by (simp add: div_mult2_eq[symmetric])
  ultimately show ?thesis by linarith
qed

lemma unhex4_hex4: "unhex4 (hex_digit (unat c div 4096)) (hex_digit (unat c div 256 mod 16))
    (hex_digit (unat c div 16 mod 16)) (hex_digit (unat c mod 16)) = Some c"
proof -
  have "unat c div 4096 < 16" using unsigned_less[of c, where 'a = nat] by simp
  then show ?thesis by (simp only: unhex4_def hex_digit_val mod_less_divisor zero_less_numeral
      option.case prod.case hex4_value of_nat_unat ucast_id)
qed

lemma hex_digit_plain: "n < 16 \<Longrightarrow> escape_lt [hex_digit n] = [hex_digit n]"
  unfolding below_16 by (elim insertE) (simp_all add: hex_digit_def escape_lt_def)

lemma escape_lt_hex4: "escape_lt (hex4 c) = hex4 c"
proof -
  have "unat c div 4096 < 16" using unsigned_less[of c, where 'a = nat] by simp
  then show ?thesis
    unfolding hex4_def Let_def
    by (subst escape_lt_Cons, subst (2) escape_lt_Cons, subst (3) escape_lt_Cons)
      (simp add: hex_digit_plain)
qed

lemma json_chars_hex: "json_chars (92 # 117 # hex4 c @ r) = cons_fst c (json_chars r)"
  by (subst json_chars.simps) (simp add: hex4_def Let_def unhex4_hex4)

lemma json_chars_short: "escape_val e = Some x \<Longrightarrow> e \<noteq> 117 \<Longrightarrow>
    json_chars (92 # e # r) = cons_fst x (json_chars r)"
  by (subst json_chars.simps) simp

lemma json_chars_plain: "c \<noteq> 34 \<Longrightarrow> c \<noteq> 92 \<Longrightarrow> \<not> c < 32 \<Longrightarrow>
    json_chars (c # r) = cons_fst c (json_chars r)"
  by (subst json_chars.simps) simp

lemma json_chars_escape_unit:
  "json_chars (escape_lt (escape_unit c) @ r) = cons_fst c (json_chars r)"
proof -
  have lt: "json_chars (lit (CHR 0x5C # ''u003c'') @ r) = cons_fst 60 (json_chars r)"
    using json_chars_hex[of 60 r] by (simp add: lit_def hex4_def hex_digit_def)
  have hex: "escape_lt ([92, 117] @ hex4 c) = 92 # 117 # hex4 c"
    by (simp only: escape_lt_simps escape_lt_hex4) (simp add: escape_lt_def)
  show ?thesis
  proof (cases "c = 60")
    case True
    then show ?thesis using lt by (simp add: escape_unit_def escape_lt_def is_high_def is_low_def)
  next
    case False
    show ?thesis
    proof (cases "c \<in> {8, 9, 10, 12, 13, 34, 92}")
      case True
      then show ?thesis
        by (elim insertE) (simp_all add: escape_unit_def escape_lt_def json_chars_short escape_val_def)
    next
      case sp: False
      show ?thesis
      proof (cases "c < 32 \<or> is_high c \<or> is_low c")
        case True
        then have "escape_unit c = [92, 117] @ hex4 c" using sp by (simp add: escape_unit_def)
        then show ?thesis using hex json_chars_hex[of c r] by simp
      next
        case plain: False
        then have "escape_unit c = [c]" using sp by (simp add: escape_unit_def)
        then show ?thesis using plain sp False by (simp add: escape_lt_def json_chars_plain)
      qed
    qed
  qed
qed

lemma surrogate_plain:
  assumes "is_high c \<or> is_low c"
  shows "escape_lt [c] = [c]" "c \<noteq> 34" "c \<noteq> 92" "\<not> c < 32"
  using assms by (auto simp: is_high_def is_low_def escape_lt_def word_le_nat_alt word_less_nat_alt)

lemma json_chars_escape:
  "json_chars (escape_lt (json_escape s) @ 34 # r) = Some (s, r)"
proof (induction s rule: json_escape.induct)
  case 1
  then show ?case by (simp add: json_chars.simps(2)[of 34 r])
next
  case (2 c)
  have "json_chars (34 # r) = Some ([], r)" by (subst json_chars.simps) simp
  then show ?case by (simp add: json_chars_escape_unit cons_fst_def)
next
  case (3 c d s)
  show ?case
  proof (cases "is_high c \<and> is_low d")
    case True
    then have "escape_lt (c # d # json_escape s) = c # d # escape_lt (json_escape s)"
      using surrogate_plain(1) by (metis append_Cons append_Nil escape_lt_Cons)
    with True 3(1) show ?thesis
      using surrogate_plain(2-4)[of c] surrogate_plain(2-4)[of d]
      by (simp add: json_chars_plain cons_fst_def)
  next
    case False
    then have "json_escape (c # d # s) = escape_unit c @ json_escape (d # s)" by auto
    with False 3(2) show ?thesis by (simp only: escape_lt_simps append_assoc json_chars_escape_unit)
      (simp add: cons_fst_def)
  qed
qed

lemma json_parse_escaped: "json_parse_str (escape_lt (json_str s)) = Some s"
proof -
  have "escape_lt (json_str s) = 34 # escape_lt (json_escape s) @ 34 # []"
    by (simp add: json_str_def escape_lt_def)
  then show ?thesis using json_chars_escape[of s "[]"] by (simp add: json_parse_str_def)
qed

end
