(* ===== verification/Preflight_Data.thy ===== *)
theory Preflight_Data
  imports Js_Json
begin

text \<open>
  \<open>tools/cowchat-artifacts/preflight.mjs\<close>, its constants and the check of the data document:
  \<open>weigh\<close> walks the data, counts its nodes, refuses reserved keys and the shapes OpenUI takes
  for its own objects, and stores the weight of every object in a \<open>WeakMap\<close>. The data comes
  from \<open>JSON.parse\<close>, so it is a tree, and the identity of an object in it is its position: the
  list of the indices of the entries that lead to it.
\<close>

section \<open>Constants\<close>

record preflight_limits =
  lim_bytes :: nat
  lim_tokens :: nat
  lim_statements :: nat
  lim_depth :: nat
  lim_nodes :: nat
  lim_components :: nat
  lim_render :: nat
  lim_data_nodes :: nat
  lim_data_depth :: nat
  lim_data_bytes :: nat

definition limits :: preflight_limits where
  "limits = \<lparr>lim_bytes = 65536, lim_tokens = 8192, lim_statements = 128, lim_depth = 32,
     lim_nodes = 20000, lim_components = 256, lim_render = 20000, lim_data_nodes = 10000,
     lim_data_depth = 16, lim_data_bytes = 524288\<rparr>"

lemma limits_simps [simp]:
  "lim_bytes limits = 65536" "lim_tokens limits = 8192" "lim_statements limits = 128"
  "lim_depth limits = 32" "lim_nodes limits = 20000" "lim_components limits = 256"
  "lim_render limits = 20000" "lim_data_nodes limits = 10000" "lim_data_depth limits = 16"
  "lim_data_bytes limits = 524288"
  by (simp_all add: limits_def)

definition ast_kinds :: "jsstr list" where
  "ast_kinds = map lit
     [''Comp'', ''Str'', ''Num'', ''Bool'', ''Null'', ''Arr'', ''Obj'', ''Ref'', ''Ph'', ''StateRef'',
      ''RuntimeRef'', ''BinOp'', ''UnaryOp'', ''Ternary'', ''Member'', ''Index'', ''Assign'']"

definition unsafe_key :: "jsstr \<Rightarrow> bool" where
  "unsafe_key key \<longleftrightarrow> key \<in> set (map lit [''__proto__'', ''prototype'', ''constructor''])"

definition fail :: "jserr + 'a" where
  "fail = Inl LimitsError"

definition quote :: "jsv \<Rightarrow> jsstr" where
  "quote v = escape_lt (json_text v)"

definition text_cost :: "jsstr \<Rightarrow> nat" where
  "text_cost s = 1 + (length s + 63) div 64"

fun control_object :: "jsv \<Rightarrow> bool" where
  "control_object (JObj kvs) =
     ((case map_of kvs (lit ''k'') of Some (JStr s) \<Rightarrow> s \<in> set ast_kinds | _ \<Rightarrow> False)
      \<or> map_of kvs (lit ''type'') = Some (JStr (lit ''element''))
      \<or> (case map_of kvs (lit ''__reactive'') of Some x \<Rightarrow> truthy x | None \<Rightarrow> False)
      \<or> (case map_of kvs (lit ''steps'') of Some x \<Rightarrow> is_array x | None \<Rightarrow> False))"
| "control_object _ = False"

declare control_object.simps(1) [simp del]

lemma text_cost_bounds: "0 < text_cost s" "length s \<le> 64 * text_cost s"
  by (simp_all add: text_cost_def)

section \<open>Weighing the data\<close>

type_synonym data_path = "nat list"

record weigh_state =
  data_nodes :: nat
  data_weights :: "data_path \<Rightarrow> nat option"

definition weigh_start :: weigh_state where
  "weigh_start = \<lparr>data_nodes = 0, data_weights = Map.empty\<rparr>"

text \<open>The size of a value, for the termination of the walk.\<close>

fun vsize :: "jsv \<Rightarrow> nat" where
  "vsize (JArr xs) = Suc (sum_list (map (\<lambda>x. Suc (vsize x)) xs))"
| "vsize (JObj kvs) = Suc (sum_list (map (\<lambda>(k, x). Suc (vsize x)) kvs))"
| "vsize _ = 1"

definition entries_size :: "(jsstr \<times> jsv) list \<Rightarrow> nat" where
  "entries_size kvs = sum_list (map (\<lambda>(k, x). Suc (vsize x)) kvs)"

lemma entries_size_simps [simp]:
  "entries_size [] = 0" "entries_size ((k, x) # kvs) = Suc (vsize x) + entries_size kvs"
  by (simp_all add: entries_size_def)

lemma entries_size_map: "entries_size kvs = sum_list (map (\<lambda>x. Suc (vsize x)) (map snd kvs))"
  by (induction kvs) auto

lemma entry_size: "e \<in> set kvs \<Longrightarrow> vsize (snd e) < entries_size kvs"
  by (induction kvs) auto

lemma entries_size_less: "is_object v \<Longrightarrow> entries_size (entries_of v) < vsize v"
proof (cases v)
  case (JArr xs)
  then show ?thesis by (simp add: entries_size_map)
next
  case (JObj kvs)
  then show ?thesis by (simp add: entries_size_def)
qed simp_all

function weigh :: "data_path \<Rightarrow> jsv \<Rightarrow> nat \<Rightarrow> weigh_state \<Rightarrow> jserr + nat \<times> weigh_state"
and weigh_entries :: "data_path \<Rightarrow> nat \<Rightarrow> (jsstr \<times> jsv) list \<Rightarrow> nat \<Rightarrow> nat \<Rightarrow> weigh_state
       \<Rightarrow> jserr + nat \<times> weigh_state" where
  "weigh p v depth st =
     (if data_nodes st + 1 > lim_data_nodes limits \<or> depth > lim_data_depth limits \<or> control_object v
      then fail
      else if \<not> is_object v
      then Inr (case v of JStr s \<Rightarrow> text_cost s | _ \<Rightarrow> 1, st\<lparr>data_nodes := data_nodes st + 1\<rparr>)
      else case data_weights st p of
        Some w \<Rightarrow> Inr (w, st\<lparr>data_nodes := data_nodes st + 1\<rparr>)
      | None \<Rightarrow>
          (case weigh_entries p 0 (entries_of v) depth 1 (st\<lparr>data_nodes := data_nodes st + 1\<rparr>) of
             Inl e \<Rightarrow> Inl e
           | Inr (w, st') \<Rightarrow> Inr (w, st'\<lparr>data_weights := (data_weights st')(p \<mapsto> w)\<rparr>)))"
| "weigh_entries p i [] depth w st = Inr (w, st)"
| "weigh_entries p i ((key, item) # kvs) depth w st =
     (if unsafe_key key then fail
      else case weigh (p @ [i]) item (depth + 1) st of
        Inl e \<Rightarrow> Inl e
      | Inr (d, st') \<Rightarrow> weigh_entries p (Suc i) kvs depth (w + d) st')"
  by pat_completeness auto
termination
  by (relation "measure (\<lambda>x. case x of Inl (p, v, d, st) \<Rightarrow> vsize v
        | Inr (p, i, kvs, d, w, st) \<Rightarrow> entries_size kvs)")
    (auto simp: entries_size_less)

declare weigh.simps [simp del]

section \<open>What the walk computes\<close>

text \<open>
  Four plain recursions on the data: its weight, its number of nodes, its depth, and whether
  it is free of reserved keys and OpenUI shapes.
\<close>

lemma entry_smaller: "is_object v \<Longrightarrow> e \<in> set (entries_of v) \<Longrightarrow> vsize (snd e) < vsize v"
  using entry_size entries_size_less order_less_trans by blast

function weight :: "jsv \<Rightarrow> nat" where
  "weight v =
     (if is_object v then 1 + sum_list (map (\<lambda>e. weight (snd e)) (entries_of v))
      else case v of JStr s \<Rightarrow> text_cost s | _ \<Rightarrow> 1)"
  by pat_completeness auto

termination by (relation "measure vsize") (auto simp: entry_smaller)

function node_count :: "jsv \<Rightarrow> nat" where
  "node_count v =
     1 + (if is_object v then sum_list (map (\<lambda>e. node_count (snd e)) (entries_of v)) else 0)"
  by pat_completeness auto
termination by (relation "measure vsize") (auto simp: entry_smaller)

function data_depth :: "jsv \<Rightarrow> nat" where
  "data_depth v =
     (if is_object v then foldr max (map (\<lambda>e. Suc (data_depth (snd e))) (entries_of v)) 0 else 0)"
  by pat_completeness auto
termination by (relation "measure vsize") (auto simp: entry_smaller)

function clean_data :: "jsv \<Rightarrow> bool" where
  "clean_data v \<longleftrightarrow> \<not> control_object v \<and>
     (is_object v \<longrightarrow> list_all (\<lambda>e. \<not> unsafe_key (fst e) \<and> clean_data (snd e)) (entries_of v))"
  by pat_completeness auto
termination by (relation "measure vsize") (auto simp: entry_smaller)

declare weight.simps [simp del] node_count.simps [simp del] data_depth.simps [simp del]
  clean_data.simps [simp del]

text \<open>The value at a position.\<close>

fun value_at :: "jsv \<Rightarrow> data_path \<Rightarrow> jsv option" where
  "value_at v [] = Some v"
| "value_at v (i # p) =
     (if is_object v \<and> i < length (entries_of v) then value_at (snd (entries_of v ! i)) p else None)"


lemma depth_le_iff:
  "d + foldr max (map f es) 0 \<le> (n :: nat) \<longleftrightarrow> d \<le> n \<and> (\<forall>e \<in> set es. d + f e \<le> n)"
  by (induction es) auto

lemma data_depth_le:
  "is_object v \<Longrightarrow> d + data_depth v \<le> n \<longleftrightarrow>
     d \<le> n \<and> (\<forall>e \<in> set (entries_of v). Suc d + data_depth (snd e) \<le> n)"
  by (subst data_depth.simps) (simp add: depth_le_iff)

text \<open>When the walk accepts a value, and that it has stored every object below it.\<close>

definition data_ok :: "jsv \<Rightarrow> nat \<Rightarrow> weigh_state \<Rightarrow> bool" where
  "data_ok v depth st \<longleftrightarrow> clean_data v \<and> data_nodes st + node_count v \<le> lim_data_nodes limits \<and>
     depth + data_depth v \<le> lim_data_depth limits"

definition entries_ok :: "(jsstr \<times> jsv) list \<Rightarrow> nat \<Rightarrow> weigh_state \<Rightarrow> bool" where
  "entries_ok kvs depth st \<longleftrightarrow> list_all (\<lambda>e. \<not> unsafe_key (fst e) \<and> clean_data (snd e)) kvs \<and>
     data_nodes st + sum_list (map (\<lambda>e. node_count (snd e)) kvs) \<le> lim_data_nodes limits \<and>
     (\<forall>e \<in> set kvs. Suc depth + data_depth (snd e) \<le> lim_data_depth limits)"

definition weighs :: "data_path \<Rightarrow> jsv \<Rightarrow> weigh_state \<Rightarrow> weigh_state \<Rightarrow> bool" where
  "weighs p v st st' \<longleftrightarrow> data_nodes st' = data_nodes st + node_count v \<and>
     (\<forall>q. (\<forall>r. q \<noteq> p @ r) \<longrightarrow> data_weights st' q = data_weights st q) \<and>
     (\<forall>r x. value_at v r = Some x \<longrightarrow> is_object x \<longrightarrow> data_weights st' (p @ r) = Some (weight x))"

definition weighs_entries :: "data_path \<Rightarrow> nat \<Rightarrow> (jsstr \<times> jsv) list \<Rightarrow> weigh_state \<Rightarrow> weigh_state \<Rightarrow> bool" where
  "weighs_entries p i kvs st st' \<longleftrightarrow>
     data_nodes st' = data_nodes st + sum_list (map (\<lambda>e. node_count (snd e)) kvs) \<and>
     (\<forall>q. (\<forall>j r. i \<le> j \<longrightarrow> q \<noteq> p @ j # r) \<longrightarrow> data_weights st' q = data_weights st q) \<and>
     (\<forall>j r x. j < length kvs \<longrightarrow> value_at (snd (kvs ! j)) r = Some x \<longrightarrow> is_object x \<longrightarrow>
        data_weights st' (p @ (i + j) # r) = Some (weight x))"

lemma weighs_entries_Cons:
  assumes "weighs (p @ [i]) item st st1" and "weighs_entries p (Suc i) kvs st1 st2"
  shows "weighs_entries p i ((key, item) # kvs) st st2"
  unfolding weighs_entries_def
proof (intro conjI allI impI)
  show "data_nodes st2 = data_nodes st + (\<Sum>e\<leftarrow>(key, item) # kvs. node_count (snd e))"
    using assms by (simp add: weighs_def weighs_entries_def)
next
  fix q assume q: "\<forall>j r. i \<le> j \<longrightarrow> q \<noteq> p @ j # r"
  then have "data_weights st2 q = data_weights st1 q"
    using assms(2) by (simp add: weighs_entries_def)
  also have "\<dots> = data_weights st q" using assms(1) q by (simp add: weighs_def)
  finally show "data_weights st2 q = data_weights st q" .
next
  fix j r x
  assume j: "j < length ((key, item) # kvs)" and x: "value_at (snd (((key, item) # kvs) ! j)) r = Some x"
    and o: "is_object x"
  show "data_weights st2 (p @ (i + j) # r) = Some (weight x)"
  proof (cases j)
    case 0
    then have "data_weights st2 (p @ i # r) = data_weights st1 (p @ i # r)"
      using assms(2) by (simp add: weighs_entries_def)
    then show ?thesis using 0 x o assms(1) by (simp add: weighs_def)
  next
    case (Suc j')
    then show ?thesis using j x o assms(2) by (simp add: weighs_entries_def)
  qed
qed

lemma weighs_object:
  assumes "is_object v" and "weighs_entries p 0 (entries_of v) (st\<lparr>data_nodes := data_nodes st + 1\<rparr>) st'"
  shows "weighs p v st (st'\<lparr>data_weights := (data_weights st')(p \<mapsto> weight v)\<rparr>)"
  unfolding weighs_def
proof (intro conjI allI impI)
  show "data_nodes (st'\<lparr>data_weights := (data_weights st')(p \<mapsto> weight v)\<rparr>) = data_nodes st + node_count v"
    using assms by (subst node_count.simps) (simp add: weighs_entries_def)
next
  fix q assume "\<forall>r. q \<noteq> p @ r"
  moreover have "q \<noteq> p" using calculation by (metis append_Nil2)
  ultimately show "data_weights (st'\<lparr>data_weights := (data_weights st')(p \<mapsto> weight v)\<rparr>) q = data_weights st q"
    using assms(2) by (simp add: weighs_entries_def)
next
  fix r x assume "value_at v r = Some x" and "is_object x"
  then show "data_weights (st'\<lparr>data_weights := (data_weights st')(p \<mapsto> weight v)\<rparr>) (p @ r) = Some (weight x)"
    using assms by (cases r) (auto simp: weighs_entries_def split: if_splits)
qed

text \<open>What the two walks promise; the steps of the induction are lemmas of their own.\<close>

definition weigh_post :: "data_path \<Rightarrow> jsv \<Rightarrow> nat \<Rightarrow> weigh_state \<Rightarrow> bool" where
  "weigh_post p v depth st \<longleftrightarrow>
     (if data_ok v depth st then \<exists>st'. weigh p v depth st = Inr (weight v, st') \<and> weighs p v st st'
      else weigh p v depth st = fail)"

definition entries_post :: "data_path \<Rightarrow> nat \<Rightarrow> (jsstr \<times> jsv) list \<Rightarrow> nat \<Rightarrow> nat \<Rightarrow> weigh_state \<Rightarrow> bool" where
  "entries_post p i kvs depth w st \<longleftrightarrow>
     (if entries_ok kvs depth st
      then \<exists>st'. weigh_entries p i kvs depth w st = Inr (w + sum_list (map (\<lambda>e. weight (snd e)) kvs), st')
             \<and> weighs_entries p i kvs st st'
      else weigh_entries p i kvs depth w st = fail)"

definition weigh_guard :: "jsv \<Rightarrow> nat \<Rightarrow> weigh_state \<Rightarrow> bool" where
  "weigh_guard v depth st \<longleftrightarrow>
     data_nodes st + 1 > lim_data_nodes limits \<or> depth > lim_data_depth limits \<or> control_object v"

lemma weigh_guarded: "weigh_guard v depth st \<Longrightarrow> weigh_post p v depth st"
proof -
  assume g: "weigh_guard v depth st"
  then have "weigh p v depth st = fail" by (simp add: weigh.simps weigh_guard_def)
  moreover have "\<not> data_ok v depth st"
    using g clean_data.simps[of v] node_count.simps[of v] by (auto simp: data_ok_def weigh_guard_def)
  ultimately show ?thesis by (simp add: weigh_post_def)
qed

lemma weigh_scalar:
  assumes "\<not> weigh_guard v depth st" and "\<not> is_object v"
  shows "weigh_post p v depth st"
proof -
  have "data_ok v depth st"
    using assms by (simp add: weigh_guard_def data_ok_def clean_data.simps[of v] node_count.simps[of v] data_depth.simps[of v])
  moreover have "weighs p v st (st\<lparr>data_nodes := data_nodes st + 1\<rparr>)"
    using assms(2) by (auto simp: weighs_def node_count.simps[of v] elim!: value_at.elims)
  ultimately show ?thesis
    using assms by (auto simp: weigh_post_def weigh_guard_def weigh.simps[of p v] weight.simps[of v])
qed

lemma weigh_object:
  assumes "\<not> weigh_guard v depth st" and "is_object v" and fresh: "data_weights st p = None"
    and ih: "entries_post p 0 (entries_of v) depth 1 (st\<lparr>data_nodes := data_nodes st + 1\<rparr>)"
  shows "weigh_post p v depth st"
proof -
  let ?st1 = "st\<lparr>data_nodes := data_nodes st + 1\<rparr>"
  have ok: "data_ok v depth st \<longleftrightarrow> entries_ok (entries_of v) depth ?st1"
    using assms(1,2) by (auto simp: weigh_guard_def data_ok_def entries_ok_def clean_data.simps[of v] node_count.simps[of v]
        data_depth_le simp del: add_Suc)
  have ih': "if data_ok v depth st
      then \<exists>st'. weigh_entries p 0 (entries_of v) depth 1 ?st1 = Inr (weight v, st')
         \<and> weighs_entries p 0 (entries_of v) ?st1 st'
      else weigh_entries p 0 (entries_of v) depth 1 ?st1 = fail"
    using ih assms(2) ok by (simp add: entries_post_def weight.simps[of v] cong: if_cong)
  show ?thesis
  proof (cases "data_ok v depth st")
    case True
    then obtain st' where "weigh_entries p 0 (entries_of v) depth 1 ?st1 = Inr (weight v, st')"
      and "weighs_entries p 0 (entries_of v) ?st1 st'"
      using ih' by auto
    then show ?thesis
      using True assms weighs_object[OF assms(2)] by (auto simp: weigh_post_def weigh_guard_def weigh.simps[of p v])
  next
    case False
    then show ?thesis using ih' assms by (simp add: weigh_post_def weigh_guard_def weigh.simps[of p v] fail_def)
  qed
qed

lemma weigh_entry:
  assumes safe: "\<not> unsafe_key key" and ih1: "weigh_post (p @ [i]) item (depth + 1) st"
    and pre: "\<forall>j \<ge> i. \<forall>q. data_weights st (p @ j # q) = None"
    and ih2: "\<And>st1. weigh (p @ [i]) item (depth + 1) st = Inr (weight item, st1) \<Longrightarrow>
      \<forall>j \<ge> Suc i. \<forall>q. data_weights st1 (p @ j # q) = None \<Longrightarrow> data_nodes st1 \<le> lim_data_nodes limits \<Longrightarrow>
      entries_post p (Suc i) kvs depth (w + weight item) st1"
  shows "entries_post p i ((key, item) # kvs) depth w st"
proof (cases "data_ok item (depth + 1) st")
  case False
  then have "weigh (p @ [i]) item (depth + 1) st = fail" using ih1 by (simp add: weigh_post_def)
  moreover have "\<not> entries_ok ((key, item) # kvs) depth st"
    using False by (auto simp: data_ok_def entries_ok_def)
  ultimately show ?thesis using safe by (simp add: entries_post_def fail_def)
next
  case True
  then obtain st1 where w1: "weigh (p @ [i]) item (depth + 1) st = Inr (weight item, st1)"
    and s1: "weighs (p @ [i]) item st st1"
    using ih1 by (auto simp: weigh_post_def)
  have n1: "data_nodes st1 = data_nodes st + node_count item" using s1 by (simp add: weighs_def)
  have fresh: "\<forall>j \<ge> Suc i. \<forall>q. data_weights st1 (p @ j # q) = None"
    using s1 pre by (auto simp: weighs_def)
  have ok: "entries_ok ((key, item) # kvs) depth st \<longleftrightarrow> entries_ok kvs depth st1"
    using True safe n1 by (auto simp: data_ok_def entries_ok_def)
  have "data_nodes st1 \<le> lim_data_nodes limits" using True n1 by (simp add: data_ok_def)
  then have post: "entries_post p (Suc i) kvs depth (w + weight item) st1" by (rule ih2[OF w1 fresh])
  show ?thesis
  proof (cases "entries_ok kvs depth st1")
    case yes: True
    then obtain st2 where "weigh_entries p (Suc i) kvs depth (w + weight item) st1
          = Inr (w + weight item + sum_list (map (\<lambda>e. weight (snd e)) kvs), st2)"
      and "weighs_entries p (Suc i) kvs st1 st2"
      using post by (auto simp: entries_post_def)
    then show ?thesis
      using yes ok safe w1 weighs_entries_Cons[OF s1] by (auto simp: entries_post_def add.assoc)
  next
    case no: False
    then show ?thesis using post ok safe w1 by (simp add: entries_post_def)
  qed
qed

lemma weigh_correct:
  "(\<forall>q. data_weights st (p @ q) = None) \<Longrightarrow> weigh_post p v depth st"
and weigh_entries_correct:
  "(\<forall>j \<ge> i. \<forall>q. data_weights st (p @ j # q) = None) \<Longrightarrow> data_nodes st \<le> lim_data_nodes limits \<Longrightarrow>
     entries_post p i kvs depth w st"
proof (induction p v depth st and p i kvs depth w st rule: weigh_weigh_entries.induct)
  case (1 p v depth st)
  show ?case
  proof (cases "weigh_guard v depth st")
    case guard: False
    show ?thesis
    proof (cases "is_object v")
      case True
      have fresh: "data_weights st p = None" using 1(2) by (metis append_Nil2)
      have "entries_post p 0 (entries_of v) depth 1 (st\<lparr>data_nodes := data_nodes st + 1\<rparr>)"
        using 1(1) True fresh 1(2) guard by (simp add: weigh_guard_def)
      then show ?thesis by (rule weigh_object[OF guard True fresh])
    qed (rule weigh_scalar[OF guard])
  qed (rule weigh_guarded)
next
  case (2 p i depth w st)
  then show ?case by (simp add: entries_post_def entries_ok_def weighs_entries_def)
next
  case (3 p i key item kvs depth w st)
  show ?case
  proof (cases "unsafe_key key")
    case True
    then show ?thesis by (simp add: entries_post_def entries_ok_def fail_def)
  next
    case safe: False
    have "\<forall>q. data_weights st ((p @ [i]) @ q) = None" using 3(3) by simp
    then show ?thesis
      using weigh_entry[OF safe 3(1)[OF safe] 3(3)] 3(2)[OF safe] by blast
  qed
qed

end
