(* ===== verification/Js_Number.thy ===== *)
theory Js_Number
  imports Js_Base "HOL-Library.Code_Target_Nat"
begin

text \<open>
  Reading a decimal literal as a Number: \<open>double_of\<close> rounds a quotient to the nearest binary64
  value (ties to even, subnormals and overflow included), and \<open>shortest\<close> finds the decimal
  that \<open>Number::toString\<close> prints for it, trying one digit, then two, up to seventeen.
  The steps are small functions of evaluated arguments, so that the kernel can run them.
\<close>

fun bit_len :: "nat \<Rightarrow> nat" where
  "bit_len n = (if n = 0 then 0 else bit_len (n div 2) + 1)"

declare bit_len.simps [simp del, js_eval]

definition round_tie :: "nat \<Rightarrow> nat \<Rightarrow> nat \<Rightarrow> nat" where
  "round_tie t r b =
     (if 2 * r < b then t else if b < 2 * r then t + 1 else if even t then t else t + 1)"

fun round_half_even :: "nat \<times> nat \<Rightarrow> nat" where
  "round_half_even (a, b) = round_tie (a div b) (a mod b) b"

fun quot_floor :: "nat \<times> nat \<Rightarrow> nat" where
  "quot_floor (a, b) = a div b"

text \<open>\<open>p / q\<close> divided by \<open>base ^ k\<close>, again as a quotient.\<close>

fun scale_down :: "nat \<Rightarrow> nat \<times> nat \<Rightarrow> int \<Rightarrow> nat \<times> nat" where
  "scale_down base (p, q) k =
     (if 0 \<le> k then (p, q * base ^ nat k) else (p * base ^ nat (- k), q))"

text \<open>A double is \<open>(m, k)\<close>, the value \<open>m * 2 ^ k\<close> with at most 53 bits in \<open>m\<close>.\<close>

fun exponent_guess :: "nat \<times> nat \<Rightarrow> int" where
  "exponent_guess (p, q) = int (bit_len p) - int (bit_len q) - 53"

definition double_exponent :: "nat \<times> nat \<Rightarrow> int" where
  "double_exponent pq =
     max (if 2 ^ 53 \<le> quot_floor (scale_down 2 pq (exponent_guess pq))
          then exponent_guess pq + 1 else exponent_guess pq) (-1074)"

definition double_at :: "nat \<times> nat \<Rightarrow> int \<Rightarrow> nat \<times> int" where
  "double_at pq k = (round_half_even (scale_down 2 pq k), k)"

definition double_of :: "nat \<times> nat \<Rightarrow> nat \<times> int" where
  "double_of pq = double_at pq (double_exponent pq)"

fun double_quot :: "nat \<times> int \<Rightarrow> nat \<times> nat" where
  "double_quot (m, k) = scale_down 2 (m, 1) (- k)"

fun same_quot :: "nat \<times> nat \<Rightarrow> nat \<times> nat \<Rightarrow> bool" where
  "same_quot (a, b) (c, d) \<longleftrightarrow> a * d = c * b"

fun quot_overflows :: "nat \<times> nat \<Rightarrow> bool" where
  "quot_overflows (a, b) \<longleftrightarrow> 2 ^ 1024 * b \<le> a"

text \<open>The \<open>x\<close> with \<open>10 ^ x \<le> p / q < 10 ^ (x + 1)\<close>.\<close>

fun decimal_guess :: "nat \<times> nat \<Rightarrow> int" where
  "decimal_guess (p, q) = int (length (digits_of p)) - int (length (digits_of q))"

definition decimal_exponent :: "nat \<times> nat \<Rightarrow> int" where
  "decimal_exponent pq =
     (if quot_floor (scale_down 10 pq (decimal_guess pq)) = 0
      then decimal_guess pq - 1 else decimal_guess pq)"

definition decimal_at :: "nat \<times> nat \<Rightarrow> int \<Rightarrow> nat \<times> int" where
  "decimal_at v e = (round_half_even (scale_down 10 v e), e)"

fun decimal_quot :: "nat \<times> int \<Rightarrow> nat \<times> nat" where
  "decimal_quot (d, e) = scale_down 10 (d, 1) (- e)"

definition reads_as :: "nat \<times> int \<Rightarrow> nat \<times> nat \<Rightarrow> bool" where
  "reads_as de v \<longleftrightarrow> same_quot (double_quot (double_of (decimal_quot de))) v"

text \<open>\<open>e\<close> is the exponent of the leading digit, \<open>n\<close> the number of digits tried.\<close>

fun shortest_from :: "nat \<times> nat \<Rightarrow> int \<Rightarrow> nat list \<Rightarrow> nat \<times> int" where
  "shortest_from v e [] = decimal_at v (e - 799)"
| "shortest_from v e (n # ns) =
     (if reads_as (decimal_at v (e - int n + 1)) v then decimal_at v (e - int n + 1)
      else shortest_from v e ns)"

definition shortest :: "nat \<times> nat \<Rightarrow> nat \<times> int" where
  "shortest v =
     shortest_from v (decimal_exponent v) [1, 2, 3, 4, 5, 6, 7, 8, 9, 10, 11, 12, 13, 14, 15, 16, 17]"

fun num_of_quot :: "bool \<Rightarrow> nat \<times> nat \<Rightarrow> jsnum" where
  "num_of_quot neg (a, b) =
     (if a = 0 then Fin neg 0 0
      else if quot_overflows (a, b) then Infty neg
      else case shortest (a, b) of (d, e) \<Rightarrow> norm_num neg d e)"

definition num_of_decimal :: "bool \<Rightarrow> nat \<Rightarrow> int \<Rightarrow> jsnum" where
  "num_of_decimal neg d e =
     (if d = 0 then Fin neg 0 0 else num_of_quot neg (double_quot (double_of (decimal_quot (d, e)))))"

lemmas number_eval [js_eval] =
  double_exponent_def double_at_def double_of_def reads_as_def decimal_at_def shortest_def
  decimal_exponent_def round_tie_def num_of_decimal_def norm_num_def

lemma num_of_decimal_examples:
  "num_of_decimal False 42 0 = Fin False 42 0"
  "num_of_decimal True 1500 (-2) = Fin True 15 0"
  "num_of_decimal False 1 (-1) = Fin False 1 (-1)"
  "num_of_decimal False 9007199254740993 0 = Fin False 9007199254740992 0"
  by (simp_all add: js_eval)

end
