(* ===== verification/Lang_Tokens.thy ===== *)
theory Lang_Tokens
  imports Js_Json Js_Number
begin

text \<open>
  The tokenizer of OpenUI's \<open>lang-core\<close>, read from the bundle that the repository ships
  (\<open>web/artifact.js\<close>, the function \<open>W3\<close> that the bundled \<open>preflightView\<close> calls where
  \<open>preflight.mjs\<close> says \<open>tokenize\<close>). A token is its code \<open>t\<close> and its value \<open>v\<close>
  (\<open>JUndef\<close> for a token without one). The position in the source is the rest of the source.
\<close>

datatype token = Tok (tok_t: nat) (tok_v: jsv)

definition is_lower :: "code_unit \<Rightarrow> bool" where
  "is_lower c \<longleftrightarrow> 97 \<le> c \<and> c \<le> 122"

definition is_upper :: "code_unit \<Rightarrow> bool" where
  "is_upper c \<longleftrightarrow> 65 \<le> c \<and> c \<le> 90"

definition ident_start :: "code_unit \<Rightarrow> bool" where
  "ident_start c \<longleftrightarrow> is_lower c \<or> is_upper c \<or> c = 95"

definition ident_part :: "code_unit \<Rightarrow> bool" where
  "ident_part c \<longleftrightarrow> is_lower c \<or> is_upper c \<or> is_digit c \<or> c = 95"

text \<open>The inside of a double-quoted string: the raw text, whether it was closed, and the rest.\<close>

fun scan_dq :: "jsstr \<Rightarrow> jsstr \<times> bool \<times> jsstr" where
  "scan_dq [] = ([], False, [])"
| "scan_dq (c # s) =
     (if c = 92 then
        (case s of [] \<Rightarrow> ([c], False, [])
         | d # s' \<Rightarrow> (case scan_dq s' of (raw, closed, rest) \<Rightarrow> (c # d # raw, closed, rest)))
      else if c = 34 then ([c], True, s)
      else case scan_dq s of (raw, closed, rest) \<Rightarrow> (c # raw, closed, rest))"

text \<open>\<open>u.replace(/^"|"$/g, "")\<close>\<close>

definition strip_quotes :: "jsstr \<Rightarrow> jsstr" where
  "strip_quotes u =
     (let t = (if u \<noteq> [] \<and> hd u = 34 then tl u else u)
      in if t \<noteq> [] \<and> last t = 34 then butlast t else t)"

definition dq_value :: "jsstr \<Rightarrow> bool \<Rightarrow> jsstr" where
  "dq_value raw closed =
     (let u = 34 # raw; d = (if closed then u else u @ [34])
      in case json_parse_str d of Some v \<Rightarrow> v | None \<Rightarrow> strip_quotes u)"

fun scan_sq :: "jsstr \<Rightarrow> jsstr \<times> jsstr" where
  "scan_sq [] = ([], [])"
| "scan_sq (c # s) =
     (if c = 92 then
        (case s of [] \<Rightarrow> ([], [])
         | d # s' \<Rightarrow> (case scan_sq s' of (l, rest) \<Rightarrow>
             ((if d = 110 then 10 else if d = 116 then 9 else d) # l, rest)))
      else if c = 39 then ([], s)
      else case scan_sq s of (l, rest) \<Rightarrow> (c # l, rest))"

text \<open>
  A number: sign, digits, a fraction only if a digit follows the point, an exponent mark with
  an optional sign and digits. The value is \<open>+text\<close>, which is NaN when the exponent mark has
  no digits after it.
\<close>

definition digits_val :: "jsstr \<Rightarrow> nat" where
  "digits_val ds = foldl (\<lambda>n c. 10 * n + digit_val c) 0 ds"

definition scan_frac :: "jsstr \<Rightarrow> jsstr \<times> jsstr" where
  "scan_frac s =
     (case s of c # d # r \<Rightarrow>
        if c = 46 \<and> is_digit d then (takeWhile is_digit (d # r), dropWhile is_digit (d # r))
        else ([], s)
      | _ \<Rightarrow> ([], s))"

definition scan_exp :: "jsstr \<Rightarrow> (bool \<times> jsstr) option \<times> jsstr" where
  "scan_exp s =
     (case s of c # r \<Rightarrow>
        if c = 101 \<or> c = 69 then
          (let neg = (r \<noteq> [] \<and> hd r = 45);
               r' = (if r \<noteq> [] \<and> (hd r = 43 \<or> hd r = 45) then tl r else r)
           in (Some (neg, takeWhile is_digit r'), dropWhile is_digit r'))
        else (None, s)
      | [] \<Rightarrow> (None, s))"

definition scan_number :: "jsstr \<Rightarrow> jsnum \<times> jsstr" where
  "scan_number s =
     (let neg = (s \<noteq> [] \<and> hd s = 45); s0 = (if neg then tl s else s);
          int_part = takeWhile is_digit s0; s1 = dropWhile is_digit s0;
          (frac, s2) = scan_frac s1; (expo, s3) = scan_exp s2;
          d = digits_val (int_part @ frac)
      in case expo of
           None \<Rightarrow> (num_of_decimal neg d (- int (length frac)), s3)
         | Some (eneg, eds) \<Rightarrow>
             if eds = [] then (NaN, s3)
             else (num_of_decimal neg d
                     ((if eneg then - int (digits_val eds) else int (digits_val eds)) - int (length frac)), s3))"

text \<open>After one of these tokens a minus sign is an operator, even before a digit.\<close>

definition operand_end :: "nat \<Rightarrow> bool" where
  "operand_end t \<longleftrightarrow> t \<in> {15, 14, 16, 17, 2, 4, 10, 11, 12, 18, 35}"

definition second :: "jsstr \<Rightarrow> code_unit option" where
  "second s = (case s of _ # d # _ \<Rightarrow> Some d | _ \<Rightarrow> None)"

definition next_is :: "(code_unit \<Rightarrow> bool) \<Rightarrow> jsstr \<Rightarrow> bool" where
  "next_is p s = (case second s of Some d \<Rightarrow> p d | None \<Rightarrow> False)"

text \<open>The one-character tokens, and the two characters whose token depends on the next one.\<close>

definition punct :: "code_unit \<Rightarrow> nat option" where
  "punct c =
     map_of [(10, 0), (40, 1), (41, 2), (91, 3), (93, 4), (123, 5), (125, 6), (44, 7), (58, 8),
             (46, 19), (63, 34), (43, 20), (42, 22), (47, 23), (37, 24)] c"

definition paired :: "code_unit \<Rightarrow> (code_unit \<times> nat \<times> nat) option" where
  "paired c =
     map_of [(61, 61, 25, 9), (33, 61, 26, 33), (62, 61, 29, 27), (60, 61, 30, 28),
             (38, 38, 31, 31), (124, 124, 32, 32)] c"

definition keyword_or_ident :: "jsstr \<Rightarrow> token" where
  "keyword_or_ident w =
     (if w = lit ''true'' then Tok 10 JUndef else if w = lit ''false'' then Tok 11 JUndef
      else if w = lit ''null'' then Tok 12 JUndef
      else Tok (if w \<noteq> [] \<and> is_upper (hd w) then 17 else 16) (JStr w))"

text \<open>
  One round of the loop on a source that is not at its end: the token that is pushed, if any,
  and the rest. \<open>prev\<close> is the token pushed last.
\<close>

fun lex_step :: "token option \<Rightarrow> jsstr \<Rightarrow> token option \<times> jsstr" where
  "lex_step prev [] = (None, [])"
| "lex_step prev (c # s) =
     (if c = 32 \<or> c = 9 \<or> c = 13 then (None, s)
      else case punct c of Some t \<Rightarrow> (Some (Tok t JUndef), s)
      | None \<Rightarrow>
     (case paired c of
        Some (d, two, one) \<Rightarrow>
          if s \<noteq> [] \<and> hd s = d then (Some (Tok two JUndef), tl s) else (Some (Tok one JUndef), s)
      | None \<Rightarrow>
      if c = 34 then
        (case scan_dq s of (raw, closed, rest) \<Rightarrow> (Some (Tok 14 (JStr (dq_value raw closed))), rest))
      else if c = 39 then
        (case scan_sq s of (l, rest) \<Rightarrow> (Some (Tok 14 (JStr l)), rest))
      else if c = 45 \<and> \<not> (\<not> (case prev of Some p \<Rightarrow> operand_end (tok_t p) | None \<Rightarrow> False)
                          \<and> next_is is_digit (c # s)) then
        (Some (Tok 21 JUndef), s)
      else if is_digit c \<or> c = 45 then
        (case scan_number (c # s) of (n, rest) \<Rightarrow> (Some (Tok 15 (JNum n)), rest))
      else if c = 36 \<and> next_is ident_start (c # s) then
        (Some (Tok 18 (JStr (c # takeWhile ident_part s))), dropWhile ident_part s)
      else if ident_start c then
        (Some (keyword_or_ident (takeWhile ident_part (c # s))), dropWhile ident_part (c # s))
      else if c = 64 \<and> next_is ident_start (c # s) then
        (Some (Tok 35 (JStr (takeWhile ident_part s))), dropWhile ident_part s)
      else (None, s)))"

declare lex_step.simps [simp del]

lemma scan_dq_length: "scan_dq s = (raw, closed, rest) \<Longrightarrow> length raw + length rest = length s"
  by (induction s arbitrary: raw closed rest rule: scan_dq.induct)
    (fastforce split: if_splits list.splits prod.splits)+

lemma scan_sq_length: "scan_sq s = (l, rest) \<Longrightarrow> length rest \<le> length s"
  by (induction s arbitrary: l rest rule: scan_sq.induct)
    (fastforce split: if_splits list.splits prod.splits)+

lemma scan_frac_length: "scan_frac s = (f, rest) \<Longrightarrow> length rest \<le> length s"
  by (auto simp: scan_frac_def split: list.splits if_splits intro: le_SucI order_trans[OF length_dropWhile_le])

lemma scan_exp_length: "scan_exp s = (x, rest) \<Longrightarrow> length rest \<le> length s"
  by (auto simp: scan_exp_def Let_def split: list.splits if_splits
      intro: le_SucI order_trans[OF length_dropWhile_le])

lemma scan_number_length:
  assumes "scan_number s = (n, rest)"
  shows "length rest \<le> length (dropWhile is_digit (if s \<noteq> [] \<and> hd s = 45 then tl s else s))"
    (is "_ \<le> length ?s1")
proof -
  obtain frac s2 where f: "scan_frac ?s1 = (frac, s2)" by fastforce
  obtain expo s3 where e: "scan_exp s2 = (expo, s3)" by fastforce
  have "rest = s3"
    using assms f e by (auto simp: scan_number_def Let_def split: option.splits if_splits)
  then show ?thesis
    using scan_frac_length[OF f] scan_exp_length[OF e] by simp
qed

lemma scan_number_digit:
  "is_digit c \<Longrightarrow> scan_number (c # s) = (n, rest) \<Longrightarrow> length rest \<le> length s"
  using scan_number_length[of "c # s" n rest] length_dropWhile_le[of is_digit s]
  by (auto simp: is_digit_def split: if_splits)

lemma scan_number_minus:
  "scan_number (45 # s) = (n, rest) \<Longrightarrow> length rest \<le> length s"
  using scan_number_length[of "45 # s" n rest] length_dropWhile_le[of is_digit s] by auto

lemma ident_start_part: "ident_start c \<Longrightarrow> ident_part c"
  by (auto simp: ident_start_def ident_part_def)

lemma lex_step_length: "s \<noteq> [] \<Longrightarrow> lex_step prev s = (t, rest) \<Longrightarrow> length rest < length s"
proof (cases s)
  case (Cons c r)
  assume "lex_step prev s = (t, rest)"
  then have "lex_step prev (c # r) = (t, rest)" using Cons by simp
  then have "length rest \<le> length r"
    by (simp add: lex_step.simps split: if_splits option.splits prod.splits)
      (auto dest: scan_dq_length scan_sq_length scan_number_digit scan_number_minus ident_start_part
        simp: length_dropWhile_le)
  then show ?thesis using Cons by simp
qed simp

function lex_from :: "token list \<Rightarrow> jsstr \<Rightarrow> token list" where
  "lex_from acc s =
     (if s = [] then rev (Tok 13 JUndef # acc)
      else case lex_step (case acc of [] \<Rightarrow> None | p # _ \<Rightarrow> Some p) s of
             (None, rest) \<Rightarrow> lex_from acc rest
           | (Some t, rest) \<Rightarrow> lex_from (t # acc) rest)"
  by pat_completeness auto
termination
  by (relation "measure (length \<circ> snd)") (auto dest: lex_step_length[OF _ sym])

declare lex_from.simps [simp del]

definition tokenize :: "jsstr \<Rightarrow> token list" where
  "tokenize e = lex_from [] e"

text \<open>Every round pushes at most one token and eats at least one code unit.\<close>

lemma lex_from_length: "length (lex_from acc s) \<le> length acc + length s + 1"
proof (induction acc s rule: lex_from.induct)
  case (1 acc s)
  show ?case
  proof (cases "s = []")
    case True
    then show ?thesis by (simp add: lex_from.simps)
  next
    case False
    obtain t rest where st: "lex_step (case acc of [] \<Rightarrow> None | p # _ \<Rightarrow> Some p) s = (t, rest)"
      by fastforce
    with False have "length rest < length s" by (rule lex_step_length)
    then show ?thesis
      using 1 False st by (cases t) (auto simp: lex_from.simps[of acc s])
  qed
qed

lemma tokenize_length: "length (tokenize e) \<le> length e + 1"
  using lex_from_length[of "[]" e] by (simp add: tokenize_def)

lemmas lex_eval [js_eval] =
  tokenize_def lex_from.simps lex_step.simps punct_def paired_def is_digit_def ident_start_def
  ident_part_def is_lower_def is_upper_def next_is_def second_def operand_end_def keyword_or_ident_def
  scan_number_def scan_frac_def scan_exp_def digits_val_def digit_val_def dq_value_def strip_quotes_def
  json_parse_str_def json_chars.simps escape_val_def cons_fst_def

lemma tokenize_example:
  "tokenize (lit ''root = Stack([$a.b, -2])'') =
     [Tok 16 (JStr (lit ''root'')), Tok 9 JUndef, Tok 17 (JStr (lit ''Stack'')), Tok 1 JUndef,
      Tok 3 JUndef, Tok 18 (JStr (lit ''$a'')), Tok 19 JUndef, Tok 16 (JStr (lit ''b'')), Tok 7 JUndef,
      Tok 15 (JNum (Fin True 2 0)), Tok 4 JUndef, Tok 2 JUndef, Tok 13 JUndef]"
  by (simp add: js_eval)

end
