(* ===== verification/Lang_Syntax.thy ===== *)
theory Lang_Syntax
  imports Lang_Tokens
begin

text \<open>
  The statement splitter and the expression parser of OpenUI's \<open>lang-core\<close>, read from the
  bundle \<open>web/artifact.js\<close> (\<open>K3\<close> and \<open>G3\<close>, which the bundled \<open>preflightView\<close> calls where
  \<open>preflight.mjs\<close> says \<open>split\<close> and \<open>parseExpression\<close>). The parser's position is the list of
  tokens that are left; reading past the end gives the end-of-file token, code 13.
\<close>

section \<open>Syntax trees\<close>

datatype node =
    Comp jsstr "node list" bool            \<comment> \<open>\<open>name\<close>, \<open>args\<close>, \<open>fn\<close>\<close>
  | Str jsstr
  | Num jsnum
  | Bool bool
  | Null
  | Arr "node list"
  | Obj "(jsstr \<times> node) list"
  | Ref jsstr
  | Ph jsstr
  | StateRef jsstr
  | RuntimeRef jsstr jsstr
  | BinOp jsstr node node
  | UnaryOp jsstr node
  | Ternary node node node
  | Member node jsstr
  | Index node node
  | Assign jsstr node

datatype statement = Statement (st_id: jsstr) (st_type: nat) (st_tokens: "token list")

section \<open>Statements\<close>

definition head_code :: "token list \<Rightarrow> nat" where   \<comment> \<open>the \<open>t\<close> of the current token\<close>
  "head_code ts = (case ts of [] \<Rightarrow> 13 | x # _ \<Rightarrow> tok_t x)"

definition head_value :: "token list \<Rightarrow> jsv" where
  "head_value ts = (case ts of [] \<Rightarrow> JUndef | x # _ \<Rightarrow> tok_v x)"

definition skip_newlines :: "token list \<Rightarrow> token list" where
  "skip_newlines ts = dropWhile (\<lambda>x. tok_t x = 0) ts"

definition skip_line :: "token list \<Rightarrow> token list" where
  "skip_line ts = dropWhile (\<lambda>x. tok_t x \<noteq> 0 \<and> tok_t x \<noteq> 13) ts"

text \<open>
  The tokens of one statement and the rest, with \<open>l\<close> open brackets and \<open>c\<close> open
  conditionals: a newline ends the statement unless something is open or a question mark
  continues it on the next line.
\<close>

definition next_open :: "nat \<Rightarrow> nat \<Rightarrow> nat \<Rightarrow> nat \<times> nat" where
  "next_open l c t =
     (if t \<in> {1, 3, 5} then (l + 1, c)
      else if t \<in> {2, 4, 6} \<and> 0 < l then (l - 1, c)
      else if t = 34 \<and> l = 0 then (l, c + 1)
      else if t = 8 \<and> l = 0 \<and> 0 < c then (l, c - 1)
      else (l, c))"

fun take_statement :: "nat \<times> nat \<Rightarrow> token list \<Rightarrow> token list \<times> token list" where
  "take_statement (l, c) [] = ([], [])"
| "take_statement (l, c) (x # xs) =
     (if tok_t x = 13 then ([], x # xs)
      else if tok_t x = 0 then
        (if l = 0 \<and> c = 0 \<and> head_code (skip_newlines xs) \<noteq> 34 then ([], x # xs)
         else take_statement (l, c) xs)
      else apfst ((#) x) (take_statement (next_open l c (tok_t x)) xs))"

lemma take_statement_length: "length (snd (take_statement lc ts)) \<le> length ts"
  by (induction lc ts rule: take_statement.induct) auto

lemma skip_newlines_length: "skip_newlines ts = a # r \<Longrightarrow> length r < length ts \<and> tok_t a \<noteq> 0"
  using length_dropWhile_le[of "\<lambda>x. tok_t x = 0" ts] hd_dropWhile[of "\<lambda>x. tok_t x = 0" ts]
  by (auto simp: skip_newlines_def)

lemma skip_line_length: "length (skip_line ts) \<le> length ts"
  by (simp add: skip_line_def length_dropWhile_le)

function split_statements :: "token list \<Rightarrow> statement list" where
  "split_statements ts =
     (case skip_newlines ts of
        [] \<Rightarrow> []
      | a # r \<Rightarrow>
          if tok_t a = 13 then []
          else if tok_t a \<notin> {16, 17, 18} then split_statements (skip_line (a # r))
          else if r = [] \<or> tok_t (hd r) \<noteq> 9 then split_statements (skip_line r)
          else (if fst (take_statement (0, 0) (tl r)) \<noteq> []
                then [Statement (to_str (tok_v a)) (tok_t a) (fst (take_statement (0, 0) (tl r)))] else [])
            @ split_statements (snd (take_statement (0, 0) (tl r))))"
  by pat_completeness auto

termination
proof (relation "measure length", goal_cases)
  case (2 ts a r)
  then show ?case
    using skip_newlines_length[of ts a r] skip_line_length[of r] by (auto simp: skip_line_def)
next
  case (3 ts a r)
  then show ?case using skip_newlines_length[of ts a r] skip_line_length[of r] by simp
next
  case (4 ts a r)
  then show ?case
    using skip_newlines_length[of ts a r] take_statement_length[of "(0, 0)" "tl r"] by simp linarith
qed simp

declare split_statements.simps [simp del, js_eval]

section \<open>Expressions\<close>

definition prec :: "nat \<Rightarrow> nat" where
  "prec t =
     (if t = 34 then 1 else if t = 32 then 2 else if t = 31 then 3
      else if t \<in> {25, 26} then 4 else if t \<in> {27, 28, 29, 30} then 5
      else if t \<in> {20, 21} then 6 else if t \<in> {22, 23, 24} then 7
      else if t \<in> {19, 3} then 9 else 0)"

definition binary_op :: "nat \<Rightarrow> (jsstr \<times> nat) option" where
  "binary_op t = map_of
     [(20, lit ''+'', 6), (21, lit ''-'', 6), (22, lit ''*'', 7), (23, lit ''/'', 7), (24, lit ''%'', 7),
      (25, lit ''=='', 4), (26, lit ''!='', 4), (27, lit ''>'', 5), (28, lit ''<'', 5), (29, lit ''>='', 5),
      (30, lit ''<='', 5), (31, lit ''&&'', 3), (32, lit ''||'', 2)] t"

definition builtin_names :: "jsstr list" where
  "builtin_names = map lit
     [''Count'', ''First'', ''Last'', ''Sum'', ''Avg'', ''Min'', ''Max'', ''Sort'', ''Filter'', ''Round'',
      ''Abs'', ''Floor'', ''Ceil'', ''Each'', ''Run'', ''ToAssistant'', ''OpenUrl'', ''Set'', ''Reset'', ''Action'']"

definition is_builtin :: "jsstr \<Rightarrow> bool" where
  "is_builtin w \<longleftrightarrow> w \<in> set builtin_names"

definition drop_dollar :: "jsstr \<Rightarrow> jsstr" where   \<comment> \<open>\<open>.replace(/^\$/, "")\<close>\<close>
  "drop_dollar s = (if s \<noteq> [] \<and> hd s = 36 then tl s else s)"

definition expect :: "nat \<Rightarrow> token list \<Rightarrow> token list" where
  "expect m ts = (if head_code ts = m then tl ts else ts)"

text \<open>The name after a point or before a colon; it takes one token whatever that is.\<close>

definition field_name :: "token list \<Rightarrow> jsstr" where
  "field_name ts =
     (if head_code ts \<in> {16, 17, 14, 15} then to_str (head_value ts)
      else if head_code ts = 18 then drop_dollar (to_str (head_value ts))
      else [63])"

text \<open>
  \<open>parse_expr k m\<close> is the bundle's \<open>i(m)\<close>. Its parts \<open>l\<close>, \<open>c\<close>, \<open>u\<close>, \<open>d\<close> and \<open>f\<close>
  take it as the parameter \<open>pe\<close>. The fuel \<open>k\<close> bounds the nesting and the fuel \<open>n\<close> of a loop its
  rounds; \<open>None\<close> is out of fuel, and \<open>parse_expression_returns\<close> shows that it never happens.
\<close>

type_synonym expr_parser = "nat \<Rightarrow> token list \<Rightarrow> (node \<times> token list) option"

fun parse_items :: "expr_parser \<Rightarrow> nat \<Rightarrow> nat \<Rightarrow> token list \<Rightarrow> (node list \<times> token list) option" where
  "parse_items pe 0 close ts = None"
| "parse_items pe (Suc n) close ts =
     (if head_code ts = close \<or> head_code ts = 13 then Some ([], ts)
      else case pe 0 ts of None \<Rightarrow> None
        | Some (x, r) \<Rightarrow> map_option (\<lambda>(xs, r'). (x # xs, r')) (parse_items pe n close (expect 7 r)))"

fun parse_entries :: "expr_parser \<Rightarrow> nat \<Rightarrow> token list \<Rightarrow> ((jsstr \<times> node) list \<times> token list) option" where
  "parse_entries pe 0 ts = None"
| "parse_entries pe (Suc n) ts =
     (if head_code ts = 6 \<or> head_code ts = 13 then Some ([], ts)
      else case pe 0 (expect 8 (tl ts)) of None \<Rightarrow> None
        | Some (x, r) \<Rightarrow>
            map_option (\<lambda>(xs, r'). ((field_name ts, x) # xs, r')) (parse_entries pe n (expect 7 r)))"

definition parse_call :: "expr_parser \<Rightarrow> token list \<Rightarrow> (node \<times> token list) option" where
  "parse_call pe ts =
     map_option (\<lambda>(args, r). (Comp (to_str (head_value ts)) args False, expect 2 r))
       (parse_items pe (Suc (length ts)) 2 (expect 1 (tl ts)))"

definition mark_fn :: "node \<Rightarrow> node" where
  "mark_fn h = (case h of Comp name args fn \<Rightarrow> Comp name args (fn \<or> \<not> is_builtin name) | _ \<Rightarrow> h)"

definition parse_prefix :: "expr_parser \<Rightarrow> token list \<Rightarrow> (node \<times> token list) option" where
  "parse_prefix pe ts =
     (if head_code ts = 14 then Some (Str (to_str (head_value ts)), tl ts)
      else if head_code ts = 15 then
        Some (Num (case head_value ts of JNum n \<Rightarrow> n | _ \<Rightarrow> NaN), tl ts)
      else if head_code ts = 10 then Some (Bool True, tl ts)
      else if head_code ts = 11 then Some (Bool False, tl ts)
      else if head_code ts = 12 then Some (Null, tl ts)
      else if head_code ts = 3 then
        map_option (\<lambda>(els, r). (Arr els, expect 4 r)) (parse_items pe (Suc (length ts)) 4 (tl ts))
      else if head_code ts = 5 then
        map_option (\<lambda>(es, r). (Obj es, expect 6 r)) (parse_entries pe (Suc (length ts)) (tl ts))
      else if head_code ts = 18 then
        (if head_code (tl ts) = 9
         then map_option (\<lambda>(v, r). (Assign (to_str (head_value ts)) v, r)) (pe 0 (tl (tl ts)))
         else Some (StateRef (to_str (head_value ts)), tl ts))
      else if head_code ts = 17 then
        (if head_code (tl ts) = 1 \<and>
             (\<not> is_builtin (to_str (head_value ts)) \<or> to_str (head_value ts) = lit ''Action'')
         then parse_call pe ts else Some (Ref (to_str (head_value ts)), tl ts))
      else if head_code ts = 35 then
        (if head_code (tl ts) = 1
         then map_option (\<lambda>(h, r). (mark_fn h, r)) (parse_call pe ts)
         else Some (Ref (to_str (head_value ts)), tl ts))
      else if head_code ts = 16 then Some (Ref (to_str (head_value ts)), tl ts)
      else if head_code ts = 33 then
        map_option (\<lambda>(v, r). (UnaryOp (lit ''!'') v, r)) (pe 8 (tl ts))
      else if head_code ts = 21 then
        map_option (\<lambda>(v, r). (UnaryOp (lit ''-'') v, r)) (pe 8 (tl ts))
      else if head_code ts = 1 then
        map_option (\<lambda>(v, r). (v, expect 2 r)) (pe 0 (tl ts))
      else Some (Null, tl ts))"

definition parse_infix :: "expr_parser \<Rightarrow> node \<Rightarrow> token list \<Rightarrow> (node \<times> token list) option" where
  "parse_infix pe m ts =
     (case binary_op (head_code ts) of
        Some (op, p) \<Rightarrow> map_option (\<lambda>(v, r). (BinOp op m v, r)) (pe p (tl ts))
      | None \<Rightarrow>
          if head_code ts = 34 then
            (case pe 0 (tl ts) of None \<Rightarrow> None
             | Some (b, r) \<Rightarrow> map_option (\<lambda>(c, r'). (Ternary m b c, r')) (pe 0 (expect 8 r)))
          else if head_code ts = 19 then Some (Member m (field_name (tl ts)), tl (tl ts))
          else if head_code ts = 3 then
            map_option (\<lambda>(b, r). (Index m b, expect 4 r)) (pe 0 (tl ts))
          else Some (m, ts))"

fun parse_loop :: "expr_parser \<Rightarrow> nat \<Rightarrow> nat \<Rightarrow> node \<Rightarrow> token list \<Rightarrow> (node \<times> token list) option" where
  "parse_loop pe 0 m h ts = None"
| "parse_loop pe (Suc n) m h ts =
     (if m < prec (head_code ts)
      then (case parse_infix pe h ts of None \<Rightarrow> None | Some (h', r) \<Rightarrow> parse_loop pe n m h' r)
      else Some (h, ts))"

primrec parse_expr :: "nat \<Rightarrow> expr_parser" where
  "parse_expr 0 = (\<lambda>m ts. None)"
| "parse_expr (Suc k) = (\<lambda>m ts.
     (case parse_prefix (parse_expr k) ts of None \<Rightarrow> None
      | Some (h, r) \<Rightarrow> parse_loop (parse_expr k) (Suc (length ts)) m h r))"

text \<open>The fuel suffices by \<open>parse_expression_returns\<close>, so \<open>Null\<close> never stands for running out of it.\<close>

definition parse_expression :: "token list \<Rightarrow> node" where
  "parse_expression ts =
     (case parse_expr (Suc (length ts)) 0 ts of Some (n, _) \<Rightarrow> n | None \<Rightarrow> Null)"

section \<open>The parser always returns\<close>

text \<open>A parser is good up to \<open>k\<close> when it returns on shorter lists and eats a token of a non-empty one.\<close>

definition good_parser :: "nat \<Rightarrow> expr_parser \<Rightarrow> bool" where
  "good_parser k pe \<longleftrightarrow> (\<forall>m ts. length ts < k \<longrightarrow>
     (\<exists>x r. pe m ts = Some (x, r) \<and> length r \<le> length ts \<and> (ts \<noteq> [] \<longrightarrow> length r < length ts)))"

lemma good_parserE:
  assumes "good_parser k pe" and "length ts < k"
  obtains x r where "pe m ts = Some (x, r)" and "length r \<le> length ts" and "ts \<noteq> [] \<Longrightarrow> length r < length ts"
  using assms unfolding good_parser_def by blast

lemma expect_length: "length (expect m ts) \<le> length ts"
  by (simp add: expect_def)

lemma head_code_Nil [simp]: "head_code [] = 13"
  by (simp add: head_code_def)

lemma head_code_nonempty: "head_code ts \<noteq> 13 \<Longrightarrow> ts \<noteq> []"
  by auto

lemma parse_items_total:
  "good_parser k pe \<Longrightarrow> length ts < k \<Longrightarrow> length ts < n \<Longrightarrow>
     \<exists>xs r. parse_items pe n close ts = Some (xs, r) \<and> length r \<le> length ts"
proof (induction n arbitrary: ts)
  case (Suc n)
  show ?case
  proof (cases "head_code ts = close \<or> head_code ts = 13")
    case False
    then have "ts \<noteq> []" by auto
    obtain x r where x: "pe 0 ts = Some (x, r)" and r: "length r < length ts"
      using good_parserE[OF Suc.prems(1,2)] \<open>ts \<noteq> []\<close> by metis
    have "\<exists>xs r'. parse_items pe n close (expect 7 r) = Some (xs, r') \<and> length r' \<le> length (expect 7 r)"
      using Suc r expect_length[of 7 r] by simp
    then show ?thesis using x r False expect_length[of 7 r] by auto
  qed auto
qed simp

lemma parse_entries_total:
  "good_parser k pe \<Longrightarrow> length ts < k \<Longrightarrow> length ts < n \<Longrightarrow>
     \<exists>xs r. parse_entries pe n ts = Some (xs, r) \<and> length r \<le> length ts"
proof (induction n arbitrary: ts)
  case (Suc n)
  show ?case
  proof (cases "head_code ts = 6 \<or> head_code ts = 13")
    case False
    then have "ts \<noteq> []" by auto
    then have e: "length (expect 8 (tl ts)) < length ts"
      using expect_length[of 8 "tl ts"] by (cases ts) auto
    then have "length (expect 8 (tl ts)) < k" using Suc.prems(2) by linarith
    then obtain x r where x: "pe 0 (expect 8 (tl ts)) = Some (x, r)"
      and "length r \<le> length (expect 8 (tl ts))"
      by (rule good_parserE[OF Suc.prems(1)])
    then have r: "length r < length ts" using e by linarith
    have "\<exists>xs r'. parse_entries pe n (expect 7 r) = Some (xs, r') \<and> length r' \<le> length (expect 7 r)"
      using Suc r expect_length[of 7 r] by simp
    then show ?thesis using x r False expect_length[of 7 r] by auto
  qed auto
qed simp

lemma parse_call_total:
  assumes "good_parser k pe" and "length ts \<le> k" and "ts \<noteq> []"
  shows "\<exists>x r. parse_call pe ts = Some (x, r) \<and> length r < length ts"
proof -
  have e: "length (expect 1 (tl ts)) < length ts"
    using expect_length[of 1 "tl ts"] assms(3) by (cases ts) auto
  then obtain xs r where "parse_items pe (Suc (length ts)) 2 (expect 1 (tl ts)) = Some (xs, r)"
    and "length r \<le> length (expect 1 (tl ts))"
    using parse_items_total[OF assms(1), of "expect 1 (tl ts)" "Suc (length ts)" 2] assms(2) by auto
  then show ?thesis using e expect_length[of 2 r] by (auto simp: parse_call_def)
qed

text \<open>A result that ate at least one token of \<open>ts\<close>.\<close>

definition shrinks :: "token list \<Rightarrow> ('x \<times> token list) option \<Rightarrow> bool" where
  "shrinks ts res \<longleftrightarrow> (\<exists>x r. res = Some (x, r) \<and> length r < length ts)"

lemma shrinks_map:
  "shrinks ts res \<Longrightarrow> (\<And>x r. length (snd (f (x, r))) \<le> length r) \<Longrightarrow> shrinks ts (map_option f res)"
  unfolding shrinks_def by (metis le_less_trans option.map(2) prod.collapse)

lemma shrinks_Some [simp]: "shrinks ts (Some (x, r)) \<longleftrightarrow> length r < length ts"
  by (simp add: shrinks_def)

lemma good_parser_shrinks:
  assumes "good_parser k pe" and "length ts' < k" and "length ts' < length ts"
  shows "shrinks ts (pe m ts')"
  using good_parserE[OF assms(1,2), of m] assms(3) unfolding shrinks_def
  by (metis order_le_less_trans)

lemma parse_call_shrinks:
  "good_parser k pe \<Longrightarrow> length ts \<le> k \<Longrightarrow> ts \<noteq> [] \<Longrightarrow> shrinks ts (parse_call pe ts)"
  using parse_call_total unfolding shrinks_def by blast

lemma parse_prefix_shrinks:
  assumes "good_parser k pe" and "length ts \<le> k" and "ts \<noteq> []"
  shows "shrinks ts (parse_prefix pe ts)"
proof -
  have t: "length (tl ts) < k" "length (tl ts) < length ts" "length (tl (tl ts)) < k"
      "length (tl (tl ts)) < length ts" "length (tl ts) < Suc (length ts)"
    using assms(2,3) by (cases ts; simp)+
  have pe: "shrinks ts (pe m (tl ts))" "shrinks ts (pe m (tl (tl ts)))" for m
    using good_parser_shrinks[OF assms(1) t(1,2)] good_parser_shrinks[OF assms(1) t(3,4)] .
  have it: "shrinks ts (parse_items pe (Suc (length ts)) 4 (tl ts))"
      "shrinks ts (parse_entries pe (Suc (length ts)) (tl ts))"
    using parse_items_total[OF assms(1) t(1) t(5), of 4] parse_entries_total[OF assms(1) t(1) t(5)] t(2)
    unfolding shrinks_def by (metis order_le_less_trans)+
  show ?thesis
    unfolding parse_prefix_def using pe it parse_call_shrinks[OF assms] t
    by (auto intro!: shrinks_map simp: expect_length simp del: parse_items.simps parse_entries.simps)
qed

lemma prec_end: "prec 13 = 0"
  by (simp add: prec_def)

lemma prec_postfix:
  "binary_op t = None \<Longrightarrow> 0 < prec t \<Longrightarrow> t = 34 \<or> t = 19 \<or> t = 3"
  by (auto simp: binary_op_def prec_def split: if_splits)

lemma parse_infix_shrinks:
  assumes "good_parser k pe" and "length ts \<le> k" and "prec (head_code ts) > 0"
  shows "shrinks ts (parse_infix pe h ts)"
proof -
  have ne: "ts \<noteq> []" using assms(3) by (auto simp: prec_end)
  then have t: "length (tl ts) < k" "length (tl ts) < length ts" "length (tl (tl ts)) < length ts"
    using assms(2) by (cases ts; simp)+
  have pe: "shrinks ts (pe m (tl ts))" for m
    by (rule good_parser_shrinks[OF assms(1) t(1,2)])
  have pe2: "shrinks ts (pe 0 (expect 8 r))" if "length r < length ts" for r
    using good_parser_shrinks[OF assms(1), of "expect 8 r" ts] expect_length[of 8 r] that assms(2) by simp
  have ternary: "shrinks ts (case pe 0 (tl ts) of None \<Rightarrow> None
      | Some (b, r) \<Rightarrow> map_option (\<lambda>(c, r'). (Ternary h b c, r')) (pe 0 (expect 8 r)))"
    using pe[of 0] pe2 unfolding shrinks_def by force
  show ?thesis
  proof (cases "binary_op (head_code ts)")
    case None
    then have "head_code ts = 34 \<or> head_code ts = 19 \<or> head_code ts = 3"
      using assms(3) by (rule prec_postfix)
    then show ?thesis
      using None pe[of 0] t ternary
      by (elim disjE) (auto intro!: shrinks_map simp: parse_infix_def expect_length)
  next
    case (Some opp)
    then show ?thesis
      using pe[of "snd opp"] by (cases opp) (auto intro!: shrinks_map simp: parse_infix_def)
  qed
qed

lemma parse_loop_total:
  "good_parser k pe \<Longrightarrow> length ts \<le> k \<Longrightarrow> length ts < n \<Longrightarrow>
     \<exists>x r. parse_loop pe n m h ts = Some (x, r) \<and> length r \<le> length ts"
proof (induction n arbitrary: h ts)
  case (Suc n)
  show ?case
  proof (cases "m < prec (head_code ts)")
    case True
    then obtain h' r where "parse_infix pe h ts = Some (h', r)" and "length r < length ts"
      using parse_infix_shrinks[OF Suc.prems(1,2), of h] unfolding shrinks_def by auto
    then show ?thesis using Suc.IH[OF Suc.prems(1), of r h'] Suc.prems True by fastforce
  qed simp
qed simp

lemma parse_expr_good: "good_parser k (parse_expr k)"
proof (induction k)
  case 0
  then show ?case by (simp add: good_parser_def)
next
  case (Suc k)
  have "\<exists>x r. parse_expr (Suc k) m ts = Some (x, r) \<and> length r \<le> length ts \<and> (ts \<noteq> [] \<longrightarrow> length r < length ts)"
    if len: "length ts < Suc k" for m ts
  proof (cases "ts = []")
    case True
    then have "parse_prefix (parse_expr k) ts = Some (Null, [])" by (simp add: parse_prefix_def)
    then show ?thesis using True by (simp add: prec_end)
  next
    case False
    then obtain h r where h: "parse_prefix (parse_expr k) ts = Some (h, r)" and r: "length r < length ts"
      using parse_prefix_shrinks[OF Suc, of ts] len unfolding shrinks_def by auto
    then obtain x r' where "parse_loop (parse_expr k) (Suc (length ts)) m h r = Some (x, r')"
      and "length r' \<le> length r"
      using parse_loop_total[OF Suc, of r "Suc (length ts)" m h] len by fastforce
    then show ?thesis using h r by (simp del: parse_loop.simps)
  qed
  then show ?case unfolding good_parser_def by blast
qed

lemma parse_expression_returns:
  "\<exists>r. parse_expr (Suc (length ts)) 0 ts = Some (parse_expression ts, r) \<and> length r \<le> length ts"
  using good_parserE[OF parse_expr_good[of "Suc (length ts)"], of ts 0]
  by (metis (no_types, lifting) case_prod_conv lessI option.case(2) parse_expression_def)

section \<open>Evaluation\<close>

text \<open>The parser on a list that begins with a known token, one equation for each.\<close>

declare parse_expr.simps [simp del]

lemma parse_expr_applied [js_eval]:
  "parse_expr (Suc k) m ts =
     (case parse_prefix (parse_expr k) ts of None \<Rightarrow> None
      | Some (h, r) \<Rightarrow> parse_loop (parse_expr k) (Suc (length ts)) m h r)"
  by (simp add: parse_expr.simps)

lemma head_simps [js_eval]:
  "head_code (Tok c v # ts) = c" "head_value (Tok c v # ts) = v"
  by (simp_all add: head_code_def head_value_def)

lemma parse_prefix_tokens [js_eval]:
  "parse_prefix pe (Tok 14 v # ts) = Some (Str (to_str v), ts)"
  "parse_prefix pe (Tok 15 (JNum n) # ts) = Some (Num n, ts)"
  "parse_prefix pe (Tok 10 v # ts) = Some (Bool True, ts)"
  "parse_prefix pe (Tok 11 v # ts) = Some (Bool False, ts)"
  "parse_prefix pe (Tok 12 v # ts) = Some (Null, ts)"
  "parse_prefix pe (Tok 3 v # ts) =
     map_option (\<lambda>(els, r). (Arr els, expect 4 r)) (parse_items pe (Suc (Suc (length ts))) 4 ts)"
  "parse_prefix pe (Tok 5 v # ts) =
     map_option (\<lambda>(es, r). (Obj es, expect 6 r)) (parse_entries pe (Suc (Suc (length ts))) ts)"
  "parse_prefix pe (Tok 18 v # ts) =
     (if head_code ts = 9 then map_option (\<lambda>(x, r). (Assign (to_str v) x, r)) (pe 0 (tl ts))
      else Some (StateRef (to_str v), ts))"
  "parse_prefix pe (Tok 17 v # ts) =
     (if head_code ts = 1 \<and> (\<not> is_builtin (to_str v) \<or> to_str v = lit ''Action'')
      then parse_call pe (Tok 17 v # ts) else Some (Ref (to_str v), ts))"
  "parse_prefix pe (Tok 16 v # ts) = Some (Ref (to_str v), ts)"
  "parse_prefix pe (Tok 21 v # ts) = map_option (\<lambda>(x, r). (UnaryOp (lit ''-'') x, r)) (pe 8 ts)"
  by (auto simp: parse_prefix_def head_simps)

lemma parse_loop_stop [js_eval]: "prec (head_code ts) = 0 \<Longrightarrow> parse_loop pe (Suc n) m h ts = Some (h, ts)"
  by simp

lemmas syntax_eval [js_eval] =
  skip_newlines_def skip_line_def next_open_def prec_def binary_op_def
  builtin_names_def is_builtin_def drop_dollar_def expect_def field_name_def parse_call_def mark_fn_def
  parse_infix_def parse_expression_def

end
