(* ===== verification/Preflight_Layout.thy ===== *)
theory Preflight_Layout
  imports Preflight_Data Lang_Syntax
begin

text \<open>
  \<open>preflight.mjs\<close>, the checks of the view source that come before any recursive walk of a
  syntax tree: the loop over the tokens (brackets and operators), the map of definitions, the
  list of a node's children with the checks of \<open>children\<close>, and the iterative depth check.
\<close>

section \<open>The token loop\<close>

text \<open>\<open>closing\<close>: the code of the opening bracket that a closing bracket's code needs.\<close>

definition closing :: "nat \<Rightarrow> nat option" where
  "closing t = map_of [(2, 1), (4, 3), (6, 5)] t"

fun scan_tokens :: "nat list \<Rightarrow> token list \<Rightarrow> jserr + nat list" where
  "scan_tokens brackets [] = Inr brackets"
| "scan_tokens brackets (x # xs) =
     (if tok_t x \<in> {1, 3, 5} then
        (if length (tok_t x # brackets) > lim_depth limits then fail
         else scan_tokens (tok_t x # brackets) xs)
      else case closing (tok_t x) of
        Some b \<Rightarrow>
          (case brackets of [] \<Rightarrow> fail
           | popped # rest \<Rightarrow> if popped \<noteq> b then fail else scan_tokens rest xs)
      | None \<Rightarrow>
          if tok_t x > 19 \<and> \<not> (tok_t x = 21 \<and> xs \<noteq> [] \<and> tok_t (hd xs) = 15) then fail
          else scan_tokens brackets xs)"

definition check_tokens :: "token list \<Rightarrow> jserr + unit" where
  "check_tokens tokens =
     (if length tokens > lim_tokens limits then fail
      else case scan_tokens [] tokens of Inl e \<Rightarrow> Inl e
        | Inr brackets \<Rightarrow> if brackets \<noteq> [] then fail else Inr ())"

text \<open>What the loop accepts: well-nested brackets of bounded depth, and no operator token.\<close>

definition opens :: "nat \<Rightarrow> bool" where
  "opens t \<longleftrightarrow> t \<in> {1, 3, 5}"

definition plain_code :: "nat \<Rightarrow> bool" where
  "plain_code t \<longleftrightarrow> \<not> opens t \<and> closing t = None"

inductive nested :: "nat \<Rightarrow> nat list \<Rightarrow> bool" where
  nested_end: "nested d []"
| nested_plain: "plain_code t \<Longrightarrow> nested d ts \<Longrightarrow> nested d (t # ts)"
| nested_bracket: "closing c = Some b \<Longrightarrow> nested d us \<Longrightarrow> nested (Suc d) vs \<Longrightarrow>
     nested (Suc d) (b # us @ c # vs)"

fun operators_ok :: "token list \<Rightarrow> bool" where
  "operators_ok [] = True"
| "operators_ok (x # xs) =
     ((tok_t x \<le> 19 \<or> tok_t x = 21 \<and> xs \<noteq> [] \<and> tok_t (hd xs) = 15) \<and> operators_ok xs)"

lemma closing_opens: "closing c = Some b \<Longrightarrow> opens b \<and> \<not> opens c \<and> c < 7"
  by (auto simp: closing_def opens_def split: if_splits)

lemma opens_closing: "opens b \<Longrightarrow> closing b = None \<and> b < 7"
  by (auto simp: closing_def opens_def)

lemma closing_iff: "closing c = Some b \<longleftrightarrow> (c, b) \<in> {(2, 1), (4, 3), (6, 5)}"
  by (auto simp: closing_def split: if_splits)

text \<open>\<open>closes bs ts\<close>: \<open>ts\<close> closes the brackets \<open>bs\<close>, innermost first, and is well nested between them.\<close>

fun closes :: "nat list \<Rightarrow> nat list \<Rightarrow> bool" where
  "closes [] ts = nested 32 ts"
| "closes (b # bs) ts = (\<exists>us c vs. ts = us @ c # vs \<and> closing c = Some b \<and>
     nested (32 - length (b # bs)) us \<and> closes bs vs)"

lemma closes_plain: "plain_code t \<Longrightarrow> closes bs ts \<Longrightarrow> closes bs (t # ts)"
proof (cases bs)
  case (Cons b bs')
  assume t: "plain_code t" and "closes bs ts"
  then obtain us c vs where "ts = us @ c # vs" "closing c = Some b" "nested (32 - length bs) us" "closes bs' vs"
    using Cons by auto
  then have "t # ts = (t # us) @ c # vs" "nested (32 - length bs) (t # us)"
    using t by (auto intro: nested_plain)
  then show ?thesis using Cons \<open>closing c = Some b\<close> \<open>closes bs' vs\<close> by (metis closes.simps(2))
qed (auto intro: nested_plain)

lemma closes_open:
  assumes "length (b # bs) \<le> 32" and "closes (b # bs) ts"
  shows "closes bs (b # ts)"
proof -
  obtain us c vs where ts: "ts = us @ c # vs" "closing c = Some b"
    and us: "nested (32 - length (b # bs)) us" and vs: "closes bs vs"
    using assms(2) by auto
  have d: "32 - length bs = Suc (32 - length (b # bs))" using assms(1) by simp
  show ?thesis
  proof (cases bs)
    case Nil
    then have "nested (Suc 31) (b # us @ c # vs)"
      using us vs ts by (intro nested_bracket) auto
    then show ?thesis using Nil ts by simp
  next
    case (Cons b' bs')
    then obtain us' c' vs' where v: "vs = us' @ c' # vs'" "closing c' = Some b'"
      "nested (32 - length bs) us'" "closes bs' vs'"
      using vs by auto
    have "nested (32 - length bs) (b # us @ c # us')"
      unfolding d using ts(2) us v(3)[unfolded d] by (rule nested_bracket)
    moreover have "b # ts = (b # us @ c # us') @ c' # vs'" using ts v by simp
    ultimately show ?thesis using Cons v by (metis closes.simps(2))
  qed
qed

lemma scan_tokens_sound:
  "scan_tokens bs ts = Inr [] \<Longrightarrow> length bs \<le> 32 \<Longrightarrow> closes bs (map tok_t ts) \<and> operators_ok ts"
proof (induction bs ts rule: scan_tokens.induct)
  case (1 brackets)
  then show ?case by (simp add: nested_end)
next
  case (2 brackets x xs)
  consider (op) "opens (tok_t x)" | (cl) b where "closing (tok_t x) = Some b" | (pl) "plain_code (tok_t x)"
    by (cases "closing (tok_t x)") (auto simp: plain_code_def)
  then show ?case
  proof cases
    case op
    then have o: "tok_t x \<in> {1, 3, 5}" by (simp add: opens_def)
    then have len: "length (tok_t x # brackets) \<le> 32" and s: "scan_tokens (tok_t x # brackets) xs = Inr []"
      using 2(4) by (auto simp: fail_def split: if_splits)
    then have "closes (tok_t x # brackets) (map tok_t xs) \<and> operators_ok xs"
      using 2(1)[OF o] by simp
    then show ?thesis using len op opens_closing[of "tok_t x"] closes_open by auto
  next
    case (cl b)
    then have no: "tok_t x \<notin> {1, 3, 5}" using closing_opens[of "tok_t x" b] by (simp add: opens_def)
    with cl 2(4) obtain rest where r: "brackets = b # rest" "scan_tokens rest xs = Inr []"
      by (auto simp: fail_def split: list.splits if_splits)
    then have "closes rest (map tok_t xs) \<and> operators_ok xs"
      using 2(3)[OF no cl r(1)] 2(5) by simp
    then show ?thesis
      using cl r closing_opens[of "tok_t x" b] by (auto intro!: exI[of _ "[]"] nested_end)
  next
    case pl
    then have no: "tok_t x \<notin> {1, 3, 5}" "closing (tok_t x) = None"
      by (auto simp: plain_code_def opens_def)
    then have op: "\<not> (tok_t x > 19 \<and> \<not> (tok_t x = 21 \<and> xs \<noteq> [] \<and> tok_t (hd xs) = 15))"
      and s: "scan_tokens brackets xs = Inr []"
      using 2(4) by (auto simp: fail_def split: if_splits)
    then have "closes brackets (map tok_t xs) \<and> operators_ok xs"
      using 2(2)[OF no op] 2(5) by simp
    then show ?thesis using pl op closes_plain by auto
  qed
qed

lemma operators_ok_append: "operators_ok (xs @ ys) \<Longrightarrow> operators_ok ys"
  by (induction xs) auto

lemma scan_tokens_plain:
  "tok_t x \<notin> {1, 3, 5} \<Longrightarrow> closing (tok_t x) = None \<Longrightarrow>
     tok_t x \<le> 19 \<or> tok_t x = 21 \<and> xs \<noteq> [] \<and> tok_t (hd xs) = 15 \<Longrightarrow>
     scan_tokens bs (x # xs) = scan_tokens bs xs"
  by auto

lemma scan_tokens_nested:
  "nested d ts \<Longrightarrow> map tok_t xs = ts \<Longrightarrow> operators_ok (xs @ ys) \<Longrightarrow> d + length bs \<le> 32 \<Longrightarrow>
     scan_tokens bs (xs @ ys) = scan_tokens bs ys"
proof (induction d ts arbitrary: xs ys bs rule: nested.induct)
  case (nested_end d)
  then show ?case by simp
next
  case (nested_plain t d ts)
  then obtain x xs' where x: "xs = x # xs'" "tok_t x = t" "map tok_t xs' = ts" by auto
  then have op: "tok_t x \<le> 19 \<or> tok_t x = 21 \<and> xs' @ ys \<noteq> [] \<and> tok_t (hd (xs' @ ys)) = 15"
    and ops: "operators_ok (xs' @ ys)"
    using nested_plain.prems(2) by simp_all
  have "scan_tokens bs (xs' @ ys) = scan_tokens bs ys"
    using nested_plain.IH[OF x(3) ops nested_plain.prems(3)] .
  moreover have "tok_t x \<notin> {1, 3, 5}" "closing (tok_t x) = None"
    using nested_plain.hyps(1) x(2) by (simp_all add: plain_code_def opens_def)
  ultimately show ?case
    using scan_tokens_plain[OF _ _ op, of bs] x(1) by (metis append_Cons)
next
  case (nested_bracket c b d us vs)
  then obtain x xu y xv where xs: "xs = x # xu @ y # xv" "tok_t x = b" "map tok_t xu = us"
      "tok_t y = c" "map tok_t xv = vs"
    by (auto simp: map_eq_append_conv map_eq_Cons_conv)
  have ops: "operators_ok (xu @ y # xv @ ys)" "operators_ok (xv @ ys)"
    using nested_bracket.prems(2) operators_ok_append[of "[x]" "xu @ y # xv @ ys"]
      operators_ok_append[of "x # xu @ [y]" "xv @ ys"]
    by (simp_all only: xs(1) append_Cons append_Nil append_assoc)
  have cb: "opens b" "\<not> opens c" using closing_opens[OF nested_bracket(1)] by auto
  have "scan_tokens bs (xs @ ys) = scan_tokens (b # bs) (xu @ y # xv @ ys)"
    using xs cb nested_bracket.prems(3) by (auto simp: opens_def)
  also have "\<dots> = scan_tokens (b # bs) (y # xv @ ys)"
    using nested_bracket.IH(1)[OF xs(3) ops(1)] nested_bracket.prems(3) by simp
  also have "\<dots> = scan_tokens bs (xv @ ys)"
    using xs cb nested_bracket(1) by (auto simp: opens_def)
  also have "\<dots> = scan_tokens bs ys"
    using nested_bracket.IH(2)[OF xs(5) ops(2) nested_bracket.prems(3)] .
  finally show ?case .
qed

lemma check_tokens_ok:
  "check_tokens ts = Inr () \<longleftrightarrow>
     length ts \<le> 8192 \<and> nested 32 (map tok_t ts) \<and> operators_ok ts"
proof
  assume "check_tokens ts = Inr ()"
  then have "length ts \<le> 8192" and "scan_tokens [] ts = Inr []"
    by (auto simp: check_tokens_def fail_def split: if_splits sum.splits)
  then show "length ts \<le> 8192 \<and> nested 32 (map tok_t ts) \<and> operators_ok ts"
    using scan_tokens_sound[of "[]" ts] by simp
next
  assume "length ts \<le> 8192 \<and> nested 32 (map tok_t ts) \<and> operators_ok ts"
  then show "check_tokens ts = Inr ()"
    using scan_tokens_nested[of 32 "map tok_t ts" ts "[]" "[]"] by (simp add: check_tokens_def)
qed

lemma scan_tokens_error: "scan_tokens bs ts = Inl e \<Longrightarrow> e = LimitsError"
  by (induction bs ts rule: scan_tokens.induct)
    (auto simp: fail_def split: if_splits option.splits list.splits)

lemma check_tokens_cases: "check_tokens ts = Inr () \<or> check_tokens ts = fail"
  using scan_tokens_error by (auto simp: check_tokens_def fail_def split: sum.splits)

section \<open>Definitions\<close>

text \<open>The \<open>Map\<close> of definitions, in insertion order.\<close>

type_synonym definitions = "(jsstr \<times> node) list"

fun collect_definitions :: "definitions \<Rightarrow> statement list \<Rightarrow> jserr + definitions" where
  "collect_definitions ds [] = Inr ds"
| "collect_definitions ds (s # ss) =
     (if st_type s = 18 \<or> st_id s \<in> fst ` set ds \<or> unsafe_key (st_id s) then fail
      else if list_ex (\<lambda>x. tok_t x = 9) (st_tokens s) then fail
      else collect_definitions (ds @ [(st_id s, parse_expression (st_tokens s))]) ss)"

lemma collect_definitions_ok:
  "collect_definitions ds ss = Inr ds' \<Longrightarrow> distinct (map fst ds) \<Longrightarrow>
     distinct (map fst ds') \<and> (\<forall>d \<in> set ds'. d \<in> set ds \<or> \<not> unsafe_key (fst d))"
  by (induction ds ss arbitrary: ds' rule: collect_definitions.induct)
    (fastforce simp: fail_def split: if_splits)+

lemma collect_definitions_error: "collect_definitions ds ss = Inl e \<Longrightarrow> e = LimitsError"
  by (induction ds ss rule: collect_definitions.induct) (auto simp: fail_def split: if_splits)

section \<open>Children\<close>

text \<open>\<open>String(node.index.v)\<close>\<close>

definition literal_key :: "node \<Rightarrow> jsstr" where
  "literal_key n = (case n of Str s \<Rightarrow> s | Num x \<Rightarrow> num_str x
     | Bool b \<Rightarrow> (if b then lit ''true'' else lit ''false'') | _ \<Rightarrow> lit ''undefined'')"

definition is_literal_key :: "node \<Rightarrow> bool" where   \<comment> \<open>\<open>['Str','Num'].includes(node.index.k)\<close>\<close>
  "is_literal_key n = (case n of Str _ \<Rightarrow> True | Num _ \<Rightarrow> True | _ \<Rightarrow> False)"

definition is_num_node :: "node \<Rightarrow> bool" where
  "is_num_node n = (case n of Num _ \<Rightarrow> True | _ \<Rightarrow> False)"

fun children :: "jsstr list \<Rightarrow> node \<Rightarrow> jserr + node list" where
  "children lib (Comp name args fn) = (if fn \<or> name \<notin> set lib then fail else Inr args)"
| "children lib (Arr els) = Inr els"
| "children lib (Obj entries) =
     (if list_ex (\<lambda>e. unsafe_key (fst e)) entries then fail else Inr (map snd entries))"
| "children lib (Member obj field) = (if unsafe_key field then fail else Inr [obj])"
| "children lib (Index obj index) =
     (if \<not> is_literal_key index \<or> unsafe_key (literal_key index) then fail else Inr [obj, index])"
| "children lib (UnaryOp op operand) =
     (if op \<noteq> lit ''-'' \<or> \<not> is_num_node operand then fail else Inr [operand])"
| "children lib (Str _) = Inr []"
| "children lib (Num _) = Inr []"
| "children lib (Bool _) = Inr []"
| "children lib Null = Inr []"
| "children lib (Ref _) = Inr []"
| "children lib (StateRef _) = Inr []"
| "children lib _ = fail"

lemma children_size: "children lib n = Inr cs \<Longrightarrow> c \<in> set cs \<Longrightarrow> size c < size n"
  by (cases n) (auto simp: fail_def less_Suc_eq_le size_list_estimation' intro!: le_SucI
      split: if_splits elim!: size_list_estimation'[OF _ order_refl, THEN order_trans[rotated]])


lemma children_error: "children lib n = Inl e \<Longrightarrow> e = LimitsError"
  by (cases n) (auto simp: fail_def split: if_splits)

section \<open>The iterative depth check\<close>

text \<open>The number of nodes of a tree, with every child that \<open>children\<close> can return.\<close>

fun kids :: "node \<Rightarrow> node list" where
  "kids (Comp name args fn) = args"
| "kids (Arr els) = els"
| "kids (Obj entries) = map snd entries"
| "kids (Member obj field) = [obj]"
| "kids (Index obj index) = [obj, index]"
| "kids (UnaryOp op operand) = [operand]"
| "kids _ = []"

lemma children_kids: "children lib n = Inr cs \<Longrightarrow> cs = kids n"
  by (cases n) (auto simp: fail_def split: if_splits)

lemma kids_size: "c \<in> set (kids n) \<Longrightarrow> size c < size n"
  by (cases n) (auto simp: less_Suc_eq_le size_list_estimation' intro!: le_SucI
      elim!: size_list_estimation'[OF _ order_refl, THEN order_trans[rotated]])

function node_total :: "node \<Rightarrow> nat" where
  "node_total n = Suc (sum_list (map node_total (kids n)))"
  by pat_completeness auto
termination by (relation "measure size") (auto simp: kids_size)

declare node_total.simps [simp del]

text \<open>\<open>pending\<close> is a stack: the end of the JavaScript array is the head of the list.\<close>

function walk :: "jsstr list \<Rightarrow> (node \<times> nat) list \<Rightarrow> jserr + unit" where
  "walk lib [] = Inr ()"
| "walk lib ((n, depth) # pending) =
     (if depth > lim_depth limits then fail
      else case children lib n of
        Inl e \<Rightarrow> Inl e
      | Inr cs \<Rightarrow> walk lib (rev (map (\<lambda>c. (c, depth + 1)) cs) @ pending))"
  by pat_completeness auto
termination
proof (relation "measure (\<lambda>(lib, pending). sum_list (map (\<lambda>x. node_total (fst x)) pending))", goal_cases)
  case (2 lib n depth pending cs)
  have "sum_list (map (\<lambda>x. node_total (fst x)) (rev (map (\<lambda>c. (c, depth + 1)) cs)))
      = sum_list (map node_total cs)"
    by (simp add: sum_list_rev rev_map[symmetric] comp_def)
  then show ?case using children_kids[OF 2(2)] by (simp add: node_total.simps[of n])
qed simp

definition check_depth :: "jsstr list \<Rightarrow> definitions \<Rightarrow> jserr + unit" where
  "check_depth lib ds = walk lib (rev (map (\<lambda>d. (snd d, 1)) ds))"

text \<open>What the loop accepts: every node passes its check, at a depth within the limit.\<close>

function fits :: "jsstr list \<Rightarrow> nat \<Rightarrow> node \<Rightarrow> bool" where
  "fits lib depth n \<longleftrightarrow> depth \<le> lim_depth limits \<and>
     (case children lib n of Inl _ \<Rightarrow> False | Inr cs \<Rightarrow> list_all (fits lib (depth + 1)) cs)"
  by pat_completeness auto
termination by (relation "measure (\<lambda>(lib, depth, n). size n)") (auto simp: children_size)

declare fits.simps [simp del]

lemma walk_correct:
  "walk lib pending = (if \<forall>(n, depth) \<in> set pending. fits lib depth n then Inr () else fail)"
proof (induction lib pending rule: walk.induct)
  case (2 lib n depth pending)
  show ?case
  proof (cases "children lib n")
    case (Inl e)
    then show ?thesis using children_error[OF Inl] by (simp add: fits.simps[of lib depth n] fail_def)
  next
    case (Inr cs)
    then show ?thesis
      using 2 by (auto simp: fits.simps[of lib depth n] list_all_iff)
  qed
qed simp

lemma check_depth_correct:
  "check_depth lib ds = (if \<forall>d \<in> set ds. fits lib 1 (snd d) then Inr () else fail)"
  by (auto simp: check_depth_def walk_correct)

lemma fits_children: "fits lib d n \<Longrightarrow> \<exists>cs. children lib n = Inr cs \<and> (\<forall>c \<in> set cs. fits lib (Suc d) c)"
  by (subst (asm) fits.simps) (auto simp: list_all_iff split: sum.splits)

end
