(* ===== verification/Preflight_Budget.thy ===== *)
theory Preflight_Budget
  imports Preflight_Layout
begin

text \<open>
  \<open>preflight.mjs\<close>, the two memoised recursions over the syntax trees: \<open>value\<close> resolves
  references and data bindings, \<open>budget\<close> adds up the cost of the expanded tree and finds cycles.
  The \<open>WeakMap\<close>s and the \<open>Set\<close> are keyed by object identity; a node's identity here is its
  location, the definition it stands in and the positions of the children that lead to it.
  A recursion that is too deep throws RangeError, and the lemmas show that it never is.
\<close>

section \<open>Locations\<close>

type_synonym loc = "jsstr \<times> nat list"

record view =
  v_defs :: definitions
  v_data :: jsv
  v_lib :: "jsstr list"
  v_weights :: "data_path \<Rightarrow> nat option"   \<comment> \<open>\<open>dataWeights\<close>, filled by \<open>weigh\<close>\<close>

definition child_loc :: "loc \<Rightarrow> nat \<Rightarrow> loc" where
  "child_loc l i = (fst l, snd l @ [i])"

fun sub_node :: "node \<Rightarrow> nat list \<Rightarrow> node option" where
  "sub_node n [] = Some n"
| "sub_node n (i # p) = (if i < length (kids n) then sub_node (kids n ! i) p else None)"

definition node_at :: "view \<Rightarrow> loc \<Rightarrow> node option" where
  "node_at E l = (case map_of (v_defs E) (fst l) of None \<Rightarrow> None | Some d \<Rightarrow> sub_node d (snd l))"

lemma sub_node_snoc:
  "sub_node n p = Some m \<Longrightarrow> i < length (kids m) \<Longrightarrow> sub_node n (p @ [i]) = Some (kids m ! i)"
  by (induction n p rule: sub_node.induct) (auto split: if_splits)

lemma node_at_child:
  "node_at E l = Some n \<Longrightarrow> i < length (kids n) \<Longrightarrow> node_at E (child_loc l i) = Some (kids n ! i)"
  by (auto simp: node_at_def child_loc_def sub_node_snoc split: option.splits)

lemma node_at_definition: "map_of (v_defs E) x = Some d \<Longrightarrow> node_at E (x, []) = Some d"
  by (simp add: node_at_def)

section \<open>Values\<close>

definition own :: "jsv \<Rightarrow> jsstr \<Rightarrow> jsv" where
  "own v key = (if nullish v then JNull else case own_prop v key of Some x \<Rightarrow> x | None \<Rightarrow> JNull)"

type_synonym node_values = "loc \<Rightarrow> jsv option"
type_synonym value_fn = "loc \<Rightarrow> node \<Rightarrow> node_values \<Rightarrow> jserr + jsv \<times> node_values"

fun value_list :: "value_fn \<Rightarrow> loc \<Rightarrow> nat \<Rightarrow> node list \<Rightarrow> node_values \<Rightarrow> jserr + jsv list \<times> node_values" where
  "value_list f l i [] vs = Inr ([], vs)"
| "value_list f l i (n # ns) vs =
     (case f (child_loc l i) n vs of Inl e \<Rightarrow> Inl e
      | Inr (v, vs1) \<Rightarrow>
          (case value_list f l (Suc i) ns vs1 of Inl e \<Rightarrow> Inl e | Inr (ws, vs2) \<Rightarrow> Inr (v # ws, vs2)))"

definition map_value :: "('a \<Rightarrow> 'b) \<Rightarrow> jserr + 'a \<times> 's \<Rightarrow> jserr + 'b \<times> 's" where
  "map_value g r = (case r of Inl e \<Rightarrow> Inl e | Inr (v, s) \<Rightarrow> Inr (g v, s))"

definition negated :: "node \<Rightarrow> jsv" where   \<comment> \<open>\<open>-node.operand.v\<close>; the operand is a number node\<close>
  "negated operand = JNum (case operand of Num x \<Rightarrow> num_neg x | _ \<Rightarrow> NaN)"

definition component_value :: "jsstr \<Rightarrow> jsv list \<Rightarrow> jsv" where
  "component_value name args = JObj [(lit ''component'', JStr name), (lit ''args'', JArr args)]"

text \<open>The \<open>switch\<close> of \<open>value\<close>, with the recursive calls through \<open>f\<close>.\<close>

fun value_of :: "view \<Rightarrow> value_fn \<Rightarrow> loc \<Rightarrow> node \<Rightarrow> node_values \<Rightarrow> jserr + jsv \<times> node_values" where
  "value_of E f l (Ref x) vs =
     (case map_of (v_defs E) x of None \<Rightarrow> Inl TypeError | Some d \<Rightarrow> f (x, []) d vs)"
| "value_of E f l (StateRef s) vs = Inr (own (v_data E) (drop 1 s), vs)"
| "value_of E f l (Member obj field) vs = map_value (\<lambda>v. own v field) (f (child_loc l 0) obj vs)"
| "value_of E f l (Index obj index) vs =
     map_value (\<lambda>v. own v (literal_key index)) (f (child_loc l 0) obj vs)"
| "value_of E f l (Arr els) vs = map_value JArr (value_list f l 0 els vs)"
| "value_of E f l (Obj entries) vs =
     map_value (\<lambda>ws. from_entries (zip (map fst entries) ws)) (value_list f l 0 (map snd entries) vs)"
| "value_of E f l (UnaryOp op operand) vs = Inr (negated operand, vs)"
| "value_of E f l Null vs = Inr (JNull, vs)"
| "value_of E f l (Comp name args fn) vs = map_value (component_value name) (value_list f l 0 args vs)"
| "value_of E f l (Str s) vs = Inr (JStr s, vs)"
| "value_of E f l (Num x) vs = Inr (JNum x, vs)"
| "value_of E f l (Bool b) vs = Inr (JBool b, vs)"
| "value_of E f l n vs = Inr (JUndef, vs)"

definition value_step :: "view \<Rightarrow> value_fn \<Rightarrow> value_fn" where
  "value_step E f l n vs =
     (case vs l of Some v \<Rightarrow> Inr (v, vs)
      | None \<Rightarrow>
          (case value_of E f l n vs of Inl e \<Rightarrow> Inl e
           | Inr (v, vs') \<Rightarrow> if control_object v then fail else Inr (v, vs'(l \<mapsto> v))))"

primrec node_value :: "nat \<Rightarrow> view \<Rightarrow> value_fn" where
  "node_value 0 E = (\<lambda>l n vs. Inl RangeError)"
| "node_value (Suc k) E = value_step E (node_value k E)"

section \<open>Costs\<close>

record cost =
  c_nodes :: nat
  c_components :: nat
  c_depth :: nat
  c_render :: nat

definition cost_ok :: "cost \<Rightarrow> bool" where
  "cost_ok c \<longleftrightarrow> c_nodes c \<le> lim_nodes limits \<and> c_components c \<le> lim_components limits \<and>
     c_depth c \<le> lim_depth limits \<and> c_render c \<le> lim_render limits"

definition check_cost :: "cost \<Rightarrow> jserr + unit" where
  "check_cost c =
     (if c_nodes c > lim_nodes limits \<or> c_components c > lim_components limits \<or>
         c_depth c > lim_depth limits \<or> c_render c > lim_render limits then fail else Inr ())"

lemma check_cost_iff: "check_cost c = (if cost_ok c then Inr () else fail)"
  by (auto simp: check_cost_def cost_ok_def)

definition start_cost :: "node \<Rightarrow> cost" where
  "start_cost n = \<lparr>c_nodes = (case n of Str s \<Rightarrow> text_cost s | _ \<Rightarrow> 1),
     c_components = (case n of Comp _ _ _ \<Rightarrow> 1 | _ \<Rightarrow> 0), c_depth = 1, c_render = 0\<rparr>"

definition add_cost :: "cost \<Rightarrow> cost \<Rightarrow> cost" where
  "add_cost c d = \<lparr>c_nodes = c_nodes c + c_nodes d, c_components = c_components c + c_components d,
     c_depth = max (c_depth c) (1 + c_depth d), c_render = c_render c + c_render d\<rparr>"

text \<open>The weight that \<open>weigh\<close> stored for the object under a key of the data.\<close>

fun key_pos :: "(jsstr \<times> 'a) list \<Rightarrow> jsstr \<Rightarrow> nat" where
  "key_pos [] k = 0"
| "key_pos ((k', v) # kvs) k = (if k' = k then 0 else Suc (key_pos kvs k))"

definition stored_weight :: "view \<Rightarrow> jsstr \<Rightarrow> nat" where
  "stored_weight E key =
     (case v_weights E [key_pos (entries_of (v_data E)) key] of Some w \<Rightarrow> w | None \<Rightarrow> 0)"

definition datum_cost :: "view \<Rightarrow> jsstr \<Rightarrow> nat" where
  "datum_cost E key =
     (case own (v_data E) key of JStr s \<Rightarrow> text_cost s
      | v \<Rightarrow> if is_object v then stored_weight E key else 1)"

definition extra_nodes :: "view \<Rightarrow> node \<Rightarrow> nat" where
  "extra_nodes E n =
     (case n of Member _ field \<Rightarrow> text_cost field | StateRef s \<Rightarrow> datum_cost E (drop 1 s) | _ \<Rightarrow> 0)"

definition close_cost :: "view \<Rightarrow> node \<Rightarrow> nat \<Rightarrow> cost \<Rightarrow> cost" where
  "close_cost E n r c = c\<lparr>c_nodes := c_nodes c + extra_nodes E n, c_render := c_render c + r\<rparr>"

text \<open>The multiplicative work of tables and charts.\<close>

definition array_length :: "jsv \<Rightarrow> nat" where
  "array_length v = (case v of JArr xs \<Rightarrow> length xs | _ \<Rightarrow> 0)"

definition key_count :: "jsv \<Rightarrow> nat" where
  "key_count v = (if is_object v then length (entries_of v) else 0)"

definition table_work :: "jsv \<Rightarrow> jsv \<Rightarrow> nat" where
  "table_work columns rows = array_length columns * key_count rows"

definition arg_at :: "jsv list \<Rightarrow> nat \<Rightarrow> jsv" where
  "arg_at args i = (if i < length args then args ! i else JUndef)"

definition chart_work :: "jsv list \<Rightarrow> nat" where
  "chart_work args = array_length (arg_at args 0) * max 1 (array_length (arg_at args 1))"

definition table_values :: "value_fn \<Rightarrow> loc \<Rightarrow> node list \<Rightarrow> node_values \<Rightarrow> jserr + nat \<times> node_values" where
  "table_values f l args vs =
     (case args of [] \<Rightarrow> Inl TypeError
      | a # rest \<Rightarrow>
          (case f (child_loc l 0) a vs of Inl e \<Rightarrow> Inl e
           | Inr (columns, vs1) \<Rightarrow>
               (case rest of [] \<Rightarrow> Inr (table_work columns JNull, vs1)
                | b # _ \<Rightarrow> map_value (table_work columns) (f (child_loc l 1) b vs1))))"

definition is_chart :: "jsstr \<Rightarrow> bool" where
  "is_chart name \<longleftrightarrow> ends_with name (lit ''Chart'')"

fun render_cost :: "value_fn \<Rightarrow> loc \<Rightarrow> node \<Rightarrow> node_values \<Rightarrow> jserr + nat \<times> node_values" where
  "render_cost f l (Comp name args fn) vs =
     (if name = lit ''Table'' then table_values f l args vs
      else if is_chart name then map_value chart_work (value_list f l 0 args vs)
      else Inr (0, vs))"
| "render_cost f l n vs = Inr (0, vs)"

section \<open>The budget\<close>

record budget_state =
  b_memo :: "loc \<Rightarrow> cost option"
  b_values :: node_values
  b_visiting :: "loc list"

type_synonym budget_fn = "loc \<Rightarrow> node \<Rightarrow> budget_state \<Rightarrow> jserr + cost \<times> budget_state"

definition budget_start :: budget_state where
  "budget_start = \<lparr>b_memo = Map.empty, b_values = Map.empty, b_visiting = []\<rparr>"

text \<open>\<open>parts\<close>: the definition a reference names, or the children.\<close>

definition node_parts :: "view \<Rightarrow> loc \<Rightarrow> node \<Rightarrow> node list \<Rightarrow> jserr + (loc \<times> node) list" where
  "node_parts E l n cs =
     (case n of
        Ref x \<Rightarrow> (case map_of (v_defs E) x of None \<Rightarrow> fail | Some d \<Rightarrow> Inr [((x, []), d)])
      | _ \<Rightarrow> Inr (zip (map (child_loc l) [0..<length cs]) cs))"

fun budget_parts :: "budget_fn \<Rightarrow> (loc \<times> node) list \<Rightarrow> cost \<Rightarrow> budget_state \<Rightarrow> jserr + cost \<times> budget_state" where
  "budget_parts f [] c st = Inr (c, st)"
| "budget_parts f ((l, n) # ps) c st =
     (case f l n st of Inl e \<Rightarrow> Inl e
      | Inr (d, st') \<Rightarrow>
          (case check_cost (add_cost c d) of Inl e \<Rightarrow> Inl e
           | Inr _ \<Rightarrow> budget_parts f ps (add_cost c d) st'))"

definition budget_finish :: "view \<Rightarrow> value_fn \<Rightarrow> loc \<Rightarrow> node \<Rightarrow> cost \<Rightarrow> budget_state \<Rightarrow> jserr + cost \<times> budget_state" where
  "budget_finish E vf l n c st =
     (case render_cost vf l n (b_values st) of Inl e \<Rightarrow> Inl e
      | Inr (r, vs) \<Rightarrow>
          (case check_cost (close_cost E n r c) of Inl e \<Rightarrow> Inl e
           | Inr _ \<Rightarrow> Inr (close_cost E n r c,
               st\<lparr>b_values := vs, b_visiting := removeAll l (b_visiting st),
                  b_memo := (b_memo st)(l \<mapsto> close_cost E n r c)\<rparr>)))"

definition budget_step :: "view \<Rightarrow> value_fn \<Rightarrow> budget_fn \<Rightarrow> budget_fn" where
  "budget_step E vf f l n st =
     (case b_memo st l of Some c \<Rightarrow> Inr (c, st)
      | None \<Rightarrow>
          if l \<in> set (b_visiting st) then fail
          else (case children (v_lib E) n of Inl e \<Rightarrow> Inl e
            | Inr cs \<Rightarrow>
                (case node_parts E l n cs of Inl e \<Rightarrow> Inl e
                 | Inr ps \<Rightarrow>
                     (case budget_parts f ps (start_cost n) (st\<lparr>b_visiting := l # b_visiting st\<rparr>) of
                        Inl e \<Rightarrow> Inl e
                      | Inr (c, st') \<Rightarrow> budget_finish E vf l n c st'))))"

text \<open>The deepest recursion there can be: one call for every node, and the values below it.\<close>

definition call_depth :: "view \<Rightarrow> nat" where
  "call_depth E = Suc (lim_depth limits + sum_list (map (\<lambda>d. node_total (snd d)) (v_defs E)))"

primrec budget :: "nat \<Rightarrow> view \<Rightarrow> budget_fn" where
  "budget 0 E = (\<lambda>l n st. Inl RangeError)"
| "budget (Suc k) E = budget_step E (node_value (call_depth E) E) (budget k E)"

text \<open>\<open>for (const node of definitions.values()) budget(node)\<close>\<close>

fun budget_all :: "view \<Rightarrow> definitions \<Rightarrow> budget_state \<Rightarrow> jserr + budget_state" where
  "budget_all E [] st = Inr st"
| "budget_all E ((x, d) # ds) st =
     (case budget (call_depth E) E (x, []) d st of Inl e \<Rightarrow> Inl e
      | Inr (c, st') \<Rightarrow> budget_all E ds st')"

end
