(* ===== verification/Preflight_Meaning.thy ===== *)
theory Preflight_Meaning
  imports Preflight_Budget
begin

text \<open>
  The abstract meaning of a view, without memo tables, fuel or visiting sets: \<open>evals\<close> relates a
  syntax tree to its value, \<open>costs\<close> to the cost of its expansion. Both are inductive, so a tree
  that has a cost refers to no definition that refers back to it. The simulation lemmas show
  that the memoised recursions of \<open>Preflight_Budget\<close> compute these relations.
\<close>

section \<open>Values\<close>

fun valueless :: "node \<Rightarrow> bool" where   \<comment> \<open>no case of \<open>value\<close>, and no field \<open>v\<close>\<close>
  "valueless (Ph _) = True"
| "valueless (RuntimeRef _ _) = True"
| "valueless (BinOp _ _ _) = True"
| "valueless (Ternary _ _ _) = True"
| "valueless (Assign _ _) = True"
| "valueless _ = False"

inductive evals :: "view \<Rightarrow> node \<Rightarrow> jsv \<Rightarrow> bool" for E where
  evals_ref: "map_of (v_defs E) x = Some d \<Longrightarrow> evals E d v \<Longrightarrow> evals E (Ref x) v"
| evals_state: "\<not> control_object (own (v_data E) (drop 1 s)) \<Longrightarrow>
     evals E (StateRef s) (own (v_data E) (drop 1 s))"
| evals_member: "evals E obj v \<Longrightarrow> \<not> control_object (own v field) \<Longrightarrow> evals E (Member obj field) (own v field)"
| evals_index: "evals E obj v \<Longrightarrow> \<not> control_object (own v (literal_key index)) \<Longrightarrow>
     evals E (Index obj index) (own v (literal_key index))"
| evals_arr: "list_all2 (evals E) els vs \<Longrightarrow> evals E (Arr els) (JArr vs)"
| evals_obj: "list_all2 (evals E) (map snd entries) vs \<Longrightarrow>
     \<not> control_object (from_entries (zip (map fst entries) vs)) \<Longrightarrow>
     evals E (Obj entries) (from_entries (zip (map fst entries) vs))"
| evals_unary: "evals E (UnaryOp op operand) (negated operand)"
| evals_null: "evals E Null JNull"
| evals_comp: "list_all2 (evals E) args vs \<Longrightarrow> \<not> control_object (component_value name vs) \<Longrightarrow>
     evals E (Comp name args fn) (component_value name vs)"
| evals_str: "evals E (Str s) (JStr s)"
| evals_num: "evals E (Num x) (JNum x)"
| evals_bool: "evals E (Bool b) (JBool b)"
| evals_other: "valueless n \<Longrightarrow> evals E n JUndef"

inductive_cases evals_refE: "evals E (Ref x) v"
inductive_cases evals_memberE: "evals E (Member obj field) v"
inductive_cases evals_indexE: "evals E (Index obj index) v"
inductive_cases evals_arrE: "evals E (Arr els) v"
inductive_cases evals_objE: "evals E (Obj entries) v"
inductive_cases evals_compE: "evals E (Comp name args fn) v"

inductive_simps evals_leaf:
  "evals E (StateRef s) v" "evals E (UnaryOp op operand) v" "evals E Null v" "evals E (Str s) v"
  "evals E (Num x) v" "evals E (Bool b) v" "evals E (Ph p) v" "evals E (RuntimeRef p q) v"
  "evals E (BinOp p m m') v" "evals E (Ternary m m' m'') v" "evals E (Assign p m) v"

inductive_simps evals_inner:
  "evals E (Ref x) v" "evals E (Member obj field) v" "evals E (Index obj index) v"
  "evals E (Arr els) v" "evals E (Obj entries) v" "evals E (Comp name args fn) v"

lemma evals_not_control: "evals E n v \<Longrightarrow> \<not> control_object v"
  by (induction rule: evals.induct) (auto simp: negated_def)

text \<open>A relation that is functional at every element is functional on lists.\<close>

lemma list_all2_unique:
  "list_all2 (\<lambda>x y. \<forall>y'. R x y' \<longrightarrow> y = y') xs ys \<Longrightarrow> list_all2 R xs ys' \<Longrightarrow> ys = ys'"
proof (induction xs ys arbitrary: ys' rule: list_all2_induct)
  case (Cons x xs y ys)
  then show ?case by (cases ys') auto
qed simp

lemma list_all2_functional:
  assumes "list_all2 (\<lambda>x y. R x y \<and> (\<forall>y'. R x y' \<longrightarrow> y = y')) xs ys" and "list_all2 R xs ys'"
  shows "ys = ys'"
proof (rule list_all2_unique[OF _ assms(2)])
  show "list_all2 (\<lambda>x y. \<forall>y'. R x y' \<longrightarrow> y = y') xs ys"
    using assms(1) by (rule list_all2_mono) blast
qed

lemma list_all2_fun:
  assumes "\<And>x y y'. R x y \<Longrightarrow> R x y' \<Longrightarrow> y = y'" and "list_all2 R xs ys" and "list_all2 R xs ys'"
  shows "ys = ys'"
proof (rule list_all2_unique[OF _ assms(3)])
  show "list_all2 (\<lambda>x y. \<forall>y'. R x y' \<longrightarrow> y = y') xs ys"
    using assms(2) by (rule list_all2_mono) (use assms(1) in blast)
qed

lemma evals_functional: "evals E n v \<Longrightarrow> evals E n v' \<Longrightarrow> v = v'"
proof (induction arbitrary: v' rule: evals.induct)
  case (evals_ref x d v)
  from evals_ref.prems show ?case by (rule evals_refE) (use evals_ref in simp_all)
next
  case (evals_member obj v field)
  from evals_member.prems show ?case by (rule evals_memberE) (use evals_member in auto)
next
  case (evals_index obj v index)
  from evals_index.prems show ?case by (rule evals_indexE) (use evals_index in auto)
next
  case (evals_arr els vs)
  from evals_arr.prems show ?case
    by (rule evals_arrE) (use list_all2_functional[OF evals_arr.IH] in auto)
next
  case (evals_obj entries vs)
  from evals_obj.prems show ?case
    by (rule evals_objE) (use list_all2_functional[OF evals_obj.IH] in auto)
next
  case (evals_comp args vs name fn)
  from evals_comp.prems show ?case
    by (rule evals_compE) (use list_all2_functional[OF evals_comp.IH] in auto)
next
  case (evals_other n)
  then show ?case by (cases n) (simp_all add: evals_leaf)
qed (simp_all add: evals_leaf)

lemma evals_list_functional: "list_all2 (evals E) ns vs \<Longrightarrow> list_all2 (evals E) ns vs' \<Longrightarrow> vs = vs'"
  by (rule list_all2_fun[OF evals_functional])

section \<open>Costs\<close>

definition part_nodes :: "view \<Rightarrow> node \<Rightarrow> node list \<Rightarrow> node list option" where
  "part_nodes E n cs =
     (case n of Ref x \<Rightarrow> map_option (\<lambda>d. [d]) (map_of (v_defs E) x) | _ \<Rightarrow> Some cs)"

definition renders :: "view \<Rightarrow> node \<Rightarrow> nat \<Rightarrow> bool" where
  "renders E n r \<longleftrightarrow>
     (case n of
        Comp name args fn \<Rightarrow>
          if name = lit ''Table'' then
            \<exists>a rest columns rows. args = a # rest \<and> evals E a columns \<and> r = table_work columns rows \<and>
              (case rest of [] \<Rightarrow> rows = JNull | b # _ \<Rightarrow> evals E b rows)
          else if is_chart name then \<exists>vs. list_all2 (evals E) args vs \<and> r = chart_work vs
          else r = 0
      | _ \<Rightarrow> r = 0)"

definition total_cost :: "view \<Rightarrow> node \<Rightarrow> cost list \<Rightarrow> nat \<Rightarrow> cost" where
  "total_cost E n ks r = close_cost E n r (foldl add_cost (start_cost n) ks)"

inductive costs :: "view \<Rightarrow> node \<Rightarrow> cost \<Rightarrow> bool" for E where
  costs_node: "children (v_lib E) n = Inr cs \<Longrightarrow> part_nodes E n cs = Some ns \<Longrightarrow>
     list_all2 (costs E) ns ks \<Longrightarrow> renders E n r \<Longrightarrow> cost_ok (total_cost E n ks r) \<Longrightarrow>
     costs E n (total_cost E n ks r)"

lemma costsE:
  assumes "costs E n c"
  obtains cs ns ks r where "children (v_lib E) n = Inr cs" and "part_nodes E n cs = Some ns"
    and "list_all2 (costs E) ns ks" and "renders E n r" and "c = total_cost E n ks r" and "cost_ok c"
  using assms by (cases rule: costs.cases) auto

text \<open>Costs only grow as parts are added.\<close>

definition cost_le :: "cost \<Rightarrow> cost \<Rightarrow> bool" where
  "cost_le a b \<longleftrightarrow> c_nodes a \<le> c_nodes b \<and> c_components a \<le> c_components b \<and>
     c_depth a \<le> c_depth b \<and> c_render a \<le> c_render b"

lemma cost_le_trans: "cost_le a b \<Longrightarrow> cost_le b c \<Longrightarrow> cost_le a c"
  by (auto simp: cost_le_def)

lemma cost_ok_le: "cost_ok b \<Longrightarrow> cost_le a b \<Longrightarrow> cost_ok a"
  by (auto simp: cost_ok_def cost_le_def)

lemma add_cost_le: "cost_le c (add_cost c d)"
  by (simp add: cost_le_def add_cost_def)

lemma foldl_add_cost_le: "cost_le c (foldl add_cost c ks)"
proof (induction ks arbitrary: c)
  case (Cons k ks)
  then show ?case using cost_le_trans[OF add_cost_le[of c k]] by simp
qed (simp add: cost_le_def)

lemma foldl_add_cost_part: "k \<in> set ks \<Longrightarrow> c_depth k < c_depth (foldl add_cost c ks)"
proof (induction ks arbitrary: c)
  case (Cons k' ks)
  have "c_depth k' < c_depth (foldl add_cost (add_cost c k') ks)"
    using foldl_add_cost_le[of "add_cost c k'" ks]
    by (auto simp: cost_le_def add_cost_def simp del: foldl_Cons intro: less_le_trans[of _ "Suc (c_depth k')"])
  then show ?case using Cons by auto
qed simp

lemma total_cost_le: "cost_le (foldl add_cost (start_cost n) ks) (total_cost E n ks r)"
  by (simp add: total_cost_def close_cost_def cost_le_def)

lemma total_cost_part: "k \<in> set ks \<Longrightarrow> c_depth k < c_depth (total_cost E n ks r)"
  using foldl_add_cost_part[of k ks "start_cost n"] by (simp add: total_cost_def close_cost_def)

lemma renders_functional:
  assumes "renders E n r" and "renders E n r'"
  shows "r = r'"
proof (cases n)
  case (Comp name args fn)
  then show ?thesis
    using assms by (auto simp: renders_def split: if_splits list.splits
        dest: evals_functional evals_list_functional)
qed (use assms in \<open>simp_all add: renders_def\<close>)

lemma costs_functional: "costs E n c \<Longrightarrow> costs E n c' \<Longrightarrow> c = c'"
proof (induction arbitrary: c' rule: costs.induct)
  case (costs_node n cs ns ks r)
  obtain cs' ns' ks' r' where c': "children (v_lib E) n = Inr cs'" "part_nodes E n cs' = Some ns'"
    "list_all2 (costs E) ns' ks'" "renders E n r'" "c' = total_cost E n ks' r'"
    using costs_node.prems by (rule costsE)
  then have "ks = ks'" using list_all2_functional[OF costs_node.IH] costs_node.hyps by simp
  moreover have "r = r'" using renders_functional c'(4) costs_node.hyps by blast
  ultimately show ?case using c' by simp
qed

end
