(* ===== verification/Preflight_Simulation.thy ===== *)
theory Preflight_Simulation
  imports Preflight_Meaning
begin

text \<open>
  The memoised recursions compute the relations of \<open>Preflight_Meaning\<close>: \<open>node_value\<close> returns
  the value of a tree and \<open>budget\<close> its cost, and they fail only where there is none. The memo
  tables, the visiting set and the bound on the recursion are invisible from outside.
\<close>

section \<open>The value of a node\<close>

definition values_ok :: "view \<Rightarrow> node_values \<Rightarrow> bool" where
  "values_ok E vs \<longleftrightarrow> (\<forall>l v. vs l = Some v \<longrightarrow> (\<exists>n. node_at E l = Some n \<and> evals E n v))"

definition result_ok :: "view \<Rightarrow> jserr set \<Rightarrow> ('a \<Rightarrow> bool) \<Rightarrow> jserr + 'a \<times> node_values \<Rightarrow> bool" where
  "result_ok E es P r = (case r of Inl e \<Rightarrow> e \<in> es \<and> (\<forall>v. \<not> P v) | Inr (v, vs) \<Rightarrow> P v \<and> values_ok E vs)"

lemma result_ok_simps [simp]:
  "result_ok E es P (Inl e) \<longleftrightarrow> e \<in> es \<and> (\<forall>v. \<not> P v)"
  "result_ok E es P (Inr (v, vs)) \<longleftrightarrow> P v \<and> values_ok E vs"
  by (simp_all add: result_ok_def)

lemma result_ok_map:
  "result_ok E es P r \<Longrightarrow> (\<And>v. Q v \<longleftrightarrow> (\<exists>u. P u \<and> v = g u)) \<Longrightarrow> result_ok E es Q (map_value g r)"
  by (cases r) (auto simp: map_value_def)

lemma value_list_ok:
  assumes "\<And>j vs. j < length ns \<Longrightarrow> values_ok E vs \<Longrightarrow>
      result_ok E es (evals E (ns ! j)) (f (child_loc l (i + j)) (ns ! j) vs)"
    and "values_ok E vs"
  shows "result_ok E es (list_all2 (evals E) ns) (value_list f l i ns vs)"
  using assms
proof (induction ns arbitrary: i vs)
  case (Cons n ns)
  have head: "result_ok E es (evals E n) (f (child_loc l i) n vs)"
    using Cons.prems(1)[of 0 vs] Cons.prems(2) by simp
  have tail: "result_ok E es (list_all2 (evals E) ns) (value_list f l (Suc i) ns vs1)"
    if "values_ok E vs1" for vs1
  proof (rule Cons.IH[OF _ that])
    fix j vs assume "j < length ns" and "values_ok E vs"
    then show "result_ok E es (evals E (ns ! j)) (f (child_loc l (Suc i + j)) (ns ! j) vs)"
      using Cons.prems(1)[of "Suc j" vs] by simp
  qed
  show ?case
  proof (cases "f (child_loc l i) n vs")
    case (Inl e)
    then show ?thesis using head by (auto simp: list_all2_Cons1)
  next
    case (Inr r)
    obtain v vs1 where r: "r = (v, vs1)" by (cases r)
    then have v: "evals E n v" "values_ok E vs1" using head Inr by simp_all
    then show ?thesis
      using tail[OF v(2)] Inr r by (cases "value_list f l (Suc i) ns vs1") (auto simp: list_all2_Cons1)
  qed
qed simp

text \<open>The value before the check that ends \<open>value\<close>.\<close>

fun raw_value :: "view \<Rightarrow> node \<Rightarrow> jsv \<Rightarrow> bool" where
  "raw_value E (Ref x) v = (\<exists>d. map_of (v_defs E) x = Some d \<and> evals E d v)"
| "raw_value E (StateRef s) v = (v = own (v_data E) (drop 1 s))"
| "raw_value E (Member obj field) v = (\<exists>u. evals E obj u \<and> v = own u field)"
| "raw_value E (Index obj index) v = (\<exists>u. evals E obj u \<and> v = own u (literal_key index))"
| "raw_value E (Arr els) v = (\<exists>us. list_all2 (evals E) els us \<and> v = JArr us)"
| "raw_value E (Obj entries) v =
     (\<exists>us. list_all2 (evals E) (map snd entries) us \<and> v = from_entries (zip (map fst entries) us))"
| "raw_value E (Comp name args fn) v = (\<exists>us. list_all2 (evals E) args us \<and> v = component_value name us)"
| "raw_value E (UnaryOp op operand) v = (v = negated operand)"
| "raw_value E Null v = (v = JNull)"
| "raw_value E (Str s) v = (v = JStr s)"
| "raw_value E (Num x) v = (v = JNum x)"
| "raw_value E (Bool b) v = (v = JBool b)"
| "raw_value E n v = (v = JUndef)"

lemma evals_iff: "evals E n v \<longleftrightarrow> raw_value E n v \<and> \<not> control_object v"
proof (cases n)
  case (Ref x)
  then show ?thesis using evals_not_control by (auto simp: evals_inner)
next
  case (UnaryOp op operand)
  then show ?thesis by (auto simp: evals_leaf negated_def)
qed (auto simp: evals_leaf evals_inner)

lemma raw_value_functional: "raw_value E n v \<Longrightarrow> raw_value E n v' \<Longrightarrow> v = v'"
  by (cases n) (auto dest: evals_functional evals_list_functional)

lemma costs_depth_pos: "costs E n c \<Longrightarrow> 0 < c_depth c"
proof (erule costsE)
  fix ks r assume "c = total_cost E n ks r"
  then show "0 < c_depth c"
    using foldl_add_cost_le[of "start_cost n" ks] by (simp add: total_cost_def close_cost_def cost_le_def start_cost_def)
qed

lemma costs_kid:
  assumes "costs E n c" and "i < length (kids n)"
  shows "\<exists>k. costs E (kids n ! i) k \<and> c_depth k < c_depth c"
proof -
  obtain cs ns ks r where n: "children (v_lib E) n = Inr cs" "part_nodes E n cs = Some ns"
    "list_all2 (costs E) ns ks" "c = total_cost E n ks r"
    using assms(1) by (rule costsE)
  have "ns = kids n" using n(1,2) assms(2) children_kids[OF n(1)] by (cases n) (simp_all add: part_nodes_def)
  then have "costs E (kids n ! i) (ks ! i)" "ks ! i \<in> set ks"
    using n(3) assms(2) by (auto simp: list_all2_conv_all_nth)
  then show ?thesis using total_cost_part n(4) by blast
qed

lemma costs_ref:
  assumes "costs E (Ref x) c"
  shows "\<exists>d k. map_of (v_defs E) x = Some d \<and> costs E d k \<and> c_depth k < c_depth c"
proof -
  obtain cs ns ks r where n: "part_nodes E (Ref x) cs = Some ns" "list_all2 (costs E) ns ks"
    "c = total_cost E (Ref x) ks r"
    using assms by (rule costsE)
  then obtain d k where "map_of (v_defs E) x = Some d" "costs E d k" "ks = [k]"
    by (auto simp: part_nodes_def list_all2_Cons1)
  then show ?thesis using n(3) total_cost_part[of k ks] by auto
qed

lemma value_of_ok:
  assumes c: "costs E n c" and vs: "values_ok E vs" and l: "node_at E l = Some n"
    and f: "\<And>l' n' k vs'. costs E n' k \<Longrightarrow> c_depth k < c_depth c \<Longrightarrow> node_at E l' = Some n' \<Longrightarrow>
      values_ok E vs' \<Longrightarrow> result_ok E {LimitsError} (evals E n') (f l' n' vs')"
  shows "result_ok E {LimitsError} (raw_value E n) (value_of E f l n vs)"
proof -
  have kid: "result_ok E {LimitsError} (evals E (kids n ! j)) (f (child_loc l j) (kids n ! j) vs')"
    if "j < length (kids n)" "values_ok E vs'" for j vs'
    using costs_kid[OF c that(1)] f node_at_child[OF l that(1)] that(2) by blast
  have list: "result_ok E {LimitsError} (list_all2 (evals E) (kids n)) (value_list f l 0 (kids n) vs)"
    using value_list_ok[of "kids n" E "{LimitsError}" f l 0, OF _ vs] kid by simp
  show ?thesis
  proof (cases n)
    case (Ref x)
    then obtain d k where "map_of (v_defs E) x = Some d" "costs E d k" "c_depth k < c_depth c"
      using costs_ref c by blast
    moreover from this have "result_ok E {LimitsError} (evals E d) (f (x, []) d vs)"
      using f[OF _ _ node_at_definition vs] by blast
    moreover have "raw_value E (Ref x) = evals E d" using calculation(1) by (auto simp: fun_eq_iff)
    ultimately show ?thesis using Ref by simp
  next
    case (Member obj field)
    then have "result_ok E {LimitsError} (evals E obj) (f (child_loc l 0) obj vs)" using kid[OF _ vs, of 0] by simp
    then show ?thesis using Member by simp (erule result_ok_map, simp)
  next
    case (Index obj index)
    then have "result_ok E {LimitsError} (evals E obj) (f (child_loc l 0) obj vs)" using kid[OF _ vs, of 0] by simp
    then show ?thesis using Index by simp (erule result_ok_map, simp)
  next
    case (Arr els)
    then show ?thesis using list by simp (erule result_ok_map, simp)
  next
    case (Obj entries)
    then show ?thesis using list by simp (erule result_ok_map, simp)
  next
    case (Comp name args fn)
    then show ?thesis using list by simp (erule result_ok_map, simp)
  qed (use vs in simp_all)
qed

lemma node_value_ok:
  "costs E n c \<Longrightarrow> c_depth c \<le> k \<Longrightarrow> node_at E l = Some n \<Longrightarrow> values_ok E vs \<Longrightarrow>
     result_ok E {LimitsError} (evals E n) (node_value k E l n vs)"
proof (induction k arbitrary: n c l vs)
  case 0
  then show ?case using costs_depth_pos by fastforce
next
  case (Suc k)
  show ?case
  proof (cases "vs l")
    case (Some v)
    then obtain n' where "node_at E l = Some n'" "evals E n' v"
      using Suc.prems(4) unfolding values_ok_def by blast
    then show ?thesis using Suc.prems Some by (simp add: value_step_def)
  next
    case None
    have "result_ok E {LimitsError} (raw_value E n) (value_of E (node_value k E) l n vs)"
    proof (rule value_of_ok[OF Suc.prems(1,4,3)])
      fix l' n' k' vs'
      assume "costs E n' k'" "c_depth k' < c_depth c" "node_at E l' = Some n'" "values_ok E vs'"
      then show "result_ok E {LimitsError} (evals E n') (node_value k E l' n' vs')"
        using Suc.IH[of n' k' l' vs'] Suc.prems(2) by simp
    qed
    then show ?thesis
      using None Suc.prems(3)
      by (cases "value_of E (node_value k E) l n vs")
        (auto simp: value_step_def fail_def evals_iff[of E n] values_ok_def dest: raw_value_functional)
  qed
qed

section \<open>The work of tables and charts\<close>

definition bare_table :: "node \<Rightarrow> bool" where   \<comment> \<open>\<open>Table()\<close>: \<open>node.args[0]\<close> is undefined\<close>
  "bare_table n = (case n of Comp name args fn \<Rightarrow> name = lit ''Table'' \<and> args = [] | _ \<Rightarrow> False)"

definition render_errors :: "node \<Rightarrow> jserr set" where
  "render_errors n = (if bare_table n then {LimitsError, TypeError} else {LimitsError})"

lemma costs_ok: "costs E n c \<Longrightarrow> cost_ok c"
  by (auto elim: costsE)

lemma argument_ok:
  assumes "list_all2 (costs E) args ks" and "node_at E l = Some (Comp name args fn)"
    and "j < length args" and "values_ok E vs"
  shows "result_ok E {LimitsError} (evals E (args ! j)) (node_value (call_depth E) E (child_loc l j) (args ! j) vs)"
proof (rule node_value_ok[OF _ _ _ assms(4)])
  show c: "costs E (args ! j) (ks ! j)" using assms(1,3) by (simp add: list_all2_conv_all_nth)
  then have "c_depth (ks ! j) \<le> 32" using costs_ok by (auto simp: cost_ok_def)
  then show "c_depth (ks ! j) \<le> call_depth E" by (simp add: call_depth_def)
  show "node_at E (child_loc l j) = Some (args ! j)" using node_at_child[OF assms(2)] assms(3) by simp
qed

lemma result_ok_weaken: "result_ok E es P r \<Longrightarrow> es \<subseteq> es' \<Longrightarrow> result_ok E es' P r"
  by (auto simp: result_ok_def split: sum.splits)

lemma table_values_ok:
  assumes "list_all2 (costs E) args ks" and "node_at E l = Some (Comp (lit ''Table'') args fn)"
    and "values_ok E vs"
  shows "result_ok E (render_errors (Comp (lit ''Table'') args fn)) (renders E (Comp (lit ''Table'') args fn))
    (table_values (node_value (call_depth E) E) l args vs)"
proof (cases args)
  case Nil
  then show ?thesis by (simp add: table_values_def renders_def render_errors_def bare_table_def)
next
  case (Cons a rest)
  have first: "result_ok E {LimitsError} (evals E a) (node_value (call_depth E) E (child_loc l 0) a vs)"
    using argument_ok[OF assms(1,2) _ assms(3), of 0] Cons by simp
  have es: "render_errors (Comp (lit ''Table'') args fn) = {LimitsError}"
    using Cons by (simp add: render_errors_def bare_table_def)
  show ?thesis
  proof (cases "node_value (call_depth E) E (child_loc l 0) a vs")
    case (Inl e)
    then show ?thesis using first es Cons by (auto simp: table_values_def renders_def)
  next
    case (Inr r)
    obtain columns vs1 where r: "r = (columns, vs1)" by (cases r)
    then have v: "evals E a columns" "values_ok E vs1" using first Inr by simp_all
    have cols: "evals E a v \<longleftrightarrow> v = columns" for v using v(1) evals_functional by blast
    show ?thesis
    proof (cases rest)
      case Nil
      then show ?thesis using Inr r v Cons es by (auto simp: table_values_def renders_def)
    next
      case (Cons b more)
      then have "result_ok E {LimitsError} (evals E b) (node_value (call_depth E) E (child_loc l 1) b vs1)"
        using argument_ok[OF assms(1,2) _ v(2), of 1] \<open>args = a # rest\<close> by simp
      then have "result_ok E {LimitsError} (renders E (Comp (lit ''Table'') args fn))
          (map_value (table_work columns) (node_value (call_depth E) E (child_loc l 1) b vs1))"
        by (rule result_ok_map) (auto simp: renders_def \<open>args = a # rest\<close> Cons cols)
      then show ?thesis using Inr r es Cons \<open>args = a # rest\<close> by (simp add: table_values_def)
    qed
  qed
qed

lemma not_chart_table: "\<not> is_chart (lit ''Table'')"
  by (simp add: is_chart_def ends_with_def lit_def)

lemma render_cost_ok:
  assumes "list_all2 (costs E) (kids n) ks" and "node_at E l = Some n" and "values_ok E vs"
  shows "result_ok E (render_errors n) (renders E n) (render_cost (node_value (call_depth E) E) l n vs)"
proof (cases n)
  case (Comp name args fn)
  consider "name = lit ''Table''" | "name \<noteq> lit ''Table''" "is_chart name" | "name \<noteq> lit ''Table''" "\<not> is_chart name"
    by blast
  then show ?thesis
  proof cases
    case 1
    then show ?thesis using table_values_ok assms Comp by simp
  next
    case 2
    have "result_ok E {LimitsError} (list_all2 (evals E) args) (value_list (node_value (call_depth E) E) l 0 args vs)"
      using value_list_ok[of args E "{LimitsError}" _ l 0, OF _ assms(3)] argument_ok assms Comp by simp
    then have "result_ok E {LimitsError} (renders E n)
        (map_value chart_work (value_list (node_value (call_depth E) E) l 0 args vs))"
      by (rule result_ok_map) (use 2 Comp in \<open>auto simp: renders_def\<close>)
    then show ?thesis using 2 Comp by (simp add: render_errors_def bare_table_def)
  next
    case 3
    then show ?thesis using Comp assms(3) by (auto simp: renders_def)
  qed
qed (use assms in \<open>simp_all add: renders_def\<close>)

section \<open>The recursion is bounded\<close>

definition paths :: "node \<Rightarrow> nat list set" where
  "paths n = {p. sub_node n p \<noteq> None}"

lemma paths_unfold: "paths n = insert [] (\<Union>i<length (kids n). (#) i ` paths (kids n ! i))"
proof (rule set_eqI)
  fix p show "p \<in> paths n \<longleftrightarrow> p \<in> insert [] (\<Union>i<length (kids n). (#) i ` paths (kids n ! i))"
    by (cases p) (auto simp: paths_def)
qed

lemma paths_total: "finite (paths n) \<and> card (paths n) \<le> node_total n"
proof (induction n rule: measure_induct_rule[of size])
  case (less n)
  have ih: "finite (paths (kids n ! i)) \<and> card (paths (kids n ! i)) \<le> node_total (kids n ! i)"
    if "i < length (kids n)" for i
    using less kids_size nth_mem that by blast
  have "card (\<Union>i<length (kids n). (#) i ` paths (kids n ! i)) \<le> (\<Sum>i<length (kids n). card ((#) i ` paths (kids n ! i)))"
    by (rule card_UN_le) simp
  also have "\<dots> \<le> (\<Sum>i<length (kids n). node_total (kids n ! i))"
    by (rule sum_mono) (use ih in \<open>auto intro: order_trans[OF card_image_le]\<close>)
  also have "\<dots> = sum_list (map node_total (kids n))"
    by (simp add: sum_list_sum_nth atLeast0LessThan)
  finally show ?case
    using ih by (subst (1 2) paths_unfold) (auto simp: node_total.simps[of n] card_insert_if)
qed

definition locations :: "view \<Rightarrow> loc set" where
  "locations E = {l. node_at E l \<noteq> None}"

lemma locations_total: "finite (locations E) \<and> card (locations E) < call_depth E"
proof -
  have sub: "locations E \<subseteq> (\<Union>d \<in> set (v_defs E). Pair (fst d) ` paths (snd d))"
    by (force simp: locations_def node_at_def paths_def dest: map_of_SomeD split: option.splits)
  have "card (\<Union>d \<in> set ds. Pair (fst d) ` paths (snd d)) \<le> sum_list (map (\<lambda>d. node_total (snd d)) ds)"
    for ds :: definitions
  proof (induction ds)
    case (Cons d ds)
    have "card (Pair (fst d) ` paths (snd d)) \<le> node_total (snd d)"
      using paths_total[of "snd d"] card_image_le order_trans by blast
    then show ?case
      using Cons card_Un_le[of "Pair (fst d) ` paths (snd d)" "\<Union>d \<in> set ds. Pair (fst d) ` paths (snd d)"] by simp
  qed simp
  note card = this[of "v_defs E"]
  have fin: "finite (\<Union>d \<in> set (v_defs E). Pair (fst d) ` paths (snd d))"
    using paths_total by blast
  show ?thesis
    using finite_subset[OF sub fin] card_mono[OF fin sub] card by (simp add: call_depth_def)
qed

section \<open>The budget\<close>

definition budget_inv :: "view \<Rightarrow> budget_state \<Rightarrow> bool" where
  "budget_inv E st \<longleftrightarrow> values_ok E (b_values st) \<and>
     (\<forall>l c. b_memo st l = Some c \<longrightarrow> (\<exists>n. node_at E l = Some n \<and> costs E n c))"

text \<open>A location on the visiting set is an ancestor: it would cost more than what is below it.\<close>

definition blocked :: "view \<Rightarrow> loc list \<Rightarrow> cost \<Rightarrow> bool" where
  "blocked E ls c \<longleftrightarrow> (\<exists>l \<in> set ls. \<exists>n c'. node_at E l = Some n \<and> costs E n c' \<and> c_depth c' \<le> c_depth c)"

definition budget_error :: "view \<Rightarrow> jserr \<Rightarrow> bool" where
  "budget_error E e \<longleftrightarrow> e = LimitsError \<or> e = TypeError \<and> (\<exists>l n. node_at E l = Some n \<and> bare_table n)"

definition budget_ok :: "view \<Rightarrow> loc list \<Rightarrow> node \<Rightarrow> jserr + cost \<times> budget_state \<Rightarrow> bool" where
  "budget_ok E ls n r =
     (case r of Inl e \<Rightarrow> budget_error E e \<and> (\<forall>c. costs E n c \<longrightarrow> blocked E ls c)
      | Inr (c, st) \<Rightarrow> costs E n c \<and> budget_inv E st \<and> b_visiting st = ls)"

definition parts_ok :: "view \<Rightarrow> loc list \<Rightarrow> node list \<Rightarrow> cost \<Rightarrow> jserr + cost \<times> budget_state \<Rightarrow> bool" where
  "parts_ok E ls ns c r =
     (case r of
        Inl e \<Rightarrow> budget_error E e \<and> (\<forall>ks. list_all2 (costs E) ns ks \<longrightarrow> cost_ok (foldl add_cost c ks) \<longrightarrow>
          (\<exists>k \<in> set ks. blocked E ls k))
      | Inr (c', st) \<Rightarrow> (\<exists>ks. list_all2 (costs E) ns ks \<and> c' = foldl add_cost c ks) \<and> budget_inv E st \<and>
          b_visiting st = ls)"

lemma budget_error_limits [simp]: "budget_error E LimitsError"
  by (simp add: budget_error_def)

lemma parts_ok_Cons:
  assumes "parts_ok E ls ns (add_cost c d) r" and "\<And>k. costs E n k \<longleftrightarrow> k = d"
  shows "parts_ok E ls (n # ns) c r"
proof (cases r)
  case (Inl e)
  then show ?thesis using assms by (auto simp: parts_ok_def list_all2_Cons1)
next
  case (Inr x)
  obtain c' st where x: "x = (c', st)" by (cases x)
  then obtain ks where ks: "list_all2 (costs E) ns ks" "c' = foldl add_cost (add_cost c d) ks"
    and st: "budget_inv E st" "b_visiting st = ls"
    using assms(1) Inr by (auto simp: parts_ok_def)
  have "list_all2 (costs E) (n # ns) (d # ks)" "c' = foldl add_cost c (d # ks)"
    using ks assms(2) by simp_all
  then show ?thesis using Inr x st by (auto simp: parts_ok_def intro!: exI[of _ "d # ks"])
qed

lemma budget_parts_ok:
  assumes f: "\<And>l n st. (l, n) \<in> set ps \<Longrightarrow> budget_inv E st \<Longrightarrow> b_visiting st = ls \<Longrightarrow> budget_ok E ls n (f l n st)"
    and st: "budget_inv E st" "b_visiting st = ls"
  shows "parts_ok E ls (map snd ps) c (budget_parts f ps c st)"
  using assms
proof (induction ps arbitrary: c st)
  case Nil
  then show ?case by (simp add: parts_ok_def)
next
  case (Cons p ps)
  obtain l n where p: "p = (l, n)" by (cases p)
  have first: "budget_ok E ls n (f l n st)" using Cons.prems p by simp
  show ?case
  proof (cases "f l n st")
    case (Inl e)
    then show ?thesis using first p by (auto simp: parts_ok_def budget_ok_def list_all2_Cons1)
  next
    case (Inr r)
    obtain d st1 where r: "r = (d, st1)" by (cases r)
    then have d: "costs E n d" "budget_inv E st1" "b_visiting st1 = ls"
      using first Inr by (simp_all add: budget_ok_def)
    have only: "\<And>k. costs E n k \<longleftrightarrow> k = d" using d(1) costs_functional by blast
    show ?thesis
    proof (cases "cost_ok (add_cost c d)")
      case True
      have "parts_ok E ls (map snd ps) (add_cost c d) (budget_parts f ps (add_cost c d) st1)"
        by (rule Cons.IH[OF _ d(2,3)]) (use Cons.prems(1) in simp)
      from parts_ok_Cons[OF this only] show ?thesis
        using Inr r p True by (simp add: check_cost_iff)
    next
      case False
      have "\<not> cost_ok (foldl add_cost (add_cost c d) ks)" for ks
        using False cost_ok_le[OF _ foldl_add_cost_le] by blast
      then show ?thesis
        using Inr r p False only by (auto simp: parts_ok_def check_cost_iff fail_def list_all2_Cons1)
    qed
  qed
qed

lemma finish_ok:
  assumes cs: "children (v_lib E) n = Inr cs" and ps: "part_nodes E n cs = Some ns"
    and ks: "list_all2 (costs E) ns ks" and l: "node_at E l = Some n"
    and st: "budget_inv E st" "b_visiting st = l # ls" "l \<notin> set ls"
  shows "budget_ok E ls n
    (budget_finish E (node_value (call_depth E) E) l n (foldl add_cost (start_cost n) ks) st)"
proof -
  have "\<exists>ks. list_all2 (costs E) (kids n) ks"
    using ks ps children_kids[OF cs] by (cases n) (auto simp: part_nodes_def)
  then have render: "result_ok E (render_errors n) (renders E n)
      (render_cost (node_value (call_depth E) E) l n (b_values st))"
    using render_cost_ok[OF _ l] st(1) by (auto simp: budget_inv_def)
  have only: "costs E n c \<Longrightarrow> \<exists>r. renders E n r \<and> c = total_cost E n ks r \<and> cost_ok c" for c
    using cs ps list_all2_fun[OF costs_functional ks] by (auto elim!: costsE)
  show ?thesis
  proof (cases "render_cost (node_value (call_depth E) E) l n (b_values st)")
    case (Inl e)
    then have "e \<in> render_errors n" and none: "\<And>r. \<not> renders E n r" using render by simp_all
    then have "e = LimitsError \<or> e = TypeError \<and> bare_table n" by (auto simp: render_errors_def split: if_splits)
    then have "budget_error E e" using l unfolding budget_error_def by blast
    then show ?thesis using Inl none only by (fastforce simp: budget_finish_def budget_ok_def)
  next
    case (Inr x)
    obtain r vs where x: "x = (r, vs)" by (cases x)
    then have r: "renders E n r" "values_ok E vs" using render Inr by simp_all
    show ?thesis
    proof (cases "cost_ok (total_cost E n ks r)")
      case True
      then have "costs E n (total_cost E n ks r)" using costs_node cs ps ks r(1) by blast
      then show ?thesis
        using Inr x r st l True
        by (auto simp: budget_finish_def budget_ok_def budget_inv_def check_cost_iff total_cost_def[symmetric] removeAll_id)
    next
      case False
      then have "\<not> costs E n c" for c using only renders_functional r(1) by blast
      then show ?thesis
        using Inr x False by (auto simp: budget_finish_def budget_ok_def check_cost_iff total_cost_def[symmetric] fail_def)
    qed
  qed
qed

lemma parts_at:
  assumes "children (v_lib E) n = Inr cs" and "node_at E l = Some n"
  shows "(case part_nodes E n cs of None \<Rightarrow> node_parts E l n cs = fail
    | Some ns \<Rightarrow> \<exists>ps. node_parts E l n cs = Inr ps \<and> map snd ps = ns \<and>
        (\<forall>(l', n') \<in> set ps. node_at E l' = Some n'))"
proof (cases "\<exists>x. n = Ref x")
  case True
  then show ?thesis
    by (auto simp: part_nodes_def node_parts_def node_at_definition split: option.splits)
next
  case False
  have "\<forall>(l', n') \<in> set (zip (map (child_loc l) [0..<length cs]) cs). node_at E l' = Some n'"
    using node_at_child[OF assms(2)] children_kids[OF assms(1)] by (auto simp: set_zip)
  then show ?thesis using False by (cases n) (auto simp: part_nodes_def node_parts_def)
qed

lemma budget_step_parts:
  assumes cs: "children (v_lib E) n = Inr cs" and ps: "part_nodes E n cs = Some ns"
    and parts: "parts_ok E (l # ls) ns (start_cost n) r" and l: "node_at E l = Some n" "l \<notin> set ls"
  shows "budget_ok E ls n (case r of Inl e \<Rightarrow> Inl e
    | Inr (c, st') \<Rightarrow> budget_finish E (node_value (call_depth E) E) l n c st')"
proof (cases r)
  case (Inl e)
  have "blocked E ls c" if c: "costs E n c" for c
  proof -
    obtain ks r' where ks: "list_all2 (costs E) ns ks" "c = total_cost E n ks r'" "cost_ok c"
      using c by (rule costsE) (use cs ps in auto)
    then have "cost_ok (foldl add_cost (start_cost n) ks)"
      using cost_ok_le total_cost_le by blast
    then obtain k where k: "k \<in> set ks" "blocked E (l # ls) k"
      using parts Inl ks(1) by (auto simp: parts_ok_def)
    then have less: "c_depth k < c_depth c" using total_cost_part ks(2) by simp
    obtain l' n' c' where b: "l' \<in> set (l # ls)" "node_at E l' = Some n'" "costs E n' c'" "c_depth c' \<le> c_depth k"
      using k(2) unfolding blocked_def by blast
    have "l' \<noteq> l"
    proof
      assume "l' = l"
      then have "c' = c" using b l(1) c costs_functional by simp
      then show False using b(4) less by simp
    qed
    then have "l' \<in> set ls" "c_depth c' \<le> c_depth c" using b less by simp_all
    then show ?thesis using b(2,3) unfolding blocked_def by blast
  qed
  then show ?thesis using Inl parts by (simp add: parts_ok_def budget_ok_def)
next
  case (Inr x)
  obtain c st where x: "x = (c, st)" by (cases x)
  then obtain ks where ks: "list_all2 (costs E) ns ks" "c = foldl add_cost (start_cost n) ks"
    and st: "budget_inv E st" "b_visiting st = l # ls"
    using parts Inr by (auto simp: parts_ok_def)
  then show ?thesis using finish_ok[OF cs ps ks(1) l(1) st l(2)] Inr x by simp
qed

lemma budget_expand:
  assumes inv: "budget_inv E st" and at: "node_at E l = Some n"
    and memo: "b_memo st l = None" and fresh: "l \<notin> set (b_visiting st)" and cs: "children (v_lib E) n = Inr cs"
    and rest: "\<And>l' n' st'. budget_inv E st' \<Longrightarrow> node_at E l' = Some n' \<Longrightarrow> b_visiting st' = l # b_visiting st \<Longrightarrow>
      budget_ok E (b_visiting st') n' (budget k E l' n' st')"
  shows "budget_ok E (b_visiting st) n (budget (Suc k) E l n st)"
proof (cases "part_nodes E n cs")
  case None
  then show ?thesis
    using parts_at[OF cs at] memo fresh cs by (auto simp: budget_step_def budget_ok_def fail_def elim!: costsE)
next
  case (Some ns)
  let ?ls = "l # b_visiting st"
  obtain ps where ps: "node_parts E l n cs = Inr ps" "map snd ps = ns"
    "\<forall>(l', n') \<in> set ps. node_at E l' = Some n'"
    using Some parts_at[OF cs at] by auto
  have "budget_ok E ?ls n' (budget k E l' n' st')"
    if "(l', n') \<in> set ps" "budget_inv E st'" "b_visiting st' = ?ls" for l' n' st'
    using rest[of st' l' n'] ps(3) that by auto
  then have "parts_ok E ?ls ns (start_cost n)
      (budget_parts (budget k E) ps (start_cost n) (st\<lparr>b_visiting := ?ls\<rparr>))"
    using budget_parts_ok[of ps E ?ls "budget k E" "st\<lparr>b_visiting := ?ls\<rparr>"] ps(2) inv
    by (simp add: budget_inv_def)
  then show ?thesis
    using budget_step_parts[OF cs Some _ at fresh] memo fresh cs ps(1) by (simp add: budget_step_def)
qed

lemma budget_correct:
  "budget_inv E st \<Longrightarrow> node_at E l = Some n \<Longrightarrow> card (locations E - set (b_visiting st)) < k \<Longrightarrow>
     budget_ok E (b_visiting st) n (budget k E l n st)"
proof (induction k arbitrary: l n st)
  case 0
  then show ?case by simp
next
  case (Suc k)
  show ?case
  proof (cases "b_memo st l = None \<and> l \<notin> set (b_visiting st)")
    case False
    have "\<exists>n'. node_at E l = Some n' \<and> costs E n' c" if "b_memo st l = Some c" for c
      using Suc.prems(1) that unfolding budget_inv_def by blast
    then show ?thesis
      using False Suc.prems(1,2)
      by (cases "b_memo st l") (auto simp: budget_step_def budget_ok_def fail_def blocked_def)
  next
    case fresh: True
    have "card (locations E - set (l # b_visiting st)) < card (locations E - set (b_visiting st))"
      by (rule psubset_card_mono) (use locations_total fresh Suc.prems(2) in \<open>auto simp: locations_def\<close>)
    then have rest: "budget_ok E (b_visiting st') n' (budget k E l' n' st')"
      if "budget_inv E st'" "node_at E l' = Some n'" "b_visiting st' = l # b_visiting st" for l' n' st'
      using Suc.IH[OF that(1,2)] Suc.prems(3) that(3) by simp
    show ?thesis
    proof (cases "children (v_lib E) n")
      case (Inl e)
      then show ?thesis
        using fresh children_error[OF Inl] by (auto simp: budget_step_def budget_ok_def elim!: costsE)
    next
      case (Inr cs)
      have "b_memo st l = None" "l \<notin> set (b_visiting st)" using fresh by simp_all
      from budget_expand[OF Suc.prems(1,2) this Inr rest] show ?thesis .
    qed
  qed
qed

end
