(* ===== verification/Preflight_Serialize.thy ===== *)
theory Preflight_Serialize
  imports Preflight_Simulation
begin

text \<open>
  \<open>preflight.mjs\<close>, \<open>serialize\<close>: the canonical text, in which every reference is replaced by
  the definition it names. It is the print of the expansion of the tree, and the expansion is as
  small as the cost of the tree says.
\<close>

section \<open>The printer\<close>

fun serialize_list :: "(node \<Rightarrow> jserr + jsstr) \<Rightarrow> node list \<Rightarrow> jserr + jsstr list" where
  "serialize_list f [] = Inr []"
| "serialize_list f (n # ns) = bindE (f n) (\<lambda>s. bindE (serialize_list f ns) (\<lambda>ss. Inr (s # ss)))"

definition entry_text :: "jsstr \<Rightarrow> jsstr \<Rightarrow> jsstr" where
  "entry_text key s = quote (JStr key) @ [58] @ s"

definition comma_join :: "jsstr list \<Rightarrow> jsstr" where
  "comma_join ss = join_with [44] ss"

definition call_text :: "jsstr \<Rightarrow> jsstr list \<Rightarrow> jsstr" where
  "call_text name ss = name @ [40] @ comma_join ss @ [41]"

definition array_text :: "jsstr list \<Rightarrow> jsstr" where
  "array_text ss = [91] @ comma_join ss @ [93]"

definition object_text :: "jsstr list \<Rightarrow> jsstr list \<Rightarrow> jsstr" where
  "object_text ks ss = [123] @ comma_join (map2 entry_text ks ss) @ [125]"

definition index_text :: "jsstr \<Rightarrow> jsstr \<Rightarrow> jsstr" where
  "index_text s key = s @ [91] @ key @ [93]"

fun serialize_step :: "view \<Rightarrow> (node \<Rightarrow> jserr + jsstr) \<Rightarrow> node \<Rightarrow> jserr + jsstr" where
  "serialize_step E f (Comp name args fn) = bindE (serialize_list f args) (\<lambda>ss. Inr (call_text name ss))"
| "serialize_step E f (Ref x) =
     (case map_of (v_defs E) x of None \<Rightarrow> Inl TypeError | Some d \<Rightarrow> f d)"
| "serialize_step E f (StateRef s) = Inr s"
| "serialize_step E f (Member obj field) = bindE (f obj) (\<lambda>s. Inr (index_text s (quote (JStr field))))"
| "serialize_step E f (Index obj index) =
     bindE (f obj) (\<lambda>s. bindE (f index) (\<lambda>i. Inr (index_text s i)))"
| "serialize_step E f (Arr els) = bindE (serialize_list f els) (\<lambda>ss. Inr (array_text ss))"
| "serialize_step E f (Obj entries) =
     bindE (serialize_list f (map snd entries)) (\<lambda>ss. Inr (object_text (map fst entries) ss))"
| "serialize_step E f (UnaryOp op operand) =
     Inr (num_str (case operand of Num x \<Rightarrow> num_neg x | _ \<Rightarrow> NaN))"
| "serialize_step E f Null = Inr (lit ''null'')"
| "serialize_step E f (Str s) = Inr (quote (JStr s))"
| "serialize_step E f (Num x) = Inr (quote (JNum x))"
| "serialize_step E f (Bool b) = Inr (quote (JBool b))"
| "serialize_step E f n = Inl TypeError"   \<comment> \<open>\<open>JSON.stringify(undefined).replaceAll\<close>\<close>

primrec serialize :: "nat \<Rightarrow> view \<Rightarrow> node \<Rightarrow> jserr + jsstr" where
  "serialize 0 E n = Inl RangeError"
| "serialize (Suc k) E n = serialize_step E (serialize k E) n"

section \<open>Expansion\<close>

text \<open>The tree with every reference replaced by the expansion of what it names.\<close>

fun with_kids :: "node \<Rightarrow> node list \<Rightarrow> node" where
  "with_kids (Comp name args fn) ms = Comp name ms fn"
| "with_kids (Arr els) ms = Arr ms"
| "with_kids (Obj entries) ms = Obj (zip (map fst entries) ms)"
| "with_kids (Member obj field) ms = Member (hd ms) field"
| "with_kids (Index obj index) ms = Index (hd ms) (hd (tl ms))"
| "with_kids (UnaryOp op operand) ms = UnaryOp op (hd ms)"
| "with_kids n ms = n"

definition is_ref :: "node \<Rightarrow> bool" where
  "is_ref n = (case n of Ref _ \<Rightarrow> True | _ \<Rightarrow> False)"

inductive expands :: "view \<Rightarrow> node \<Rightarrow> node \<Rightarrow> bool" for E where
  expands_ref: "map_of (v_defs E) x = Some d \<Longrightarrow> expands E d m \<Longrightarrow> expands E (Ref x) m"
| expands_node: "\<not> is_ref n \<Longrightarrow> list_all2 (expands E) (kids n) ms \<Longrightarrow> expands E n (with_kids n ms)"

text \<open>The text of a tree without references.\<close>

function tree_text :: "node \<Rightarrow> jsstr" where
  "tree_text n =
     (case n of
        Comp name args fn \<Rightarrow> call_text name (map tree_text args)
      | StateRef s \<Rightarrow> s
      | Member obj field \<Rightarrow> index_text (tree_text obj) (quote (JStr field))
      | Index obj index \<Rightarrow> index_text (tree_text obj) (tree_text index)
      | Arr els \<Rightarrow> array_text (map tree_text els)
      | Obj entries \<Rightarrow> object_text (map fst entries) (map (\<lambda>e. tree_text (snd e)) entries)
      | UnaryOp op operand \<Rightarrow> num_str (case operand of Num x \<Rightarrow> num_neg x | _ \<Rightarrow> NaN)
      | Str s \<Rightarrow> quote (JStr s)
      | Num x \<Rightarrow> quote (JNum x)
      | Bool b \<Rightarrow> quote (JBool b)
      | _ \<Rightarrow> lit ''null'')"
  by pat_completeness auto
termination
  by (relation "measure size")
    (use kids_size[of _ "Comp _ _ _"] kids_size[of _ "Arr _"] kids_size[of _ "Obj _"] in \<open>fastforce+\<close>)

declare tree_text.simps [simp del]

text \<open>How large a tree is: its nodes with the cost of its texts, its components, its depth.\<close>

definition own_weight :: "node \<Rightarrow> nat" where
  "own_weight n = (case n of Str s \<Rightarrow> text_cost s | Member _ field \<Rightarrow> 1 + text_cost field | _ \<Rightarrow> 1)"

definition is_comp :: "node \<Rightarrow> bool" where
  "is_comp n = (case n of Comp _ _ _ \<Rightarrow> True | _ \<Rightarrow> False)"

function tree_weight :: "node \<Rightarrow> nat" where
  "tree_weight n = own_weight n + sum_list (map tree_weight (kids n))"
  by pat_completeness auto
termination by (relation "measure size") (auto simp: kids_size)

function tree_components :: "node \<Rightarrow> nat" where
  "tree_components n = of_bool (is_comp n) + sum_list (map tree_components (kids n))"
  by pat_completeness auto
termination by (relation "measure size") (auto simp: kids_size)

function tree_depth :: "node \<Rightarrow> nat" where
  "tree_depth n = Suc (foldr max (map tree_depth (kids n)) 0)"
  by pat_completeness auto
termination by (relation "measure size") (auto simp: kids_size)

text \<open>Every node of the tree is one the renderer knows: no reference, no builtin, no reserved key.\<close>

function tree_safe :: "jsstr list \<Rightarrow> node \<Rightarrow> bool" where
  "tree_safe lib n \<longleftrightarrow> \<not> is_ref n \<and> children lib n \<noteq> fail \<and> list_all (tree_safe lib) (kids n)"
  by pat_completeness auto
termination by (relation "measure (\<lambda>(lib, n). size n)") (auto simp: kids_size)

declare tree_weight.simps [simp del] tree_components.simps [simp del] tree_depth.simps [simp del]
  tree_safe.simps [simp del]

section \<open>The expansion of a tree that has a cost\<close>

lemma kids_with_kids: "length ms = length (kids n) \<Longrightarrow> kids (with_kids n ms) = ms"
  by (cases n) (auto simp: length_Suc_conv)

lemma with_kids_self: "with_kids n (kids n) = n"
  by (cases n) (auto simp: zip_map_fst_snd)

lemma with_kids_head [simp]:
  "own_weight (with_kids n ms) = own_weight n" "is_comp (with_kids n ms) = is_comp n"
  "is_ref (with_kids n ms) = is_ref n"
  by (cases n; simp add: own_weight_def is_comp_def is_ref_def)+

lemma foldl_add_cost_sums:
  "c_nodes (foldl add_cost c ks) = c_nodes c + sum_list (map c_nodes ks)"
  "c_components (foldl add_cost c ks) = c_components c + sum_list (map c_components ks)"
  by (induction ks arbitrary: c) (auto simp: add_cost_def)

lemma total_cost_weight: "own_weight n + sum_list (map c_nodes ks) \<le> c_nodes (total_cost E n ks r)"
  by (cases n) (simp_all add: total_cost_def close_cost_def foldl_add_cost_sums start_cost_def
      own_weight_def extra_nodes_def)

lemma total_cost_components:
  "c_components (total_cost E n ks r) = of_bool (is_comp n) + sum_list (map c_components ks)"
  by (cases n) (simp_all add: total_cost_def close_cost_def foldl_add_cost_sums start_cost_def is_comp_def)

lemma sum_list_nth_mono:
  fixes f :: "'a \<Rightarrow> nat"
  assumes "length ms = length ks" and "\<And>i. i < length ks \<Longrightarrow> f (ms ! i) \<le> g (ks ! i)"
  shows "sum_list (map f ms) \<le> sum_list (map g ks)"
  using assms by (auto simp: sum_list_sum_nth intro: sum_mono)

lemma foldr_max_le: "foldr max xs (0 :: nat) < b \<longleftrightarrow> 0 < b \<and> (\<forall>x \<in> set xs. x < b)"
  by (induction xs) auto

lemma serialize_list_text:
  "(\<And>i. i < length ns \<Longrightarrow> f (ns ! i) = Inr (g (ms ! i))) \<Longrightarrow> length ms = length ns \<Longrightarrow>
     serialize_list f ns = Inr (map g ms)"
proof (induction ns arbitrary: ms)
  case (Cons n ns)
  then obtain m ms' where ms: "ms = m # ms'" "length ms' = length ns" by (cases ms) auto
  have "f n = Inr (g m)" using Cons.prems(1)[of 0] ms by simp
  moreover have "serialize_list f ns = Inr (map g ms')"
    using Cons.IH[of ms'] Cons.prems(1)[of "Suc _"] ms by fastforce
  ultimately show ?case using ms by simp
qed simp

lemma serialize_step_text:
  assumes cs: "children lib n = Inr cs" and ref: "\<not> is_ref n" and len: "length ms = length (kids n)"
    and f: "\<And>i. i < length (kids n) \<Longrightarrow> f (kids n ! i) = Inr (tree_text (ms ! i))"
    and leaf: "\<And>i. i < length (kids n) \<Longrightarrow> kids (kids n ! i) = [] \<Longrightarrow> \<not> is_ref (kids n ! i) \<Longrightarrow> ms ! i = kids n ! i"
  shows "serialize_step E f n = Inr (tree_text (with_kids n ms))"
proof -
  have list: "serialize_list f (kids n) = Inr (map tree_text ms)"
    by (rule serialize_list_text[where g = tree_text]) (use f len in simp_all)
  show ?thesis
  proof (cases n)
    case (Obj entries)
    have "map (tree_text \<circ> snd) (zip (map fst entries) ms) = map tree_text (map snd (zip (map fst entries) ms))"
      by (simp only: map_map)
    also have "\<dots> = map tree_text ms" using len Obj by simp
    finally have "map (\<lambda>e. tree_text (snd e)) (zip (map fst entries) ms) = map tree_text ms"
      by (simp only: comp_def)
    then show ?thesis
      using Obj list len by (simp add: tree_text.simps[of "Obj _"])
  next
    case (Member obj field)
    then show ?thesis using f[of 0] len by (cases ms) (auto simp: tree_text.simps[of "Member _ _"])
  next
    case (Index obj index)
    then obtain a b where "ms = [a, b]" using len by (auto simp: length_Suc_conv)
    then show ?thesis using f[of 0] f[of 1] Index by (simp add: tree_text.simps[of "Index _ _"])
  next
    case (UnaryOp op operand)
    then obtain x where "operand = Num x" using cs by (cases operand) (auto simp: fail_def is_num_node_def split: if_splits)
    then show ?thesis
      using UnaryOp leaf[of 0] len by (cases ms) (auto simp: tree_text.simps[of "UnaryOp _ _"] is_ref_def)
  qed (use cs ref list in \<open>auto simp: tree_text.simps is_ref_def fail_def\<close>)
qed

lemma ex_unsafe_map: "list_ex (\<lambda>e. unsafe_key (fst e)) es = list_ex unsafe_key (map fst es)"
  by (induction es) auto

lemma children_with_kids:
  assumes "children lib n = Inr cs" and "length ms = length (kids n)"
    and "\<And>i. i < length (kids n) \<Longrightarrow> kids (kids n ! i) = [] \<Longrightarrow> \<not> is_ref (kids n ! i) \<Longrightarrow> ms ! i = kids n ! i"
  shows "children lib (with_kids n ms) \<noteq> fail"
proof (cases n)
  case (Index obj index)
  then obtain a b where "ms = [a, b]" using assms(2) by (auto simp: length_Suc_conv)
  moreover have "b = index"
    using assms(1) assms(3)[of 1] Index calculation
    by (cases index) (auto simp: fail_def is_literal_key_def is_ref_def split: if_splits)
  ultimately show ?thesis using assms(1) Index by (auto simp: fail_def split: if_splits)
next
  case (UnaryOp op operand)
  then obtain a where "ms = [a]" using assms(2) by (auto simp: length_Suc_conv)
  moreover have "a = operand"
    using assms(1) assms(3)[of 0] UnaryOp calculation
    by (cases operand) (auto simp: fail_def is_num_node_def is_ref_def split: if_splits)
  ultimately show ?thesis using assms(1) UnaryOp by (auto simp: fail_def split: if_splits)
next
  case (Obj entries)
  have "map fst (zip (map fst entries) ms) = map fst entries" using assms(2) Obj by simp
  then have "list_ex (\<lambda>e. unsafe_key (fst e)) (zip (map fst entries) ms) = list_ex (\<lambda>e. unsafe_key (fst e)) entries"
    by (simp only: ex_unsafe_map)
  then show ?thesis using assms(1) Obj by (simp add: fail_def split: if_splits)
qed (use assms(1) in \<open>auto simp: fail_def split: if_splits\<close>)

definition expansion_ok :: "view \<Rightarrow> node \<Rightarrow> cost \<Rightarrow> node \<Rightarrow> bool" where
  "expansion_ok E n c m \<longleftrightarrow> expands E n m \<and> tree_safe (v_lib E) m \<and> tree_weight m \<le> c_nodes c \<and>
     tree_components m \<le> c_components c \<and> tree_depth m \<le> c_depth c \<and>
     (\<forall>k. c_depth c \<le> k \<longrightarrow> serialize k E n = Inr (tree_text m)) \<and>
     (kids n = [] \<longrightarrow> \<not> is_ref n \<longrightarrow> m = n)"

lemma expansion_node:
  assumes cs: "children (v_lib E) n = Inr cs" and ref: "\<not> is_ref n" and len: "length ms = length (kids n)" "length ks = length (kids n)"
    and ok: "\<And>i. i < length (kids n) \<Longrightarrow> expansion_ok E (kids n ! i) (ks ! i) (ms ! i)"
  shows "expansion_ok E n (total_cost E n ks r) (with_kids n ms)"
proof -
  let ?m = "with_kids n ms" and ?c = "total_cost E n ks r"
  have kids: "kids ?m = ms" using kids_with_kids len by simp
  have leaf: "ms ! i = kids n ! i" if "i < length (kids n)" "kids (kids n ! i) = []" "\<not> is_ref (kids n ! i)" for i
    using ok[OF that(1)] that by (simp add: expansion_ok_def)
  have "expands E n ?m"
    using ref ok len by (auto intro!: expands_node simp: list_all2_conv_all_nth expansion_ok_def)
  moreover have "tree_safe (v_lib E) ?m"
    using ref children_with_kids[OF cs len(1) leaf] ok len kids
    by (subst tree_safe.simps) (simp add: list_all_length expansion_ok_def)
  moreover have "tree_weight ?m \<le> c_nodes ?c"
    using total_cost_weight[of n ks E r] sum_list_nth_mono[of ms ks tree_weight c_nodes] ok len kids
    by (subst tree_weight.simps) (simp add: expansion_ok_def)
  moreover have "tree_components ?m \<le> c_components ?c"
    using total_cost_components[of E n ks r] sum_list_nth_mono[of ms ks tree_components c_components] ok len kids
    by (subst tree_components.simps) (simp add: expansion_ok_def)
  moreover have "tree_depth ?m \<le> c_depth ?c"
  proof -
    have "tree_depth (ms ! i) < c_depth ?c" if "i < length ms" for i
      using ok[of i] total_cost_part[of "ks ! i" ks E n r] that len by (fastforce simp: expansion_ok_def)
    moreover have "0 < c_depth ?c"
      using foldl_add_cost_le[of "start_cost n" ks] by (simp add: total_cost_def close_cost_def cost_le_def start_cost_def)
    ultimately show ?thesis
      using kids by (subst tree_depth.simps) (simp add: Suc_le_eq foldr_max_le all_set_conv_all_nth)
  qed
  moreover have "serialize k E n = Inr (tree_text ?m)" if k: "c_depth ?c \<le> k" for k
  proof (cases k)
    case 0
    then show ?thesis
      using foldl_add_cost_le[of "start_cost n" ks] k by (simp add: total_cost_def close_cost_def cost_le_def start_cost_def)
  next
    case (Suc k')
    have "serialize k' E (kids n ! i) = Inr (tree_text (ms ! i))" if "i < length (kids n)" for i
      using ok[OF that] total_cost_part[of "ks ! i" ks E n r] that len k Suc by (fastforce simp: expansion_ok_def)
    then show ?thesis using serialize_step_text[OF cs ref len(1) _ leaf] Suc by simp
  qed
  moreover have "kids n = [] \<longrightarrow> ?m = n" using len with_kids_self[of n] by auto
  ultimately show ?thesis by (simp add: expansion_ok_def)
qed

lemma expansion_ref:
  assumes "map_of (v_defs E) x = Some d" and "expansion_ok E d k m"
  shows "expansion_ok E (Ref x) (total_cost E (Ref x) [k] r) m"
proof -
  have "serialize j E (Ref x) = Inr (tree_text m)" if "Suc (c_depth k) \<le> j" for j
    using that assms by (cases j) (auto simp: expansion_ok_def)
  then show ?thesis
    using assms by (auto simp: expansion_ok_def total_cost_def close_cost_def add_cost_def start_cost_def
        is_ref_def intro: expands_ref)
qed

lemma costs_expansion: "costs E n c \<Longrightarrow> \<exists>m. expansion_ok E n c m"
proof (induction rule: costs.induct)
  case (costs_node n cs ns ks r)
  have len: "length ks = length ns" and ok: "\<forall>i<length ns. \<exists>m. expansion_ok E (ns ! i) (ks ! i) m"
    using costs_node.IH by (auto simp: list_all2_conv_all_nth)
  show ?case
  proof (cases "is_ref n")
    case True
    then obtain x d where x: "n = Ref x" "map_of (v_defs E) x = Some d" "ns = [d]"
      using costs_node.hyps(2) by (cases n) (auto simp: part_nodes_def is_ref_def)
    then obtain k m where "ks = [k]" "expansion_ok E d k m"
      using len ok by (auto simp: length_Suc_conv)
    then show ?thesis using expansion_ref x by blast
  next
    case False
    then have "ns = cs" using costs_node.hyps(2) by (cases n) (auto simp: part_nodes_def is_ref_def)
    then have "ns = kids n" using children_kids[OF costs_node.hyps(1)] by simp
    moreover obtain ms where "length ms = length ns" "\<forall>i<length ns. expansion_ok E (ns ! i) (ks ! i) (ms ! i)"
      using ok Skolem_list_nth[of "length ns" "\<lambda>i m. expansion_ok E (ns ! i) (ks ! i) m"] by auto
    ultimately show ?thesis
      using expansion_node[OF costs_node.hyps(1) False, of ms ks r] len by auto
  qed
qed

end
