(* ===== verification/Preflight.thy ===== *)
theory Preflight
  imports Preflight_Serialize
begin

text \<open>
  \<open>preflight.mjs\<close>, \<open>preflightView\<close> as a whole, its specification, and the theorem that it
  accepts exactly the views the specification admits.
\<close>

section \<open>The function\<close>

definition check_source :: "jsv \<Rightarrow> jserr + jsstr" where
  "check_source source =
     (case source of
        JStr s \<Rightarrow> if js_trim s = [] \<or> utf8_length s > lim_bytes limits then fail else Inr s
      | _ \<Rightarrow> fail)"

definition check_data :: "jsv \<Rightarrow> jserr + (data_path \<Rightarrow> nat option)" where
  "check_data data =
     (if \<not> is_object data \<or> is_array data then fail
      else case weigh [] data 0 weigh_start of
        Inl e \<Rightarrow> Inl e
      | Inr (w, st) \<Rightarrow>
          if utf8_length (json_text data) > lim_data_bytes limits then fail else Inr (data_weights st))"

definition root_name :: jsstr where
  "root_name = lit ''root''"

definition read_definitions :: "statement list \<Rightarrow> jserr + definitions" where
  "read_definitions statements =
     (if statements = [] \<or> length statements > lim_statements limits then fail
      else case collect_definitions [] statements of
        Inl e \<Rightarrow> Inl e
      | Inr ds \<Rightarrow> if root_name \<notin> fst ` set ds then fail else Inr ds)"

text \<open>\<open>root?.component !== 'Stack'\<close>\<close>

definition is_stack :: "jsv \<Rightarrow> bool" where
  "is_stack v \<longleftrightarrow> \<not> nullish v \<and> strict_eq (prop_or_undef v (lit ''component'')) (JStr (lit ''Stack''))"

definition finish_view :: "view \<Rightarrow> node \<Rightarrow> budget_state \<Rightarrow> jserr + jsstr" where
  "finish_view E root st =
     (case node_value (call_depth E) E (root_name, []) root (b_values st) of
        Inl e \<Rightarrow> Inl e
      | Inr (v, vs) \<Rightarrow>
          if \<not> is_stack v then fail
          else case serialize (call_depth E) E root of
            Inl e \<Rightarrow> Inl e
          | Inr text \<Rightarrow>
              if utf8_length (lit ''root = '' @ text) > lim_bytes limits then fail
              else Inr (lit ''root = '' @ text))"

definition check_view :: "view \<Rightarrow> jserr + jsstr" where
  "check_view E =
     bindE (check_depth (v_lib E) (v_defs E)) (\<lambda>_.
     bindE (budget_all E (v_defs E) budget_start) (\<lambda>st.
       case map_of (v_defs E) root_name of None \<Rightarrow> Inl TypeError | Some root \<Rightarrow> finish_view E root st))"

definition preflight_view :: "jsstr list \<Rightarrow> jsv \<Rightarrow> jsv \<Rightarrow> jserr + jsstr" where
  "preflight_view lib source data =
     bindE (check_source source) (\<lambda>s.
     bindE (check_data data) (\<lambda>weights.
     bindE (check_tokens (tokenize s)) (\<lambda>_.
     bindE (read_definitions (split_statements (tokenize s))) (\<lambda>ds.
       check_view \<lparr>v_defs = ds, v_data = data, v_lib = lib, v_weights = weights\<rparr>))))"

section \<open>The specification\<close>

definition source_ok :: "jsstr \<Rightarrow> bool" where
  "source_ok s \<longleftrightarrow> (\<exists>c \<in> set s. \<not> is_space c) \<and> utf8_length s \<le> 65536"

definition document_ok :: "jsv \<Rightarrow> bool" where
  "document_ok data \<longleftrightarrow> is_object data \<and> \<not> is_array data \<and> clean_data data \<and>
     node_count data \<le> 10000 \<and> data_depth data \<le> 16 \<and> utf8_length (json_text data) \<le> 524288"

definition layout_ok :: "token list \<Rightarrow> bool" where
  "layout_ok ts \<longleftrightarrow> length ts \<le> 8192 \<and> nested 32 (map tok_t ts) \<and> operators_ok ts"

definition statements_ok :: "statement list \<Rightarrow> bool" where
  "statements_ok ss \<longleftrightarrow> ss \<noteq> [] \<and> length ss \<le> 128 \<and> distinct (map st_id ss) \<and> root_name \<in> st_id ` set ss \<and>
     (\<forall>s \<in> set ss. st_type s \<noteq> 18 \<and> \<not> unsafe_key (st_id s) \<and> (\<forall>x \<in> set (st_tokens s). tok_t x \<noteq> 9))"

definition definitions_of :: "statement list \<Rightarrow> definitions" where
  "definitions_of ss = map (\<lambda>s. (st_id s, parse_expression (st_tokens s))) ss"

definition weights_of :: "jsv \<Rightarrow> data_path \<Rightarrow> nat option" where
  "weights_of data p =
     (case value_at data p of Some x \<Rightarrow> if is_object x then Some (weight x) else None | None \<Rightarrow> None)"

definition view_of :: "jsstr list \<Rightarrow> jsstr \<Rightarrow> jsv \<Rightarrow> view" where
  "view_of lib s data = \<lparr>v_defs = definitions_of (split_statements (tokenize s)), v_data = data,
     v_lib = lib, v_weights = weights_of data\<rparr>"

text \<open>
  \<open>admits lib s data m\<close>: the view is within every limit, none of its definitions refers to
  itself, its root is a Stack, and \<open>m\<close> is its expansion.
\<close>

definition admits :: "jsstr list \<Rightarrow> jsstr \<Rightarrow> jsv \<Rightarrow> node \<Rightarrow> bool" where
  "admits lib s data m \<longleftrightarrow> source_ok s \<and> document_ok data \<and> layout_ok (tokenize s) \<and>
     statements_ok (split_statements (tokenize s)) \<and>
     (\<forall>(x, d) \<in> set (v_defs (view_of lib s data)). fits lib 1 d \<and> (\<exists>c. costs (view_of lib s data) d c)) \<and>
     (\<exists>v. evals (view_of lib s data) (Ref root_name) v \<and> is_stack v) \<and>
     expands (view_of lib s data) (Ref root_name) m \<and> utf8_length (lit ''root = '' @ tree_text m) \<le> 65536"

section \<open>The parts\<close>

lemma fail_neq [simp]: "fail \<noteq> Inr x" "Inr x \<noteq> fail"
  by (simp_all add: fail_def)

lemma check_source_iff: "check_source source = Inr s \<longleftrightarrow> source = JStr s \<and> source_ok s"
  by (auto simp: check_source_def source_ok_def js_trim_empty_iff split: jsv.splits if_splits)

lemma check_source_error: "check_source source = Inl e \<Longrightarrow> e = LimitsError"
  by (auto simp: check_source_def fail_def split: jsv.splits if_splits)

definition weights_fit :: "jsv \<Rightarrow> (data_path \<Rightarrow> nat option) \<Rightarrow> bool" where
  "weights_fit data W \<longleftrightarrow> (\<forall>p x. value_at data p = Some x \<longrightarrow> is_object x \<longrightarrow> W p = Some (weight x))"

lemma weights_of_fit: "weights_fit data (weights_of data)"
  by (simp add: weights_fit_def weights_of_def)

lemma weigh_start_ok: "data_ok data 0 weigh_start \<longleftrightarrow> clean_data data \<and> node_count data \<le> 10000 \<and> data_depth data \<le> 16"
  by (simp add: data_ok_def weigh_start_def)

lemma check_data_cases:
  "if document_ok data then \<exists>W. check_data data = Inr W \<and> weights_fit data W else check_data data = fail"
  using weigh_correct[of weigh_start "[]" data 0] weigh_start_ok[of data]
  by (auto simp: check_data_def document_ok_def weights_fit_def weigh_post_def weighs_def weigh_start_def fail_def split: if_splits)

lemma collect_definitions_iff:
  "collect_definitions ds ss = Inr ds' \<longleftrightarrow>
     distinct (map st_id ss) \<and> set (map st_id ss) \<inter> fst ` set ds = {} \<and>
     (\<forall>s \<in> set ss. st_type s \<noteq> 18 \<and> \<not> unsafe_key (st_id s) \<and> (\<forall>x \<in> set (st_tokens s). tok_t x \<noteq> 9)) \<and>
     ds' = ds @ definitions_of ss"
proof (induction ds ss rule: collect_definitions.induct)
  case (2 ds s ss)
  then show ?case by (auto simp: definitions_of_def list_ex_iff)
qed (auto simp: definitions_of_def)

lemma definitions_of_keys: "fst ` set (definitions_of ss) = st_id ` set ss" "map fst (definitions_of ss) = map st_id ss"
  by (auto simp: definitions_of_def image_image)

lemma read_definitions_iff: "read_definitions ss = Inr ds \<longleftrightarrow> statements_ok ss \<and> ds = definitions_of ss"
proof (cases "collect_definitions [] ss")
  case (Inl e)
  then have "\<not> statements_ok ss"
    using collect_definitions_iff[of "[]" ss "definitions_of ss"] by (auto simp: statements_ok_def)
  then show ?thesis using Inl by (simp add: read_definitions_def)
next
  case (Inr b)
  then have "distinct (map st_id ss)" and b: "b = definitions_of ss"
    and "\<forall>s \<in> set ss. st_type s \<noteq> 18 \<and> \<not> unsafe_key (st_id s) \<and> (\<forall>x \<in> set (st_tokens s). tok_t x \<noteq> 9)"
    by (simp_all add: collect_definitions_iff)
  then show ?thesis
    using Inr by (auto simp: read_definitions_def statements_ok_def definitions_of_keys(1) not_less)
qed

lemma read_definitions_error: "read_definitions ss = Inl e \<Longrightarrow> e = LimitsError"
  by (auto simp: read_definitions_def fail_def split: if_splits sum.splits dest: collect_definitions_error)

section \<open>The stored weights\<close>

text \<open>The meaning of a view depends on the stored weights only where the data has objects.\<close>

definition same_view :: "view \<Rightarrow> view \<Rightarrow> bool" where
  "same_view E E' \<longleftrightarrow> v_defs E' = v_defs E \<and> v_data E' = v_data E \<and> v_lib E' = v_lib E \<and>
     weights_fit (v_data E) (v_weights E) \<and> weights_fit (v_data E) (v_weights E')"

lemma same_view_sym: "same_view E E' \<Longrightarrow> same_view E' E"
  by (simp add: same_view_def)

lemma key_pos_entry: "map_of kvs k = Some v \<Longrightarrow> key_pos kvs k < length kvs \<and> snd (kvs ! key_pos kvs k) = v"
  by (induction kvs) (auto split: if_splits)

lemma stored_weight_correct:
  assumes "weights_fit (v_data E) (v_weights E)" and "v_data E = JObj kvs" and "is_object (own (v_data E) key)"
  shows "stored_weight E key = weight (own (v_data E) key)"
proof -
  obtain v where v: "map_of kvs key = Some v" "own (v_data E) key = v"
    using assms(2,3) by (auto simp: own_def split: option.splits)
  then have "value_at (v_data E) [key_pos kvs key] = Some v"
    using key_pos_entry[OF v(1)] assms(2) by simp
  then show ?thesis using assms v by (auto simp: stored_weight_def weights_fit_def)
qed

lemma evals_same: "evals E n v \<Longrightarrow> same_view E E' \<Longrightarrow> evals E' n v"
proof (induction rule: evals.induct)
  case (evals_state s)
  then show ?case using evals.evals_state[of E' s] by (simp add: same_view_def)
next
  case (evals_ref x d v)
  then show ?case using evals.evals_ref[of E' x d v] by (simp add: same_view_def)
next
  case (evals_arr els vs)
  then have "list_all2 (evals E') els vs" by (auto elim: list_all2_mono)
  then show ?case by (rule evals.evals_arr)
next
  case (evals_obj entries vs)
  then have "list_all2 (evals E') (map snd entries) vs" by (auto elim: list_all2_mono)
  then show ?case using evals_obj.hyps by (rule evals.evals_obj)
next
  case (evals_comp args vs name fn)
  then have "list_all2 (evals E') args vs" by (auto elim: list_all2_mono)
  then show ?case using evals_comp.hyps by (rule evals.evals_comp)
qed (auto intro: evals.intros)

lemma evals_same_iff: "same_view E E' \<Longrightarrow> evals E' = evals E"
  using evals_same same_view_sym by (fastforce simp: fun_eq_iff)

lemma costs_same:
  assumes "costs E n c" and same: "same_view E E'" and data: "v_data E = JObj kvs"
  shows "costs E' n c"
  using assms(1)
proof (induction rule: costs.induct)
  case (costs_node n cs ns ks r)
  have "stored_weight E' key = stored_weight E key" if "is_object (own (v_data E) key)" for key
    using stored_weight_correct[of E kvs key] stored_weight_correct[of E' kvs key] same data that
    by (simp add: same_view_def)
  then have "extra_nodes E' n = extra_nodes E n"
    using same by (cases n) (auto simp: extra_nodes_def datum_cost_def same_view_def split: jsv.splits)
  then have t: "total_cost E' n ks r = total_cost E n ks r"
    by (simp add: total_cost_def close_cost_def)
  have r: "renders E' n r" using costs_node.hyps(3) unfolding renders_def evals_same_iff[OF same] .
  have ns: "list_all2 (costs E') ns ks" using costs_node.IH by (auto elim: list_all2_mono)
  have "part_nodes E' n cs = part_nodes E n cs" using same by (cases n) (simp_all add: part_nodes_def same_view_def)
  then show ?case
    using costs.costs_node[OF _ _ ns r, of cs] costs_node.hyps same t by (simp add: same_view_def)
qed

lemma expands_same: "expands E n m \<Longrightarrow> v_defs E' = v_defs E \<Longrightarrow> expands E' n m"
proof (induction rule: expands.induct)
  case (expands_ref x d m)
  then show ?case using expands.expands_ref[of E' x d m] by simp
next
  case (expands_node n ms)
  then have "list_all2 (expands E') (kids n) ms" by (auto elim: list_all2_mono)
  then show ?case using expands_node.hyps by (intro expands.expands_node)
qed

section \<open>The whole function\<close>

lemma budget_all_ok:
  assumes "budget_inv E st" and "b_visiting st = []" and "\<forall>(x, d) \<in> set ds. node_at E (x, []) = Some d"
  shows "case budget_all E ds st of
      Inl e \<Rightarrow> budget_error E e \<and> (\<exists>(x, d) \<in> set ds. \<forall>c. \<not> costs E d c)
    | Inr st' \<Rightarrow> budget_inv E st' \<and> (\<forall>(x, d) \<in> set ds. \<exists>c. costs E d c)"
  using assms
proof (induction ds arbitrary: st)
  case (Cons p ds)
  obtain x d where p: "p = (x, d)" by (cases p)
  have "budget_ok E [] d (budget (call_depth E) E (x, []) d st)"
    using budget_correct[of E st "(x, [])" d "call_depth E"] Cons.prems p locations_total[of E] by simp
  then show ?case
  proof (cases "budget (call_depth E) E (x, []) d st")
    case (Inl e)
    then show ?thesis
      using \<open>budget_ok E [] d _\<close> p by (auto simp: budget_ok_def blocked_def)
  next
    case (Inr r)
    obtain c st1 where r: "r = (c, st1)" by (cases r)
    then have c: "costs E d c" "budget_inv E st1" "b_visiting st1 = []"
      using \<open>budget_ok E [] d _\<close> Inr by (simp_all add: budget_ok_def)
    then show ?thesis
      using Cons.IH[of st1] Cons.prems Inr r p by (auto split: sum.splits)
  qed
qed simp

lemma budget_start_ok: "budget_inv E budget_start" "b_visiting budget_start = []"
  by (simp_all add: budget_inv_def budget_start_def values_ok_def)

lemma definitions_at:
  "distinct (map fst (v_defs E)) \<Longrightarrow> \<forall>(x, d) \<in> set (v_defs E). node_at E (x, []) = Some d"
  by (auto simp: node_at_def)

text \<open>What \<open>check_view\<close> accepts and returns.\<close>

definition view_admits :: "view \<Rightarrow> node \<Rightarrow> bool" where
  "view_admits E m \<longleftrightarrow>
     (\<forall>(x, d) \<in> set (v_defs E). fits (v_lib E) 1 d \<and> (\<exists>c. costs E d c)) \<and>
     (\<exists>v. evals E (Ref root_name) v \<and> is_stack v) \<and>
     expands E (Ref root_name) m \<and> utf8_length (lit ''root = '' @ tree_text m) \<le> 65536"

inductive_simps expands_ref_iff: "expands E (Ref x) m"

lemma expands_functional: "expands E n m \<Longrightarrow> expands E n m' \<Longrightarrow> m = m'"
proof (induction arbitrary: m' rule: expands.induct)
  case (expands_ref x d m)
  from expands_ref.prems expands_ref.hyps show ?case
    by (auto simp: expands_ref_iff is_ref_def intro: expands_ref.IH)
next
  case (expands_node n ms)
  from expands_node.prems expands_node.hyps(1) obtain ms' where
    "list_all2 (expands E) (kids n) ms'" "m' = with_kids n ms'"
    by (cases rule: expands.cases) (auto simp: is_ref_def)
  then show ?case using list_all2_functional[OF expands_node.IH] by simp
qed

lemma root_expansion:
  assumes "costs E root c" and "map_of (v_defs E) root_name = Some root"
  obtains m where "expands E (Ref root_name) m" and "serialize (call_depth E) E root = Inr (tree_text m)"
    and "tree_safe (v_lib E) m" and "tree_weight m \<le> 20000" and "tree_components m \<le> 256" and "tree_depth m \<le> 32"
proof -
  obtain m where m: "expansion_ok E root c m" using costs_expansion assms(1) by blast
  have ok: "cost_ok c" using assms(1) by (rule costs_ok)
  then have "c_depth c \<le> call_depth E" by (simp add: cost_ok_def call_depth_def)
  then have "serialize (call_depth E) E root = Inr (tree_text m)" using m by (simp add: expansion_ok_def)
  moreover have "expands E (Ref root_name) m" using m assms(2) by (auto simp: expansion_ok_def intro: expands_ref)
  ultimately show thesis using that[of m] m ok by (auto simp: expansion_ok_def cost_ok_def)
qed

lemma finish_view_ok:
  assumes "costs E root c" and "map_of (v_defs E) root_name = Some root" and "budget_inv E st"
  shows "case finish_view E root st of
      Inl e \<Rightarrow> e = LimitsError \<and> (\<forall>m. \<not> view_admits E m)
    | Inr out \<Rightarrow> \<exists>m. out = lit ''root = '' @ tree_text m \<and> expands E (Ref root_name) m \<and>
        utf8_length out \<le> 65536 \<and> (\<exists>v. evals E (Ref root_name) v \<and> is_stack v)"
proof -
  have depth: "c_depth c \<le> call_depth E"
    using costs_ok[OF assms(1)] by (simp add: cost_ok_def call_depth_def)
  have v: "result_ok E {LimitsError} (evals E root)
      (node_value (call_depth E) E (root_name, []) root (b_values st))"
    using node_value_ok[OF assms(1) depth node_at_definition[OF assms(2)]] assms(3) by (simp add: budget_inv_def)
  have root: "evals E (Ref root_name) u \<longleftrightarrow> evals E root u" for u using assms(2) by (simp add: evals_inner)
  obtain m where m: "expands E (Ref root_name) m" "serialize (call_depth E) E root = Inr (tree_text m)"
    using root_expansion assms(1,2) by metis
  show ?thesis
  proof (cases "node_value (call_depth E) E (root_name, []) root (b_values st)")
    case (Inl e)
    then show ?thesis using v root by (auto simp: finish_view_def view_admits_def)
  next
    case (Inr r)
    obtain u vs where r: "r = (u, vs)" by (cases r)
    then have u: "evals E root u" using v Inr by simp
    have only: "view_admits E m' \<Longrightarrow> is_stack u \<and> m' = m" for m'
      unfolding view_admits_def root using evals_functional[OF u] expands_functional[OF m(1), of m'] by auto
    show ?thesis
    proof (cases "is_stack u \<and> utf8_length (lit ''root = '' @ tree_text m) \<le> 65536")
      case True
      then show ?thesis using Inr r m u root by (auto simp: finish_view_def)
    next
      case False
      then have "finish_view E root st = fail" using Inr r m by (auto simp: finish_view_def)
      moreover have "\<not> view_admits E m'" for m'
      proof
        assume admits: "view_admits E m'"
        then have "utf8_length (lit ''root = '' @ tree_text m') \<le> 65536" by (simp add: view_admits_def)
        then show False using only[OF admits] False by simp
      qed
      ultimately show ?thesis by (simp add: fail_def)
    qed
  qed
qed

text \<open>The errors that leave the function: the one of \<open>fail\<close>, or a TypeError from \<open>Table()\<close>.\<close>

lemma check_view_ok:
  assumes distinct: "distinct (map fst (v_defs E))" and root: "root_name \<in> fst ` set (v_defs E)"
  shows "case check_view E of
      Inl e \<Rightarrow> budget_error E e \<and> (\<forall>m. \<not> view_admits E m)
    | Inr out \<Rightarrow> \<exists>m. view_admits E m \<and> out = lit ''root = '' @ tree_text m"
proof (cases "\<forall>d \<in> set (v_defs E). fits (v_lib E) 1 (snd d)")
  case False
  then show ?thesis by (auto simp: check_view_def check_depth_correct view_admits_def fail_def)
next
  case fits: True
  obtain d where d: "map_of (v_defs E) root_name = Some d" using root by (metis map_of_eq_None_iff not_None_eq)
  note all = budget_all_ok[OF budget_start_ok definitions_at[OF distinct]]
  show ?thesis
  proof (cases "budget_all E (v_defs E) budget_start")
    case (Inl e)
    then have e: "budget_error E e" and "\<exists>(x, d) \<in> set (v_defs E). \<forall>c. \<not> costs E d c" using all by simp_all
    then have "\<not> view_admits E m" for m unfolding view_admits_def by blast
    then show ?thesis using e Inl fits by (simp add: check_view_def check_depth_correct)
  next
    case (Inr st)
    then have st: "budget_inv E st" and c: "\<forall>(x, d) \<in> set (v_defs E). \<exists>c. costs E d c" using all by simp_all
    then obtain c' where "costs E d c'" using map_of_SomeD[OF d] by auto
    from finish_view_ok[OF this d st] show ?thesis
      using Inr fits d c
      by (cases "finish_view E d st") (auto simp: check_view_def check_depth_correct view_admits_def)
  qed
qed

lemma view_admits_bounds:
  assumes "view_admits E m"
  shows "tree_safe (v_lib E) m \<and> tree_weight m \<le> 20000 \<and> tree_components m \<le> 256 \<and> tree_depth m \<le> 32"
proof -
  have e: "expands E (Ref root_name) m" using assms by (simp add: view_admits_def)
  then obtain d where d: "map_of (v_defs E) root_name = Some d" by (auto simp: expands_ref_iff is_ref_def)
  then obtain c where "costs E d c" using assms map_of_SomeD[OF d] by (auto simp: view_admits_def)
  then show ?thesis using root_expansion[OF _ d] expands_functional[OF e] by metis
qed

definition view_with :: "jsstr list \<Rightarrow> jsstr \<Rightarrow> jsv \<Rightarrow> (data_path \<Rightarrow> nat option) \<Rightarrow> view" where
  "view_with lib s data W = \<lparr>v_defs = definitions_of (split_statements (tokenize s)), v_data = data,
     v_lib = lib, v_weights = W\<rparr>"

lemma view_with_admits:
  assumes "document_ok data" and "weights_fit data W"
  shows "view_admits (view_with lib s data W) m \<longleftrightarrow> view_admits (view_of lib s data) m"
proof -
  obtain kvs where kvs: "data = JObj kvs" using assms(1) by (cases data) (auto simp: document_ok_def)
  have same: "same_view (view_with lib s data W) (view_of lib s data)"
    using assms(2) weights_of_fit by (simp add: same_view_def view_with_def view_of_def)
  note rev = same_view_sym[OF same]
  have "costs (view_with lib s data W) d c \<longleftrightarrow> costs (view_of lib s data) d c" for d c
    using costs_same[OF _ same] costs_same[OF _ rev] kvs by (auto simp: view_with_def view_of_def)
  moreover have "expands (view_with lib s data W) n m' \<longleftrightarrow> expands (view_of lib s data) n m'" for n m'
    using expands_same same by (auto simp: same_view_def)
  ultimately show ?thesis
    using same by (simp add: view_admits_def evals_same_iff[OF same] same_view_def)
qed

lemma admits_iff:
  "admits lib s data m \<longleftrightarrow> source_ok s \<and> document_ok data \<and> layout_ok (tokenize s) \<and>
     statements_ok (split_statements (tokenize s)) \<and> view_admits (view_of lib s data) m"
  by (simp add: admits_def view_admits_def view_of_def)

definition view_error :: "jsstr \<Rightarrow> jserr \<Rightarrow> bool" where
  "view_error s e \<longleftrightarrow> e = LimitsError \<or> e = TypeError \<and>
     (\<exists>(x, d) \<in> set (definitions_of (split_statements (tokenize s))). \<exists>p n. sub_node d p = Some n \<and> bare_table n)"

lemma view_errorI:
  assumes "budget_error E e" and "v_defs E = definitions_of (split_statements (tokenize s))"
  shows "view_error s e"
  using assms by (fastforce simp: view_error_def budget_error_def node_at_def dest: map_of_SomeD split: option.splits)

text \<open>Past the two checks of the input, the layout decides whether the view is read at all; a view
  that is read is judged by \<open>check_view\<close>.\<close>

definition laid_out :: "jsstr \<Rightarrow> bool" where
  "laid_out s \<longleftrightarrow> layout_ok (tokenize s) \<and> statements_ok (split_statements (tokenize s))"

lemma preflight_view_unread:
  assumes "check_source source = Inr s" and "check_data data = Inr W" and "\<not> laid_out s"
  shows "preflight_view lib source data = fail"
proof -
  have "check_tokens (tokenize s) = fail \<or> check_tokens (tokenize s) = Inr () \<and>
      (\<exists>e. read_definitions (split_statements (tokenize s)) = Inl e)"
    using assms(3) check_tokens_cases[of "tokenize s"] check_tokens_ok[of "tokenize s"]
      read_definitions_iff[of "split_statements (tokenize s)" "definitions_of (split_statements (tokenize s))"]
    by (cases "read_definitions (split_statements (tokenize s))")
      (auto simp: laid_out_def layout_ok_def read_definitions_iff)
  then show ?thesis
    using assms(1,2) by (auto simp: preflight_view_def fail_def dest: read_definitions_error)
qed

lemma preflight_view_read:
  assumes "check_source source = Inr s" and "check_data data = Inr W" and "laid_out s"
  shows "preflight_view lib source data = check_view (view_with lib s data W)"
proof -
  have "check_tokens (tokenize s) = Inr ()"
    using assms(3) by (simp add: check_tokens_ok laid_out_def layout_ok_def)
  moreover have "read_definitions (split_statements (tokenize s)) = Inr (v_defs (view_with lib s data W))"
    using assms(3) by (simp add: read_definitions_iff laid_out_def view_with_def)
  ultimately show ?thesis using assms(1,2) by (simp add: preflight_view_def view_with_def)
qed

lemma preflight_view_ok:
  "case preflight_view lib source data of
      Inl e \<Rightarrow> (\<forall>s m. source = JStr s \<longrightarrow> \<not> admits lib s data m) \<and>
        (e = LimitsError \<or> (\<exists>s. source = JStr s \<and> view_error s e))
    | Inr out \<Rightarrow> \<exists>s m. source = JStr s \<and> admits lib s data m \<and> out = lit ''root = '' @ tree_text m"
proof (cases "check_source source")
  case (Inl e)
  then have "\<not> (source = JStr s \<and> source_ok s)" for s using check_source_iff[of source s] by auto
  then show ?thesis using Inl check_source_error[OF Inl] by (auto simp: preflight_view_def admits_iff)
next
  case (Inr s)
  then have s: "source = JStr s" "source_ok s" by (simp_all add: check_source_iff)
  show ?thesis
  proof (cases "document_ok data")
    case False
    then have "check_data data = fail" using check_data_cases[of data] by simp
    then show ?thesis using Inr False by (simp add: preflight_view_def fail_def admits_iff)
  next
    case data: True
    then obtain W where W: "check_data data = Inr W" "weights_fit data W"
      using check_data_cases[of data] by auto
    show ?thesis
    proof (cases "laid_out s")
      case False
      then show ?thesis
        using preflight_view_unread[OF Inr W(1) False] s by (auto simp: laid_out_def fail_def admits_iff)
    next
      case True
      let ?E = "view_with lib s data W"
      have "distinct (map fst (v_defs ?E))" "root_name \<in> fst ` set (v_defs ?E)"
        using True by (simp_all add: laid_out_def view_with_def definitions_of_keys statements_ok_def)
      from check_view_ok[OF this] show ?thesis
        unfolding preflight_view_read[OF Inr W(1) True] view_with_admits[OF data W(2)]
        using s data True view_errorI[of ?E _ s]
        by (cases "check_view ?E") (auto simp: laid_out_def admits_iff view_with_def)
    qed
  qed
qed

end
