(* ===== verification/Preflight_Properties.thy ===== *)
theory Preflight_Properties
  imports Preflight
begin

text \<open>
  What \<open>preflightView\<close> guarantees: the exact set of views it accepts, the bounds on what it
  returns, the absence of reference cycles, its errors, and that its memo tables are invisible.
\<close>

section \<open>References\<close>

text \<open>\<open>x\<close> refers to \<open>y\<close>: the definition of \<open>x\<close> has a reference to \<open>y\<close> somewhere.\<close>

definition refers :: "definitions \<Rightarrow> jsstr \<Rightarrow> jsstr \<Rightarrow> bool" where
  "refers ds x y \<longleftrightarrow> (\<exists>d p. map_of ds x = Some d \<and> sub_node d p = Some (Ref y))"

lemma costs_sub_node:
  "costs E d c \<Longrightarrow> sub_node d p = Some n \<Longrightarrow> \<exists>k. costs E n k \<and> c_depth k \<le> c_depth c"
proof (induction d p arbitrary: c rule: sub_node.induct)
  case (1 n)
  then show ?case by auto
next
  case (2 d i p)
  then have i: "i < length (kids d)" "sub_node (kids d ! i) p = Some n" by (auto split: if_splits)
  then obtain k where "costs E (kids d ! i) k" "c_depth k < c_depth c" using costs_kid 2 by blast
  then show ?case using 2(1)[OF i(1) _ i(2)] by fastforce
qed

definition definition_depth :: "view \<Rightarrow> jsstr \<Rightarrow> nat" where
  "definition_depth E x = c_depth (THE c. \<exists>d. map_of (v_defs E) x = Some d \<and> costs E d c)"

lemma definition_depth_eq: "map_of (v_defs E) x = Some d \<Longrightarrow> costs E d c \<Longrightarrow> definition_depth E x = c_depth c"
  unfolding definition_depth_def by (rule arg_cong[where f = c_depth]) (auto intro: costs_functional)

lemma refers_depth:
  assumes "refers (v_defs E) x y" and "\<forall>(x, d) \<in> set (v_defs E). \<exists>c. costs E d c"
  shows "definition_depth E y < definition_depth E x"
proof -
  obtain d p where d: "map_of (v_defs E) x = Some d" "sub_node d p = Some (Ref y)"
    using assms(1) by (auto simp: refers_def)
  then obtain c where c: "costs E d c" using assms(2) map_of_SomeD by fastforce
  then obtain k where k: "costs E (Ref y) k" "c_depth k \<le> c_depth c" using costs_sub_node d(2) by blast
  then obtain d' k' where "map_of (v_defs E) y = Some d'" "costs E d' k'" "c_depth k' < c_depth k"
    using costs_ref by blast
  then show ?thesis using d(1) c k(2) by (simp add: definition_depth_eq)
qed

lemma refers_acyclic:
  assumes "\<forall>(x, d) \<in> set (v_defs E). \<exists>c. costs E d c"
  shows "\<not> (refers (v_defs E))\<^sup>+\<^sup>+ x x"
proof
  have "(refers (v_defs E))\<^sup>+\<^sup>+ x y \<Longrightarrow> definition_depth E y < definition_depth E x" for x y
    by (induction rule: tranclp_induct) (auto dest: refers_depth[OF _ assms])
  moreover assume "(refers (v_defs E))\<^sup>+\<^sup>+ x x"
  ultimately show False by blast
qed

section \<open>Evaluation\<close>

lemma fuel_eval [js_eval]:
  "node_value (numeral w) E l n vs = value_step E (node_value (pred_numeral w) E) l n vs"
  "budget (numeral w) E l n st = budget_step E (node_value (call_depth E) E) (budget (pred_numeral w) E) l n st"
  "serialize (numeral w) E n = serialize_step E (serialize (pred_numeral w) E) n"
  by (simp_all add: numeral_eq_Suc)

text \<open>Evaluation looks into the rest of a sequence only when its first part is a value.\<close>

lemma bindE_stage: "r = r' \<Longrightarrow> bindE r f = bindE r' f"
  by simp

lemmas preflight_eval [js_eval] =
  preflight_view_def check_source_def check_data_def check_view_def read_definitions_def
  finish_view_def check_tokens_def check_depth_def js_trim_def trim_start_def trim_end_def
  is_space_def weigh.simps weigh_start_def fail_def node_total.simps call_depth_def root_name_def
  is_stack_def prop_or_undef_def budget_step_def budget_finish_def value_step_def map_value_def
  node_parts_def start_cost_def close_cost_def extra_nodes_def add_cost_def check_cost_def
  control_object.simps ast_kinds_def unsafe_key_def component_value_def call_text_def comma_join_def
  array_text_def unit_bytes_def is_high_def is_low_def closing_def budget_start_def is_chart_def
  ends_with_def text_cost_def child_loc_def own_def literal_key_def is_literal_key_def index_text_def
  object_text_def entry_text_def quote_def is_num_node_def negated_def from_entries_def datum_cost_def
  stored_weight_def table_values_def table_work_def json_str_def json_num_def escape_lt_def escape_unit_def
  num_str.simps pos_num_str_def nat_str_def digit_unit_def

section \<open>Properties\<close>

text \<open>C1: \<open>preflightView\<close> accepts exactly the views that are within every limit, have no
  definition without a cost and a root that resolves to a Stack; what it returns is the text of
  the expansion of \<open>root\<close>. The memo tables, the visiting set and the stack are invisible.\<close>

theorem preflight_view_accepts:
  "preflight_view lib (JStr s) data = Inr out \<longleftrightarrow>
     (\<exists>m. admits lib s data m \<and> out = lit ''root = '' @ tree_text m)"
  using preflight_view_ok[where lib = lib and source = "JStr s" and data = data]
  by (cases "preflight_view lib (JStr s) data")
    (auto simp: admits_iff view_admits_def dest: expands_functional)

text \<open>C2: The canonical text is the print of a tree without references, of library components
  only and without reserved keys, of at most 20000 weighted nodes, 256 components and 32 levels,
  and the text has at most 65536 bytes: the size of the expansion is bounded before the
  renderer sees it.\<close>

theorem preflight_view_bounds:
  assumes "preflight_view lib source data = Inr out"
  shows "\<exists>m. out = lit ''root = '' @ tree_text m \<and> tree_safe lib m \<and> tree_weight m \<le> 20000 \<and>
     tree_components m \<le> 256 \<and> tree_depth m \<le> 32 \<and> utf8_length out \<le> 65536"
proof -
  obtain s m where m: "admits lib s data m" "out = lit ''root = '' @ tree_text m"
    using preflight_view_ok[where lib = lib and source = source and data = data] assms by auto
  then have "view_admits (view_of lib s data) m" by (simp add: admits_iff)
  from view_admits_bounds[OF this] this m(2) show ?thesis by (auto simp: view_of_def view_admits_def)
qed

theorem preflight_view_bounds_witness:
  "\<exists>m. lit ''root = Stack([1,$rows])'' = lit ''root = '' @ tree_text m \<and> tree_safe [lit ''Stack''] m \<and>
     tree_weight m \<le> 20000 \<and> tree_components m \<le> 256 \<and> tree_depth m \<le> 32 \<and>
     utf8_length (lit ''root = Stack([1,$rows])'') \<le> 65536"
  by (rule preflight_view_bounds[of _ "JStr (lit ''x = [1, $rows]\<newline>root = Stack(x)'')"
        "JObj [(lit ''rows'', JArr [])]"]) (simp add: js_eval cong: bindE_stage)

text \<open>C3: The only errors of \<open>preflightView\<close> are the limits error and, when the view calls
  \<open>Table\<close> without arguments, a TypeError. The recursions never exhaust the stack.\<close>

theorem preflight_view_errors:
  assumes "preflight_view lib source data = Inl e"
  shows "e = LimitsError \<or> e = TypeError \<and> (\<exists>s x d p n. source = JStr s \<and>
     (x, d) \<in> set (definitions_of (split_statements (tokenize s))) \<and> sub_node d p = Some n \<and> bare_table n)"
  using preflight_view_ok[where lib = lib and source = source and data = data] assms
  by (auto simp: view_error_def) blast+

theorem preflight_view_errors_witness:
  "preflight_view [lit ''Stack'', lit ''Table''] (JStr (lit ''root = Stack([Table()])'')) (JObj []) = Inl TypeError \<and>
   (\<exists>s x d p n. JStr (lit ''root = Stack([Table()])'') = JStr s \<and>
     (x, d) \<in> set (definitions_of (split_statements (tokenize s))) \<and> sub_node d p = Some n \<and> bare_table n)"
proof -
  have "preflight_view [lit ''Stack'', lit ''Table''] (JStr (lit ''root = Stack([Table()])'')) (JObj []) = Inl TypeError"
    by (simp add: js_eval cong: bindE_stage)
  with preflight_view_errors[OF this] show ?thesis by simp
qed

text \<open>C5: In an accepted view no definition reaches itself through references.\<close>

theorem preflight_view_acyclic:
  assumes "preflight_view lib (JStr s) data = Inr out"
  shows "\<not> (refers (definitions_of (split_statements (tokenize s))))\<^sup>+\<^sup>+ x x"
proof -
  obtain m where "admits lib s data m" using preflight_view_ok[where lib = lib and source = "JStr s" and data = data] assms by auto
  then have "view_admits (view_of lib s data) m" by (simp add: admits_iff)
  then have "\<forall>(x, d) \<in> set (v_defs (view_of lib s data)). \<exists>c. costs (view_of lib s data) d c"
    unfolding view_admits_def by blast
  from refers_acyclic[OF this, of x] show ?thesis by (simp add: view_of_def)
qed

theorem preflight_view_acyclic_witness:
  "\<not> (refers (definitions_of (split_statements (tokenize (lit ''x = [1]\<newline>root = Stack(x)'')))))\<^sup>+\<^sup>+ (lit ''x'') (lit ''x'')"
  by (rule preflight_view_acyclic[of "[lit ''Stack'']" _ "JObj []" "lit ''root = Stack([1])''"]) (simp add: js_eval cong: bindE_stage)

text \<open>C13: The memoised recursion with its visiting set computes the cost of the expanded tree, and
  it succeeds exactly when the tree has a cost within the limits; a cycle has none.\<close>

theorem budget_computes_costs:
  assumes "map_of (v_defs E) x = Some d"
  shows "(\<exists>st. budget (call_depth E) E (x, []) d budget_start = Inr (c, st)) \<longleftrightarrow> costs E d c"
  using budget_correct[of E budget_start "(x, [])" d "call_depth E"] budget_start_ok(1)[of E] budget_start_ok(2)
    node_at_definition[OF assms] locations_total[of E] costs_functional
  by (cases "budget (call_depth E) E (x, []) d budget_start")
    (auto simp: budget_ok_def blocked_def)

theorem budget_computes_costs_witness:
  "\<nexists>c. costs \<lparr>v_defs = [(lit ''a'', Ref (lit ''b'')), (lit ''b'', Ref (lit ''a''))], v_data = JObj [], v_lib = [],
     v_weights = Map.empty\<rparr> (Ref (lit ''b'')) c"
  by (subst budget_computes_costs[of _ "lit ''a''", symmetric]) (simp_all add: js_eval)

text \<open>The walk over the data accepts exactly the documents without reserved keys and OpenUI
  shapes that have at most 10000 nodes, 16 levels and 524288 bytes, and it stores for every object
  the weight of the tree below it.\<close>

theorem data_walk_accepts:
  "if document_ok data then \<exists>W. check_data data = Inr W \<and> weights_fit data W else check_data data = Inl LimitsError"
  using check_data_cases[of data] by (simp add: fail_def)

text \<open>The token loop accepts exactly the lists of at most 8192 tokens whose brackets are well
  nested to a depth of 32 and that have no operator but a minus sign before a number.\<close>

theorem token_loop_accepts:
  "check_tokens ts = Inr () \<longleftrightarrow> length ts \<le> 8192 \<and> nested 32 (map tok_t ts) \<and> operators_ok ts"
  by (rule check_tokens_ok)

text \<open>The iterative walk over the pending nodes, which empties a stack, accepts exactly the
  definitions all of whose nodes pass \<open>children\<close> within 32 levels; it is total.\<close>

theorem depth_walk_accepts:
  "check_depth lib ds = (if \<forall>d \<in> set ds. fits lib 1 (snd d) then Inr () else Inl LimitsError)"
  using check_depth_correct[of lib ds] by (simp add: fail_def)

theorem depth_walk_accepts_witness:
  "check_depth [] [(lit ''a'', Arr [Comp (lit ''X'') [] False])] = Inl LimitsError"
  by (simp add: depth_walk_accepts fits.simps fail_def)

text \<open>C14: What \<open>quote\<close> writes is read back as the same string, and it has no \<open><\<close>, so that it cannot
  close the script element of a page.\<close>

theorem quote_round_trip:
  "json_parse_str (quote (JStr s)) = Some s \<and> 60 \<notin> set (quote (JStr s))"
  using json_parse_escaped[of s] escape_lt_no_lt[of "json_str s"] by (simp add: quote_def)

text \<open>C15: The expression parser of the bundle always returns, whatever the tokens: the fuel of
  the model, one more than the number of tokens, is never exhausted.\<close>

theorem parser_returns:
  "\<exists>r. parse_expr (Suc (length ts)) 0 ts = Some (parse_expression ts, r) \<and> length r \<le> length ts"
  by (rule parse_expression_returns)

text \<open>A value of the data passes for the root: an object whose \<open>component\<close> is \<open>"Stack"\<close> is no component.\<close>

lemma root_from_data:
  "preflight_view [lit ''Stack''] (JStr (lit ''root = $x''))
     (JObj [(lit ''x'', JObj [(lit ''component'', JStr (lit ''Stack''))])]) = Inr (lit ''root = $x'')"
  by (simp add: js_eval cong: bindE_stage)

end
