(* ===== verification/Event_Machine.thy ===== *)
theory Event_Machine
  imports Js_Base
begin

text \<open>
  The shape of the browser programs: a state, events that the environment delivers when they are
  enabled, and a handler that runs to completion. \<open>reachable\<close> is what any order of events can
  lead to. The two interfaces are an invariant machine (what the handlers keep holds in every
  reachable state) and a stopping machine (once stopped it stays so and starts no more work).
\<close>

text \<open>\<open>readyState\<close> of an \<open>EventSource\<close> or a \<open>WebSocket\<close>.\<close>

datatype ready = Connecting | Opened | Closed

inductive reachable :: "'s \<Rightarrow> ('e \<Rightarrow> 's \<Rightarrow> bool) \<Rightarrow> ('e \<Rightarrow> 's \<Rightarrow> 's) \<Rightarrow> 's \<Rightarrow> bool"
  for start enabled act where
  reachable_start: "reachable start enabled act start"
| reachable_event: "reachable start enabled act s \<Longrightarrow> enabled e s \<Longrightarrow> reachable start enabled act (act e s)"

text \<open>A concrete run, for examples.\<close>

fun run_events :: "('e \<Rightarrow> 's \<Rightarrow> bool) \<Rightarrow> ('e \<Rightarrow> 's \<Rightarrow> 's) \<Rightarrow> 'e list \<Rightarrow> 's \<Rightarrow> 's option" where
  "run_events enabled act [] s = Some s"
| "run_events enabled act (e # es) s = (if enabled e s then run_events enabled act es (act e s) else None)"

lemma run_events_append:
  "run_events enabled act (es @ fs) s =
     (case run_events enabled act es s of None \<Rightarrow> None | Some s' \<Rightarrow> run_events enabled act fs s')"
  by (induction es arbitrary: s) auto

lemma run_reachable:
  "run_events enabled act es s = Some s' \<Longrightarrow> reachable start enabled act s \<Longrightarrow> reachable start enabled act s'"
  by (induction es arbitrary: s) (auto split: if_splits intro: reachable_event)

text \<open>Any run from any state keeps what every enabled step keeps.\<close>

lemma run_events_keep:
  assumes "\<And>e s. P s \<Longrightarrow> enabled e s \<Longrightarrow> P (act e s)"
  shows "run_events enabled act es s = Some s' \<Longrightarrow> P s \<Longrightarrow> P s'"
  by (induction es arbitrary: s) (auto split: if_splits intro: assms)

locale invariant_machine =
  fixes start :: 's and enabled :: "'e \<Rightarrow> 's \<Rightarrow> bool" and act :: "'e \<Rightarrow> 's \<Rightarrow> 's" and inv :: "'s \<Rightarrow> bool"
  assumes inv_start: "inv start"
    and inv_event: "inv s \<Longrightarrow> enabled e s \<Longrightarrow> inv (act e s)"
begin

lemma reachable_inv: "reachable start enabled act s \<Longrightarrow> inv s"
  by (induction rule: reachable.induct) (auto intro: inv_start inv_event)

lemma run_inv: "run_events enabled act es s = Some s' \<Longrightarrow> inv s \<Longrightarrow> inv s'"
  by (rule run_events_keep[where P = inv]) (auto intro: inv_event)

end

locale stopping_machine = invariant_machine start enabled act inv
  for start :: 's and enabled :: "'e \<Rightarrow> 's \<Rightarrow> bool" and act :: "'e \<Rightarrow> 's \<Rightarrow> 's" and inv :: "'s \<Rightarrow> bool" +
  fixes stopped :: "'s \<Rightarrow> bool" and work :: "'s \<Rightarrow> nat"
  assumes stopped_event: "inv s \<Longrightarrow> stopped s \<Longrightarrow> enabled e s \<Longrightarrow> stopped (act e s)"
    and stopped_work: "inv s \<Longrightarrow> stopped s \<Longrightarrow> enabled e s \<Longrightarrow> work (act e s) = work s"
begin

lemma stopped_run:
  "inv s \<Longrightarrow> stopped s \<Longrightarrow> run_events enabled act es s = Some s' \<Longrightarrow> stopped s' \<and> work s' = work s"
proof (induction es arbitrary: s)
  case (Cons e es)
  then have e: "enabled e s" and r: "run_events enabled act es (act e s) = Some s'"
    by (auto split: if_splits)
  then show ?case
    using Cons.IH[OF inv_event stopped_event r] Cons.prems stopped_work by simp
qed simp

end

end
