(* ===== verification/Artifact_Client.thy ===== *)
theory Artifact_Client
  imports Preflight Event_Machine
begin

text \<open>
  \<open>tools/cowchat-artifacts/client.jsx\<close>: the page of a published artifact. The effect of
  \<open>Artifact\<close> keeps an \<open>EventSource\<close> open, fetches a snapshot whenever that says so, and hands
  the view to \<open>preflightView\<close>. The closure's variables, the browser's objects (event sources,
  armed timers, running \<open>refresh\<close> calls) and React's state are the fields of one record; every
  callback is a function of it, and the order of the callbacks is free.
\<close>

section \<open>State\<close>

datatype timer = Timer_Refresh nat | Timer_Connect nat   \<comment> \<open>an armed timer, with its handle\<close>

fun timer_id :: "timer \<Rightarrow> nat" where
  "timer_id (Timer_Refresh i) = i"
| "timer_id (Timer_Connect i) = i"

text \<open>Where a running \<open>refresh\<close> waits: for the response, or for its body.\<close>

datatype waiting = For_Response | For_Body

record client =
  c_lib :: "jsstr list"                \<comment> \<open>\<open>library.components\<close>\<close>
  c_path :: jsstr
  stopped :: bool
  active :: bool
  pending :: bool
  retry :: "nat option"
  stream_retry :: "nat option"
  reconnect_delay :: nat
  stream :: "nat option"               \<comment> \<open>the position of the current source in \<open>sources\<close>\<close>
  sources :: "ready list"              \<comment> \<open>\<open>readyState\<close> of every \<open>EventSource\<close> created\<close>
  source_urls :: "jsstr list"
  loops :: "waiting list"              \<comment> \<open>the calls of \<open>refresh\<close> that are suspended\<close>
  requests :: "jsstr list"             \<comment> \<open>the URLs fetched, in order\<close>
  timers :: "(timer \<times> nat) list"       \<comment> \<open>armed timers and their delays\<close>
  next_timer :: nat
  aborted :: bool
  snapshot :: "jsv option"
  status :: jsstr
  invalid :: jsv
  title :: jsstr

definition plain_title :: jsstr where
  "plain_title = lit ''Cowchat artifact''"

definition status_connecting :: jsstr where "status_connecting = lit ''Connecting''"
definition status_live :: jsstr where "status_live = lit ''Live''"
definition status_reconnecting :: jsstr where "status_reconnecting = lit ''Reconnecting''"
definition status_unavailable :: jsstr where "status_unavailable = lit ''This artifact is unavailable.''"

definition ready_of :: "client \<Rightarrow> nat \<Rightarrow> ready" where
  "ready_of s i = (if i < length (sources s) then sources s ! i else Closed)"

text \<open>\<open>location.pathname.replace(/\/$/, '')\<close>\<close>

definition strip_slash :: "jsstr \<Rightarrow> jsstr" where
  "strip_slash p = (if p \<noteq> [] \<and> last p = 47 then butlast p else p)"

definition snapshot_url :: "client \<Rightarrow> jsstr" where
  "snapshot_url s = c_path s @ lit ''/snapshot''"

definition events_url :: "client \<Rightarrow> jsstr" where
  "events_url s = c_path s @ lit ''/events''"

section \<open>React state\<close>

text \<open>\<open>setSnapshot\<close> and the effect that follows a change of the snapshot: the page's title.\<close>

definition title_of :: "jsv option \<Rightarrow> jsstr" where
  "title_of snap = (case snap of None \<Rightarrow> plain_title
     | Some n \<Rightarrow> to_str (prop_or_undef n (lit ''title'')) @ [32, 183] @ lit '' Cowchat'')"

definition set_snapshot :: "jsv option \<Rightarrow> client \<Rightarrow> client" where
  "set_snapshot snap s = s\<lparr>snapshot := snap, title := title_of snap\<rparr>"

definition revision_of :: "jsv \<Rightarrow> jsnum" where
  "revision_of n = (case prop_or_undef n (lit ''revision'') of JNum x \<Rightarrow> x | _ \<Rightarrow> NaN)"

text \<open>\<open>previous => !previous || next.revision >= previous.revision ? next : previous\<close>\<close>

definition newer :: "jsv \<Rightarrow> jsv option \<Rightarrow> bool" where
  "newer n prev = (case prev of None \<Rightarrow> True | Some p \<Rightarrow> num_int (revision_of p) \<le> num_int (revision_of n))"

definition offer_snapshot :: "jsv \<Rightarrow> client \<Rightarrow> client" where
  "offer_snapshot n s = (if newer n (snapshot s) then set_snapshot (Some n) s else s)"

definition set_status :: "jsstr \<Rightarrow> client \<Rightarrow> client" where
  "set_status t s = s\<lparr>status := t\<rparr>"

section \<open>Timers and streams\<close>

definition clear_timer :: "nat option \<Rightarrow> client \<Rightarrow> client" where   \<comment> \<open>\<open>clearTimeout(handle)\<close>\<close>
  "clear_timer h s = s\<lparr>timers := filter (\<lambda>t. Some (timer_id (fst t)) \<noteq> h) (timers s)\<rparr>"

definition arm_retry :: "client \<Rightarrow> client" where   \<comment> \<open>\<open>retry = setTimeout(refresh, 3000)\<close>\<close>
  "arm_retry s = s\<lparr>retry := Some (next_timer s),
     timers := (Timer_Refresh (next_timer s), 3000) # timers s, next_timer := next_timer s + 1\<rparr>"

definition arm_connect :: "client \<Rightarrow> client" where   \<comment> \<open>\<open>streamRetry = setTimeout(connect, reconnectDelay)\<close>\<close>
  "arm_connect s = s\<lparr>stream_retry := Some (next_timer s),
     timers := (Timer_Connect (next_timer s), reconnect_delay s) # timers s, next_timer := next_timer s + 1\<rparr>"

definition close_source :: "nat \<Rightarrow> client \<Rightarrow> client" where
  "close_source i s = s\<lparr>sources := (sources s)[i := Closed]\<rparr>"

definition close_stream :: "client \<Rightarrow> client" where   \<comment> \<open>\<open>stream?.close()\<close>\<close>
  "close_stream s = (case stream s of None \<Rightarrow> s | Some i \<Rightarrow> close_source i s)"

text \<open>What \<open>revoke\<close> and the effect's cleanup have in common.\<close>

definition tear_down :: "client \<Rightarrow> client" where
  "tear_down s =
     (close_stream (clear_timer (stream_retry s) (clear_timer (retry s) (s\<lparr>stopped := True\<rparr>))))\<lparr>aborted := True\<rparr>"

definition revoke :: "client \<Rightarrow> client" where
  "revoke s = (set_status status_unavailable (set_snapshot None (tear_down s)))\<lparr>title := plain_title\<rparr>"

section \<open>\<open>refresh\<close>\<close>

text \<open>The head of the loop's body, up to the \<open>await\<close> of \<open>fetch\<close>.\<close>

definition start_round :: "client \<Rightarrow> client" where
  "start_round s = s\<lparr>pending := False, loops := loops s @ [For_Response],
     requests := requests s @ [snapshot_url s]\<rparr>"

definition refresh :: "client \<Rightarrow> client" where
  "refresh s =
     (if stopped s then s
      else if active s then s\<lparr>pending := True\<rparr>
      else start_round (clear_timer (retry s) (s\<lparr>active := True\<rparr>)))"

text \<open>\<open>while (pending && !stopped)\<close>, and \<open>active = false\<close> after it. Loop \<open>j\<close> has just run its body.\<close>

definition drop_loop :: "nat \<Rightarrow> client \<Rightarrow> client" where
  "drop_loop j s = s\<lparr>loops := take j (loops s) @ drop (Suc j) (loops s)\<rparr>"

definition end_round :: "client \<Rightarrow> client" where
  "end_round s = (if pending s \<and> \<not> stopped s then start_round s else s\<lparr>active := False\<rparr>)"

definition catch_round :: "client \<Rightarrow> client" where   \<comment> \<open>the \<open>catch\<close> of the loop's \<open>try\<close>\<close>
  "catch_round s = (if \<not> stopped s then arm_retry (set_status status_reconnecting s) else s)"

text \<open>The response of loop \<open>j\<close> arrives; \<open>None\<close> is a rejected \<open>fetch\<close>, \<open>Some\<close> a status code.\<close>

definition on_response :: "nat \<Rightarrow> nat option \<Rightarrow> client \<Rightarrow> client" where
  "on_response j code s =
     (case code of
        None \<Rightarrow> end_round (catch_round (drop_loop j s))
      | Some c \<Rightarrow>
          if c \<in> {404, 410} then revoke (drop_loop j s)
          else if \<not> (200 \<le> c \<and> c \<le> 299) then end_round (catch_round (drop_loop j s))
          else s\<lparr>loops := (loops s)[j := For_Body]\<rparr>)"

definition valid_snapshot :: "jsv \<Rightarrow> bool" where
  "valid_snapshot n \<longleftrightarrow> is_str (prop_or_undef n (lit ''view'')) \<and>
     is_object (prop_or_undef n (lit ''data'')) \<and> \<not> is_array (prop_or_undef n (lit ''data'')) \<and>
     (case prop_or_undef n (lit ''revision'') of JNum x \<Rightarrow> safe_integer x | _ \<Rightarrow> False)"

text \<open>\<open>try { next.view = preflightView(...) } catch { next.view = null }\<close>\<close>

fun set_prop :: "jsv \<Rightarrow> jsstr \<Rightarrow> jsv \<Rightarrow> jsv" where
  "set_prop (JObj kvs) k v = JObj (put_prop kvs k v)"
| "set_prop n k v = n"

definition checked_view :: "jsstr list \<Rightarrow> jsv \<Rightarrow> jsv" where
  "checked_view lib n =
     set_prop n (lit ''view'')
       (case preflight_view lib (prop_or_undef n (lit ''view'')) (prop_or_undef n (lit ''data'')) of
          Inr out \<Rightarrow> JStr out | Inl e \<Rightarrow> JNull)"

definition stream_status :: "client \<Rightarrow> jsstr" where
  "stream_status s = (case stream s of Some i \<Rightarrow>
     if ready_of s i = Opened then status_live else status_reconnecting | None \<Rightarrow> status_reconnecting)"

text \<open>The body of the response; \<open>None\<close> is a rejected \<open>response.json()\<close>.\<close>

definition on_body :: "nat \<Rightarrow> jsv option \<Rightarrow> client \<Rightarrow> client" where
  "on_body j body s =
     (case body of
        None \<Rightarrow> end_round (catch_round (drop_loop j s))
      | Some n \<Rightarrow>
          if stopped s then drop_loop j s
          else if nullish n \<or> \<not> valid_snapshot n then end_round (catch_round (drop_loop j s))
          else end_round (set_status (stream_status s) (offer_snapshot (checked_view (c_lib s) n) (drop_loop j s))))"

section \<open>\<open>connect\<close>\<close>

definition connect :: "client \<Rightarrow> client" where
  "connect s =
     (if stopped s then s
      else s\<lparr>sources := sources s @ [Connecting], source_urls := source_urls s @ [events_url s],
         stream := Some (length (sources s))\<rparr>)"

definition belongs :: "client \<Rightarrow> nat \<Rightarrow> bool" where
  "belongs s i \<longleftrightarrow> \<not> stopped s \<and> stream s = Some i"

definition on_open :: "nat \<Rightarrow> client \<Rightarrow> client" where
  "on_open i s = (if \<not> belongs s i then s else refresh (s\<lparr>reconnect_delay := 500\<rparr>))"

definition on_revision :: "nat \<Rightarrow> client \<Rightarrow> client" where
  "on_revision i s = (if belongs s i then refresh s else s)"

definition on_revoked :: "nat \<Rightarrow> client \<Rightarrow> client" where
  "on_revoked i s = (if belongs s i then revoke s else s)"

definition back_off :: "client \<Rightarrow> client" where
  "back_off s = s\<lparr>reconnect_delay := min 10000 (reconnect_delay s * 2)\<rparr>"

definition on_error :: "nat \<Rightarrow> client \<Rightarrow> client" where
  "on_error i s =
     (if \<not> belongs s i then s
      else if ready_of s i = Closed
      then refresh (back_off (arm_connect (close_source i ((set_status status_reconnecting s)\<lparr>stream := None\<rparr>))))
      else refresh (set_status status_reconnecting s))"

section \<open>The machine\<close>

definition client_start :: "jsstr list \<Rightarrow> jsstr \<Rightarrow> client" where   \<comment> \<open>before the effect runs\<close>
  "client_start lib path = \<lparr>c_lib = lib, c_path = strip_slash path, stopped = False, active = False,
     pending = False, retry = None, stream_retry = None, reconnect_delay = 500, stream = None,
     sources = [], source_urls = [], loops = [], requests = [], timers = [], next_timer = 0,
     aborted = False, snapshot = None, status = status_connecting, invalid = JNull, title = plain_title\<rparr>"

definition mounted :: "jsstr list \<Rightarrow> jsstr \<Rightarrow> client" where   \<comment> \<open>\<open>connect(); refresh();\<close>\<close>
  "mounted lib path = refresh (connect (client_start lib path))"

text \<open>
  The browser changes \<open>readyState\<close> before it dispatches: to open, or on an error to connecting
  (it will reconnect) or closed (it will not). A closed source dispatches nothing more. A renderer
  error marks the revision that is shown.
\<close>

datatype event =
    Source_Open nat
  | Source_Revision nat
  | Source_Revoked nat
  | Source_Error nat bool        \<comment> \<open>whether the source is closed for good\<close>
  | Response nat "nat option"
  | Body nat "jsv option"
  | Timer_Fires timer
  | Renderer_Errors bool         \<comment> \<open>whether there are any\<close>
  | Unmount

definition event_enabled :: "event \<Rightarrow> client \<Rightarrow> bool" where
  "event_enabled e s =
     (case e of
        Source_Open i \<Rightarrow> ready_of s i = Connecting
      | Source_Revision i \<Rightarrow> ready_of s i = Opened
      | Source_Revoked i \<Rightarrow> ready_of s i = Opened
      | Source_Error i closed \<Rightarrow> ready_of s i \<noteq> Closed
      | Response j code \<Rightarrow> j < length (loops s) \<and> loops s ! j = For_Response
      | Body j body \<Rightarrow> j < length (loops s) \<and> loops s ! j = For_Body
      | Timer_Fires t \<Rightarrow> t \<in> fst ` set (timers s)
      | Renderer_Errors any \<Rightarrow> snapshot s \<noteq> None
      | Unmount \<Rightarrow> True)"

definition set_ready :: "nat \<Rightarrow> ready \<Rightarrow> client \<Rightarrow> client" where
  "set_ready i r s = s\<lparr>sources := (sources s)[i := r]\<rparr>"

definition fire :: "timer \<Rightarrow> client \<Rightarrow> client" where
  "fire t s =
     (case t of Timer_Refresh i \<Rightarrow> refresh (clear_timer (Some i) s)
      | Timer_Connect i \<Rightarrow> connect (clear_timer (Some i) s))"

definition on_renderer_errors :: "bool \<Rightarrow> client \<Rightarrow> client" where
  "on_renderer_errors any s =
     (if any then s\<lparr>invalid := prop_or_undef (the (snapshot s)) (lit ''revision'')\<rparr> else s)"

definition client_act :: "event \<Rightarrow> client \<Rightarrow> client" where
  "client_act e s =
     (case e of
        Source_Open i \<Rightarrow> on_open i (set_ready i Opened s)
      | Source_Revision i \<Rightarrow> on_revision i s
      | Source_Revoked i \<Rightarrow> on_revoked i s
      | Source_Error i closed \<Rightarrow> on_error i (set_ready i (if closed then Closed else Connecting) s)
      | Response j code \<Rightarrow> on_response j code s
      | Body j body \<Rightarrow> on_body j body s
      | Timer_Fires t \<Rightarrow> fire t s
      | Renderer_Errors any \<Rightarrow> on_renderer_errors any s
      | Unmount \<Rightarrow> tear_down s)"

abbreviation client_reachable :: "jsstr list \<Rightarrow> jsstr \<Rightarrow> client \<Rightarrow> bool" where
  "client_reachable lib path \<equiv> reachable (mounted lib path) event_enabled client_act"

end
