(* ===== verification/Artifact_Client_Invariant.thy ===== *)
theory Artifact_Client_Invariant
  imports Artifact_Client
begin

text \<open>
  What holds in every reachable state of the artifact page. The fields fall into groups (the
  running refresh, the event sources with their reconnect timer, what is shown), each with its own
  invariant. The frame lemmas say which fields an operation leaves alone, so that a group's proof
  only looks at the operations that touch it.
\<close>

section \<open>Frames\<close>

lemma set_snapshot_frame [simp]:
  "c_lib (set_snapshot n s) = c_lib s" "c_path (set_snapshot n s) = c_path s"
  "stopped (set_snapshot n s) = stopped s" "active (set_snapshot n s) = active s"
  "pending (set_snapshot n s) = pending s" "retry (set_snapshot n s) = retry s"
  "stream_retry (set_snapshot n s) = stream_retry s"
  "reconnect_delay (set_snapshot n s) = reconnect_delay s" "stream (set_snapshot n s) = stream s"
  "sources (set_snapshot n s) = sources s" "source_urls (set_snapshot n s) = source_urls s"
  "loops (set_snapshot n s) = loops s" "requests (set_snapshot n s) = requests s"
  "timers (set_snapshot n s) = timers s" "next_timer (set_snapshot n s) = next_timer s"
  "aborted (set_snapshot n s) = aborted s" "status (set_snapshot n s) = status s"
  "invalid (set_snapshot n s) = invalid s"
  by (simp_all add: set_snapshot_def)

lemma set_status_frame [simp]:
  "c_lib (set_status t s) = c_lib s" "c_path (set_status t s) = c_path s"
  "stopped (set_status t s) = stopped s" "active (set_status t s) = active s"
  "pending (set_status t s) = pending s" "retry (set_status t s) = retry s"
  "stream_retry (set_status t s) = stream_retry s" "reconnect_delay (set_status t s) = reconnect_delay s"
  "stream (set_status t s) = stream s" "sources (set_status t s) = sources s"
  "source_urls (set_status t s) = source_urls s" "loops (set_status t s) = loops s"
  "requests (set_status t s) = requests s" "timers (set_status t s) = timers s"
  "next_timer (set_status t s) = next_timer s" "aborted (set_status t s) = aborted s"
  "snapshot (set_status t s) = snapshot s" "invalid (set_status t s) = invalid s"
  "title (set_status t s) = title s"
  by (simp_all add: set_status_def)

lemma clear_timer_frame [simp]:
  "c_lib (clear_timer h s) = c_lib s" "c_path (clear_timer h s) = c_path s"
  "stopped (clear_timer h s) = stopped s" "active (clear_timer h s) = active s"
  "pending (clear_timer h s) = pending s" "retry (clear_timer h s) = retry s"
  "stream_retry (clear_timer h s) = stream_retry s" "reconnect_delay (clear_timer h s) = reconnect_delay s"
  "stream (clear_timer h s) = stream s" "sources (clear_timer h s) = sources s"
  "source_urls (clear_timer h s) = source_urls s" "loops (clear_timer h s) = loops s"
  "requests (clear_timer h s) = requests s" "next_timer (clear_timer h s) = next_timer s"
  "aborted (clear_timer h s) = aborted s" "snapshot (clear_timer h s) = snapshot s"
  "status (clear_timer h s) = status s" "invalid (clear_timer h s) = invalid s"
  "title (clear_timer h s) = title s"
  by (simp_all add: clear_timer_def)

lemma arm_retry_frame [simp]:
  "c_lib (arm_retry s) = c_lib s" "c_path (arm_retry s) = c_path s" "stopped (arm_retry s) = stopped s"
  "active (arm_retry s) = active s" "pending (arm_retry s) = pending s"
  "stream_retry (arm_retry s) = stream_retry s" "reconnect_delay (arm_retry s) = reconnect_delay s"
  "stream (arm_retry s) = stream s" "sources (arm_retry s) = sources s"
  "source_urls (arm_retry s) = source_urls s" "loops (arm_retry s) = loops s"
  "requests (arm_retry s) = requests s" "aborted (arm_retry s) = aborted s"
  "snapshot (arm_retry s) = snapshot s" "status (arm_retry s) = status s"
  "invalid (arm_retry s) = invalid s" "title (arm_retry s) = title s"
  by (simp_all add: arm_retry_def)

lemma arm_connect_frame [simp]:
  "c_lib (arm_connect s) = c_lib s" "c_path (arm_connect s) = c_path s"
  "stopped (arm_connect s) = stopped s" "active (arm_connect s) = active s"
  "pending (arm_connect s) = pending s" "retry (arm_connect s) = retry s"
  "reconnect_delay (arm_connect s) = reconnect_delay s" "stream (arm_connect s) = stream s"
  "sources (arm_connect s) = sources s" "source_urls (arm_connect s) = source_urls s"
  "loops (arm_connect s) = loops s" "requests (arm_connect s) = requests s"
  "aborted (arm_connect s) = aborted s" "snapshot (arm_connect s) = snapshot s"
  "status (arm_connect s) = status s" "invalid (arm_connect s) = invalid s"
  "title (arm_connect s) = title s"
  by (simp_all add: arm_connect_def)

lemma close_source_frame [simp]:
  "c_lib (close_source i s) = c_lib s" "c_path (close_source i s) = c_path s"
  "stopped (close_source i s) = stopped s" "active (close_source i s) = active s"
  "pending (close_source i s) = pending s" "retry (close_source i s) = retry s"
  "stream_retry (close_source i s) = stream_retry s"
  "reconnect_delay (close_source i s) = reconnect_delay s" "stream (close_source i s) = stream s"
  "source_urls (close_source i s) = source_urls s" "loops (close_source i s) = loops s"
  "requests (close_source i s) = requests s" "timers (close_source i s) = timers s"
  "next_timer (close_source i s) = next_timer s" "aborted (close_source i s) = aborted s"
  "snapshot (close_source i s) = snapshot s" "status (close_source i s) = status s"
  "invalid (close_source i s) = invalid s" "title (close_source i s) = title s"
  by (simp_all add: close_source_def)

lemma close_stream_frame [simp]:
  "c_lib (close_stream s) = c_lib s" "c_path (close_stream s) = c_path s"
  "stopped (close_stream s) = stopped s" "active (close_stream s) = active s"
  "pending (close_stream s) = pending s" "retry (close_stream s) = retry s"
  "stream_retry (close_stream s) = stream_retry s" "reconnect_delay (close_stream s) = reconnect_delay s"
  "stream (close_stream s) = stream s" "source_urls (close_stream s) = source_urls s"
  "loops (close_stream s) = loops s" "requests (close_stream s) = requests s"
  "timers (close_stream s) = timers s" "next_timer (close_stream s) = next_timer s"
  "aborted (close_stream s) = aborted s" "snapshot (close_stream s) = snapshot s"
  "status (close_stream s) = status s" "invalid (close_stream s) = invalid s"
  "title (close_stream s) = title s"
  by (simp_all add: close_stream_def split: option.split)

lemma tear_down_frame [simp]:
  "c_lib (tear_down s) = c_lib s" "c_path (tear_down s) = c_path s" "active (tear_down s) = active s"
  "pending (tear_down s) = pending s" "retry (tear_down s) = retry s"
  "stream_retry (tear_down s) = stream_retry s" "reconnect_delay (tear_down s) = reconnect_delay s"
  "stream (tear_down s) = stream s" "source_urls (tear_down s) = source_urls s"
  "loops (tear_down s) = loops s" "requests (tear_down s) = requests s"
  "next_timer (tear_down s) = next_timer s" "snapshot (tear_down s) = snapshot s"
  "status (tear_down s) = status s" "invalid (tear_down s) = invalid s" "title (tear_down s) = title s"
  by (simp_all add: tear_down_def)

lemma revoke_frame [simp]:
  "c_lib (revoke s) = c_lib s" "c_path (revoke s) = c_path s" "active (revoke s) = active s"
  "pending (revoke s) = pending s" "retry (revoke s) = retry s" "stream_retry (revoke s) = stream_retry s"
  "reconnect_delay (revoke s) = reconnect_delay s" "stream (revoke s) = stream s"
  "source_urls (revoke s) = source_urls s" "loops (revoke s) = loops s" "requests (revoke s) = requests s"
  "next_timer (revoke s) = next_timer s" "invalid (revoke s) = invalid s"
  by (simp_all add: revoke_def)

lemma offer_snapshot_frame [simp]:
  "c_lib (offer_snapshot n s) = c_lib s" "c_path (offer_snapshot n s) = c_path s"
  "stopped (offer_snapshot n s) = stopped s" "active (offer_snapshot n s) = active s"
  "pending (offer_snapshot n s) = pending s" "retry (offer_snapshot n s) = retry s"
  "stream_retry (offer_snapshot n s) = stream_retry s"
  "reconnect_delay (offer_snapshot n s) = reconnect_delay s" "stream (offer_snapshot n s) = stream s"
  "sources (offer_snapshot n s) = sources s" "source_urls (offer_snapshot n s) = source_urls s"
  "loops (offer_snapshot n s) = loops s" "requests (offer_snapshot n s) = requests s"
  "timers (offer_snapshot n s) = timers s" "next_timer (offer_snapshot n s) = next_timer s"
  "aborted (offer_snapshot n s) = aborted s" "status (offer_snapshot n s) = status s"
  "invalid (offer_snapshot n s) = invalid s"
  by (simp_all add: offer_snapshot_def)

lemma back_off_frame [simp]:
  "c_lib (back_off s) = c_lib s" "c_path (back_off s) = c_path s" "stopped (back_off s) = stopped s"
  "active (back_off s) = active s" "pending (back_off s) = pending s" "retry (back_off s) = retry s"
  "stream_retry (back_off s) = stream_retry s" "stream (back_off s) = stream s"
  "sources (back_off s) = sources s" "source_urls (back_off s) = source_urls s"
  "loops (back_off s) = loops s" "requests (back_off s) = requests s" "timers (back_off s) = timers s"
  "next_timer (back_off s) = next_timer s" "aborted (back_off s) = aborted s"
  "snapshot (back_off s) = snapshot s" "status (back_off s) = status s" "invalid (back_off s) = invalid s"
  "title (back_off s) = title s"
  by (simp_all add: back_off_def)

lemma set_ready_frame [simp]:
  "c_lib (set_ready i r s) = c_lib s" "c_path (set_ready i r s) = c_path s"
  "stopped (set_ready i r s) = stopped s" "active (set_ready i r s) = active s"
  "pending (set_ready i r s) = pending s" "retry (set_ready i r s) = retry s"
  "stream_retry (set_ready i r s) = stream_retry s" "reconnect_delay (set_ready i r s) = reconnect_delay s"
  "stream (set_ready i r s) = stream s" "source_urls (set_ready i r s) = source_urls s"
  "loops (set_ready i r s) = loops s" "requests (set_ready i r s) = requests s"
  "timers (set_ready i r s) = timers s" "next_timer (set_ready i r s) = next_timer s"
  "aborted (set_ready i r s) = aborted s" "snapshot (set_ready i r s) = snapshot s"
  "status (set_ready i r s) = status s" "invalid (set_ready i r s) = invalid s"
  "title (set_ready i r s) = title s"
  by (simp_all add: set_ready_def)

lemma connect_frame [simp]:
  "c_lib (connect s) = c_lib s" "c_path (connect s) = c_path s" "stopped (connect s) = stopped s"
  "active (connect s) = active s" "pending (connect s) = pending s" "retry (connect s) = retry s"
  "stream_retry (connect s) = stream_retry s" "reconnect_delay (connect s) = reconnect_delay s"
  "loops (connect s) = loops s" "requests (connect s) = requests s" "timers (connect s) = timers s"
  "next_timer (connect s) = next_timer s" "aborted (connect s) = aborted s"
  "snapshot (connect s) = snapshot s" "status (connect s) = status s" "invalid (connect s) = invalid s"
  "title (connect s) = title s"
  by (simp_all add: connect_def)

lemma drop_loop_frame [simp]:
  "c_lib (drop_loop j s) = c_lib s" "c_path (drop_loop j s) = c_path s"
  "stopped (drop_loop j s) = stopped s" "active (drop_loop j s) = active s"
  "pending (drop_loop j s) = pending s" "retry (drop_loop j s) = retry s"
  "stream_retry (drop_loop j s) = stream_retry s" "reconnect_delay (drop_loop j s) = reconnect_delay s"
  "stream (drop_loop j s) = stream s" "sources (drop_loop j s) = sources s"
  "source_urls (drop_loop j s) = source_urls s" "requests (drop_loop j s) = requests s"
  "timers (drop_loop j s) = timers s" "next_timer (drop_loop j s) = next_timer s"
  "aborted (drop_loop j s) = aborted s" "snapshot (drop_loop j s) = snapshot s"
  "status (drop_loop j s) = status s" "invalid (drop_loop j s) = invalid s"
  "title (drop_loop j s) = title s"
  by (simp_all add: drop_loop_def)

lemma catch_round_frame [simp]:
  "c_lib (catch_round s) = c_lib s" "c_path (catch_round s) = c_path s"
  "stopped (catch_round s) = stopped s" "active (catch_round s) = active s"
  "pending (catch_round s) = pending s" "stream_retry (catch_round s) = stream_retry s"
  "reconnect_delay (catch_round s) = reconnect_delay s" "stream (catch_round s) = stream s"
  "sources (catch_round s) = sources s" "source_urls (catch_round s) = source_urls s"
  "loops (catch_round s) = loops s" "requests (catch_round s) = requests s"
  "aborted (catch_round s) = aborted s" "snapshot (catch_round s) = snapshot s"
  "invalid (catch_round s) = invalid s" "title (catch_round s) = title s"
  by (simp_all add: catch_round_def)

lemma start_round_frame [simp]:
  "c_lib (start_round s) = c_lib s" "c_path (start_round s) = c_path s"
  "stopped (start_round s) = stopped s" "active (start_round s) = active s"
  "retry (start_round s) = retry s" "stream_retry (start_round s) = stream_retry s"
  "reconnect_delay (start_round s) = reconnect_delay s" "stream (start_round s) = stream s"
  "sources (start_round s) = sources s" "source_urls (start_round s) = source_urls s"
  "timers (start_round s) = timers s" "next_timer (start_round s) = next_timer s"
  "aborted (start_round s) = aborted s" "snapshot (start_round s) = snapshot s"
  "status (start_round s) = status s" "invalid (start_round s) = invalid s"
  "title (start_round s) = title s"
  by (simp_all add: start_round_def)

lemma end_round_frame [simp]:
  "c_lib (end_round s) = c_lib s" "c_path (end_round s) = c_path s" "stopped (end_round s) = stopped s"
  "retry (end_round s) = retry s" "stream_retry (end_round s) = stream_retry s"
  "reconnect_delay (end_round s) = reconnect_delay s" "stream (end_round s) = stream s"
  "sources (end_round s) = sources s" "source_urls (end_round s) = source_urls s"
  "timers (end_round s) = timers s" "next_timer (end_round s) = next_timer s"
  "aborted (end_round s) = aborted s" "snapshot (end_round s) = snapshot s"
  "status (end_round s) = status s" "invalid (end_round s) = invalid s" "title (end_round s) = title s"
  by (simp_all add: end_round_def)

lemma refresh_frame [simp]:
  "c_lib (refresh s) = c_lib s" "c_path (refresh s) = c_path s" "stopped (refresh s) = stopped s"
  "retry (refresh s) = retry s" "stream_retry (refresh s) = stream_retry s"
  "reconnect_delay (refresh s) = reconnect_delay s" "stream (refresh s) = stream s"
  "sources (refresh s) = sources s" "source_urls (refresh s) = source_urls s"
  "next_timer (refresh s) = next_timer s" "aborted (refresh s) = aborted s"
  "snapshot (refresh s) = snapshot s" "status (refresh s) = status s" "invalid (refresh s) = invalid s"
  "title (refresh s) = title s"
  by (simp_all add: refresh_def)

lemma operation_fields [simp]:
  "stopped (tear_down s) = True" "aborted (tear_down s) = True" "stopped (revoke s) = True"
  "aborted (revoke s) = True" "snapshot (revoke s) = None" "status (revoke s) = status_unavailable"
  "title (revoke s) = plain_title" "snapshot (set_snapshot n s) = n" "title (set_snapshot n s) = title_of n"
  "status (set_status t s) = t" "pending (start_round s) = False"
  "loops (start_round s) = loops s @ [For_Response]"
  "requests (start_round s) = requests s @ [snapshot_url s]"
  "retry (arm_retry s) = Some (next_timer s)" "next_timer (arm_retry s) = Suc (next_timer s)"
  "stream_retry (arm_connect s) = Some (next_timer s)" "next_timer (arm_connect s) = Suc (next_timer s)"
  "reconnect_delay (back_off s) = min 10000 (reconnect_delay s * 2)"
  by (simp_all add: tear_down_def revoke_def set_snapshot_def set_status_def start_round_def
      arm_retry_def arm_connect_def back_off_def)

lemmas handlers = on_open_def on_revision_def on_revoked_def on_error_def on_response_def on_body_def
  fire_def on_renderer_errors_def client_act_def

section \<open>The running refresh\<close>

definition loops_ok :: "client \<Rightarrow> bool" where
  "loops_ok s \<longleftrightarrow> length (loops s) \<le> 1 \<and> (loops s \<noteq> [] \<longrightarrow> active s) \<and>
     (\<not> stopped s \<longrightarrow> active s \<longrightarrow> loops s \<noteq> []) \<and> (\<not> stopped s \<longrightarrow> pending s \<longrightarrow> active s)"

lemma loops_ok_cong:
  "loops s' = loops s \<Longrightarrow> active s' = active s \<Longrightarrow> pending s' = pending s \<Longrightarrow> stopped s' = stopped s \<Longrightarrow>
     loops_ok s' = loops_ok s"
  by (simp add: loops_ok_def)

lemma loops_ok_refresh: "loops_ok s \<Longrightarrow> loops_ok (refresh s)"
  by (auto simp: refresh_def loops_ok_def)

lemma loops_ok_stopped: "loops_ok s \<Longrightarrow> loops s' = loops s \<Longrightarrow> active s' = active s \<Longrightarrow> stopped s' \<Longrightarrow> loops_ok s'"
  by (auto simp: loops_ok_def)

lemma drop_loop_last: "loops_ok s \<Longrightarrow> j < length (loops s) \<Longrightarrow> loops (drop_loop j s) = [] \<and> active s"
  by (auto simp: loops_ok_def drop_loop_def)

lemma loops_ok_end_round: "loops s = [] \<Longrightarrow> active s \<Longrightarrow> loops_ok (end_round s)"
  by (auto simp: end_round_def loops_ok_def)

lemma loops_ok_act:
  assumes "loops_ok s" and "event_enabled e s"
  shows "loops_ok (client_act e s)"
proof (cases e)
  case (Response j code)
  then have j: "j < length (loops s)" using assms(2) by (simp add: event_enabled_def)
  note last = drop_loop_last[OF assms(1) j]
  have "loops_ok (revoke (drop_loop j s))" "loops_ok (s\<lparr>loops := (loops s)[j := For_Body]\<rparr>)"
    using last assms(1) by (auto simp: loops_ok_def)
  then show ?thesis
    using Response last by (auto simp: handlers loops_ok_end_round split: option.split)
next
  case (Body j body)
  then have j: "j < length (loops s)" using assms(2) by (simp add: event_enabled_def)
  note last = drop_loop_last[OF assms(1) j]
  have "stopped s \<Longrightarrow> loops_ok (drop_loop j s)" using last assms(1) by (simp add: loops_ok_def)
  then show ?thesis
    using Body last by (auto simp: handlers loops_ok_end_round split: option.split)
next
  case (Source_Error i closed)
  have "loops_ok (set_ready i r s)" for r using assms(1) by (simp add: loops_ok_def)
  then show ?thesis
    using Source_Error by (auto simp: handlers intro!: loops_ok_refresh) (simp_all add: loops_ok_def)
next
  case (Timer_Fires t)
  have "loops_ok (clear_timer h s)" "loops_ok (connect (clear_timer h s))" for h
    using assms(1) by (simp_all add: loops_ok_def)
  then show ?thesis using Timer_Fires by (auto simp: handlers loops_ok_refresh split: timer.split)
next
  case (Renderer_Errors any)
  then show ?thesis using assms(1) by (simp add: handlers loops_ok_def)
next
  case Unmount
  then show ?thesis using assms(1) by (auto simp: handlers intro: loops_ok_stopped)
next
  case (Source_Open i)
  have "loops_ok (set_ready i Opened s)" "loops_ok ((set_ready i Opened s)\<lparr>reconnect_delay := 500\<rparr>)"
    using assms(1) by (simp_all add: loops_ok_def)
  then show ?thesis using Source_Open by (auto simp: handlers loops_ok_refresh)
next
  case (Source_Revision i)
  then show ?thesis using assms(1) by (simp add: handlers loops_ok_refresh)
next
  case (Source_Revoked i)
  then show ?thesis using assms(1) by (auto simp: handlers intro: loops_ok_stopped)
qed

section \<open>The event sources\<close>

definition is_connect :: "timer \<times> nat \<Rightarrow> bool" where
  "is_connect t = (case fst t of Timer_Connect _ \<Rightarrow> True | _ \<Rightarrow> False)"

text \<open>
  Only the current source is not closed; while the page is mounted there is a current source or
  one armed timer that will open one, never both; afterwards neither.
\<close>

definition timer_ids :: "client \<Rightarrow> nat list" where
  "timer_ids s = map (timer_id \<circ> fst) (timers s)"

definition connect_ids :: "client \<Rightarrow> nat list" where
  "connect_ids s = map (timer_id \<circ> fst) (filter is_connect (timers s))"

definition timers_ok :: "client \<Rightarrow> bool" where
  "timers_ok s \<longleftrightarrow>
     (\<forall>i \<in> set (timer_ids s). i < next_timer s) \<and> distinct (timer_ids s) \<and>
     (\<forall>i \<in> set (connect_ids s). Some i \<noteq> retry s) \<and> (\<forall>h. retry s = Some h \<longrightarrow> h < next_timer s) \<and>
     (stopped s \<or> stream s \<noteq> None \<longrightarrow> connect_ids s = []) \<and>
     (\<not> stopped s \<longrightarrow> stream s = None \<longrightarrow> (\<exists>h. stream_retry s = Some h \<and> connect_ids s = [h]))"

definition streams_ok :: "client \<Rightarrow> bool" where
  "streams_ok s \<longleftrightarrow>
     (\<forall>i. ready_of s i = Closed \<or> stream s = Some i) \<and>
     (if stopped s then \<forall>i. ready_of s i = Closed
      else case stream s of None \<Rightarrow> True | Some i \<Rightarrow> ready_of s i \<noteq> Closed) \<and>
     500 \<le> reconnect_delay s \<and> reconnect_delay s \<le> 10000"

lemma is_connect_simps [simp]: "is_connect (Timer_Connect h, d)" "\<not> is_connect (Timer_Refresh h, d)"
  by (simp_all add: is_connect_def)

lemma ids_clear [simp]:
  "timer_ids (clear_timer h s) = filter (\<lambda>i. Some i \<noteq> h) (timer_ids s)"
  "connect_ids (clear_timer h s) = filter (\<lambda>i. Some i \<noteq> h) (connect_ids s)"
  by (simp_all add: timer_ids_def connect_ids_def clear_timer_def filter_map comp_def conj_commute)

lemma ids_arm [simp]:
  "timer_ids (arm_retry s) = next_timer s # timer_ids s" "connect_ids (arm_retry s) = connect_ids s"
  "timer_ids (arm_connect s) = next_timer s # timer_ids s"
  "connect_ids (arm_connect s) = next_timer s # connect_ids s"
  by (simp_all add: timer_ids_def connect_ids_def arm_retry_def arm_connect_def)

lemma ids_cong:
  "timers s' = timers s \<Longrightarrow> timer_ids s' = timer_ids s \<and> connect_ids s' = connect_ids s"
  by (simp add: timer_ids_def connect_ids_def)

lemma connect_ids_sub: "set (connect_ids s) \<subseteq> set (timer_ids s)"
  by (auto simp: connect_ids_def timer_ids_def)

lemma timers_ok_cong:
  "timers s' = timers s \<Longrightarrow> next_timer s' = next_timer s \<Longrightarrow> retry s' = retry s \<Longrightarrow>
     stopped s' = stopped s \<Longrightarrow> stream s' = stream s \<Longrightarrow> stream_retry s' = stream_retry s \<Longrightarrow>
     timers_ok s' = timers_ok s"
  using ids_cong[of s' s] by (simp add: timers_ok_def)

lemma timers_ok_clear: "timers_ok s \<Longrightarrow> \<forall>i \<in> set (connect_ids s). Some i \<noteq> h \<Longrightarrow> timers_ok (clear_timer h s)"
  by (auto simp: timers_ok_def filter_empty_conv)

lemma timers_ok_refresh: 
  assumes "timers_ok s"
  shows "timers_ok (refresh s)"
proof -
  have "timers_ok (clear_timer (retry s) s)"
    by (rule timers_ok_clear[OF assms]) (use assms in \<open>auto simp: timers_ok_def\<close>)
  then have "timers_ok (start_round (clear_timer (retry s) (s\<lparr>active := True\<rparr>)))"
    by (rule iffD1[OF timers_ok_cong, rotated -1]) (simp_all add: clear_timer_def)
  moreover have "timers_ok (s\<lparr>pending := True\<rparr>) = timers_ok s" by (rule timers_ok_cong) simp_all
  ultimately show ?thesis using assms by (simp add: refresh_def)
qed

lemma timers_ok_arm_retry: "timers_ok s \<Longrightarrow> timers_ok (arm_retry s)"
  using connect_ids_sub[of s] by (auto simp: timers_ok_def less_Suc_eq)

lemma timers_ok_end_round: "timers_ok (end_round s) = timers_ok s"
  by (rule timers_ok_cong) simp_all

lemma timers_ok_catch:
  assumes "timers_ok s"
  shows "timers_ok (catch_round s)"
proof -
  have "timers_ok (set_status t s)" for t using assms timers_ok_cong[of "set_status t s" s] by simp
  then show ?thesis using assms by (simp add: catch_round_def timers_ok_arm_retry)
qed

lemma timers_ok_tear_down:
  assumes "timers_ok s"
  shows "timers_ok (tear_down s)"
proof -
  have t: "timers (tear_down s) = timers (clear_timer (stream_retry s) (clear_timer (retry s) s))"
    by (simp add: tear_down_def clear_timer_def)
  then show ?thesis
    using assms ids_cong[OF t] by (cases "stopped s"; cases "stream s") (auto simp: timers_ok_def)
qed

lemma ready_of_simps [simp]:
  "ready_of (close_source i s) j = (if j = i then Closed else ready_of s j)"
  "ready_of (set_ready i r s) j = (if j = i \<and> i < length (sources s) then r else ready_of s j)"
  by (auto simp: ready_of_def close_source_def set_ready_def)

lemma ready_of_cong: "sources s' = sources s \<Longrightarrow> ready_of s' = ready_of s"
  by (simp add: ready_of_def fun_eq_iff)

lemma ready_of_connect: "\<not> stopped s \<Longrightarrow> ready_of (connect s) j = (if j = length (sources s) then Connecting else ready_of s j)"
  by (auto simp: ready_of_def connect_def nth_append)

lemma ready_of_live: "ready_of s i \<noteq> Closed \<Longrightarrow> i < length (sources s)"
  by (auto simp: ready_of_def split: if_splits)

lemma source_live: "streams_ok s \<Longrightarrow> ready_of s i \<noteq> Closed \<Longrightarrow> stream s = Some i \<and> \<not> stopped s"
  unfolding streams_ok_def by metis

lemma streams_ok_cong:
  "sources s' = sources s \<Longrightarrow> stream s' = stream s \<Longrightarrow> stopped s' = stopped s \<Longrightarrow>
     reconnect_delay s' = reconnect_delay s \<Longrightarrow> streams_ok s' = streams_ok s"
  using ready_of_cong[of s' s] by (cases "stream s") (simp_all add: streams_ok_def)

lemma streams_ok_frames [simp]:
  "streams_ok (refresh s) = streams_ok s" "streams_ok (end_round s) = streams_ok s"
  "streams_ok (catch_round s) = streams_ok s" "streams_ok (drop_loop j s) = streams_ok s"
  "streams_ok (clear_timer h s) = streams_ok s" "streams_ok (set_status t s) = streams_ok s"
  "streams_ok (offer_snapshot n s) = streams_ok s"
  by (rule streams_ok_cong; simp)+

lemma sources_tear_down: "sources (tear_down s) = sources (close_stream s)"
  by (simp add: tear_down_def close_stream_def close_source_def split: option.split)

lemma ready_of_tear_down:
  "streams_ok s \<Longrightarrow> ready_of (tear_down s) i = Closed"
  using ready_of_cong[OF sources_tear_down[of s]]
  by (cases "stream s") (auto simp: streams_ok_def close_stream_def)

lemma streams_ok_tear_down: "streams_ok s \<Longrightarrow> streams_ok (tear_down s)"
  using ready_of_tear_down[of s] by (auto simp: streams_ok_def)

lemma tear_down_revoke:
  "sources (revoke s) = sources (tear_down s)" "timers (revoke s) = timers (tear_down s)"
  by (simp_all add: revoke_def)

lemma streams_ok_revoke: "streams_ok s \<Longrightarrow> streams_ok (revoke s)"
  using streams_ok_tear_down[of s] streams_ok_cong[of "revoke s" "tear_down s"] tear_down_revoke by simp

lemma timers_ok_revoke: "timers_ok s \<Longrightarrow> timers_ok (revoke s)"
  using timers_ok_tear_down[of s] timers_ok_cong[of "revoke s" "tear_down s"] tear_down_revoke by simp

lemma timers_ok_frames [simp]:
  "timers_ok (drop_loop j s) = timers_ok s" "timers_ok (set_status t s) = timers_ok s"
  "timers_ok (offer_snapshot n s) = timers_ok s" "timers_ok (set_ready i r s) = timers_ok s"
  "timers_ok (end_round s) = timers_ok s"
  by (rule timers_ok_cong; simp)+

lemma reconnecting_ok:
  assumes "streams_ok s" and "timers_ok s" and "ready_of s i \<noteq> Closed"
  defines "s' \<equiv> back_off (arm_connect (close_source i ((set_status status_reconnecting (set_ready i Closed s))\<lparr>stream := None\<rparr>)))"
  shows "streams_ok s'" and "timers_ok s'"
proof -
  have i: "stream s = Some i" "\<not> stopped s" using source_live assms by blast+
  have r: "ready_of s' j = Closed" for j
  proof -
    have "ready_of s' j = ready_of (close_source i s) j"
      by (rule fun_cong[OF ready_of_cong]) (simp add: s'_def close_source_def set_ready_def)
    then show ?thesis using assms(1) i by (auto simp: streams_ok_def)
  qed
  show "streams_ok s'" using assms(1) r by (auto simp: s'_def streams_ok_def)
  have ids: "timer_ids s' = next_timer s # timer_ids s" "connect_ids s' = next_timer s # connect_ids s"
    by (simp_all add: s'_def timer_ids_def connect_ids_def back_off_def arm_connect_def)
  have "retry s \<noteq> Some (next_timer s)" using assms(2) by (auto simp: timers_ok_def)
  then show "timers_ok s'" using assms(2) i ids by (auto simp: s'_def timers_ok_def less_Suc_eq)
qed

lemma connect_ok:
  assumes "streams_ok s" and "timers_ok s" and "Timer_Connect h \<in> fst ` set (timers s)"
  shows "streams_ok (connect (clear_timer (Some h) s))" and "timers_ok (connect (clear_timer (Some h) s))"
proof -
  have "h \<in> set (connect_ids s)" using assms(3) by (force simp: connect_ids_def)
  then have s: "stream s = None" "\<not> stopped s" "connect_ids s = [h]"
    using assms(2) by (auto simp: timers_ok_def split: if_splits)
  let ?t = "clear_timer (Some h) s"
  have r: "ready_of (connect ?t) j = (if j = length (sources s) then Connecting else Closed)" for j
    using ready_of_connect[of ?t j] s assms(1) ready_of_cong[of ?t s]
    by (auto simp: streams_ok_def)
  have st: "stream (connect ?t) = Some (length (sources s))" using s by (simp add: connect_def)
  show "streams_ok (connect ?t)" using assms(1) s r st by (simp add: streams_ok_def)
  have "timer_ids (connect ?t) = timer_ids ?t" "connect_ids (connect ?t) = connect_ids ?t"
    by (simp_all add: timer_ids_def connect_ids_def)
  then show "timers_ok (connect ?t)" using assms(2) s st by (auto simp: timers_ok_def)
qed

lemma clear_refresh_ok:
  assumes "timers_ok s" and "Timer_Refresh h \<in> fst ` set (timers s)"
  shows "timers_ok (clear_timer (Some h) s)"
proof (rule timers_ok_clear[OF assms(1)], rule ballI)
  fix i assume "i \<in> set (connect_ids s)"
  then obtain j d where j: "(Timer_Connect j, d) \<in> set (timers s)" "i = j"
    unfolding connect_ids_def is_connect_def
    by clarsimp (metis timer.exhaust timer.simps(5) timer_id.simps(2))
  obtain d' where "(Timer_Refresh h, d') \<in> set (timers s)" using assms(2) by auto
  moreover have "inj_on (timer_id \<circ> fst) (set (timers s))"
    using assms(1) by (simp add: timers_ok_def timer_ids_def distinct_map)
  ultimately have "j = h \<Longrightarrow> (Timer_Connect j, d) = (Timer_Refresh h, d')"
    using j(1) unfolding inj_on_def by fastforce
  then have "j \<noteq> h" by auto
  then show "Some i \<noteq> Some h" using j(2) by simp
qed

lemma source_open_ok:
  assumes "streams_ok s" and "timers_ok s" and "event_enabled (Source_Open i) s"
  shows "streams_ok (client_act (Source_Open i) s) \<and> timers_ok (client_act (Source_Open i) s)"
proof -
  have i: "stream s = Some i" "\<not> stopped s" "i < length (sources s)"
    using source_live[OF assms(1), of i] assms(3) ready_of_live by (auto simp: event_enabled_def)
  let ?s = "(set_ready i Opened s)\<lparr>reconnect_delay := 500\<rparr>"
  have "ready_of ?s = ready_of (set_ready i Opened s)" by (rule ready_of_cong) simp
  then have "streams_ok ?s" using assms(1) i by (auto simp: streams_ok_def)
  moreover have "timers_ok ?s = timers_ok s" by (rule timers_ok_cong) simp_all
  ultimately show ?thesis
    using i assms(2) by (simp add: handlers belongs_def timers_ok_refresh)
qed

lemma source_error_ok:
  assumes "streams_ok s" and "timers_ok s" and "event_enabled (Source_Error i closed) s"
  shows "streams_ok (client_act (Source_Error i closed) s) \<and> timers_ok (client_act (Source_Error i closed) s)"
proof -
  have r: "ready_of s i \<noteq> Closed" using assms(3) by (simp add: event_enabled_def)
  then have i: "stream s = Some i" "\<not> stopped s" "i < length (sources s)"
    using source_live[OF assms(1), of i] ready_of_live by auto
  have c: "streams_ok (set_ready i Connecting s)" using assms(1) i by (auto simp: streams_ok_def)
  show ?thesis
    using i c assms(2) reconnecting_ok[OF assms(1,2) r]
    by (simp add: handlers belongs_def timers_ok_refresh)
qed

lemma timer_fires_ok:
  assumes "streams_ok s" and "timers_ok s" and "event_enabled (Timer_Fires t) s"
  shows "streams_ok (client_act (Timer_Fires t) s) \<and> timers_ok (client_act (Timer_Fires t) s)"
proof -
  have t: "t \<in> fst ` set (timers s)" using assms(3) by (simp add: event_enabled_def)
  show ?thesis
  proof (cases t)
    case (Timer_Refresh h)
    then show ?thesis
      using assms(1) clear_refresh_ok[OF assms(2), of h] t by (simp add: handlers timers_ok_refresh)
  next
    case (Timer_Connect h)
    then show ?thesis
      using connect_ok[OF assms(1,2), of h] t by (simp add: handlers)
  qed
qed

lemma streams_timers_cong:
  "streams_ok (s\<lparr>loops := l\<rparr>) = streams_ok s" "timers_ok (s\<lparr>loops := l\<rparr>) = timers_ok s"
  "streams_ok (s\<lparr>invalid := v\<rparr>) = streams_ok s" "timers_ok (s\<lparr>invalid := v\<rparr>) = timers_ok s"
  by (rule streams_ok_cong timers_ok_cong; simp)+

lemma streams_timers_act:
  assumes "streams_ok s" and "timers_ok s" and "event_enabled e s"
  shows "streams_ok (client_act e s) \<and> timers_ok (client_act e s)"
proof (cases e)
  case (Source_Open i)
  then show ?thesis using source_open_ok assms by blast
next
  case (Source_Error i closed)
  then show ?thesis using source_error_ok assms by blast
next
  case (Timer_Fires t)
  then show ?thesis using timer_fires_ok assms by blast
next
  case (Response j code)
  then show ?thesis
    using assms(1,2)
    by (auto simp: handlers streams_timers_cong streams_ok_revoke timers_ok_revoke timers_ok_catch split: option.split)
qed (use assms in \<open>auto simp: handlers streams_timers_cong timers_ok_refresh timers_ok_catch streams_ok_revoke
    timers_ok_revoke streams_ok_tear_down timers_ok_tear_down split: option.split\<close>)

section \<open>What is shown\<close>

definition view_checked :: "jsstr list \<Rightarrow> jsv \<Rightarrow> bool" where
  "view_checked lib n \<longleftrightarrow>
     (case prop_or_undef n (lit ''view'') of
        JNull \<Rightarrow> True
      | JStr out \<Rightarrow> \<exists>source. preflight_view lib source (prop_or_undef n (lit ''data'')) = Inr out
      | _ \<Rightarrow> False)"

definition shown_ok :: "client \<Rightarrow> bool" where
  "shown_ok s \<longleftrightarrow> title s = title_of (snapshot s) \<and>
     (status s = status_live \<longrightarrow> snapshot s \<noteq> None) \<and>
     (status s = status_unavailable \<longrightarrow> stopped s \<and> snapshot s = None) \<and>
     (\<forall>n. snapshot s = Some n \<longrightarrow> view_checked (c_lib s) n)"

lemma statuses [simp]:
  "status_live \<noteq> status_unavailable" "status_unavailable \<noteq> status_live" "status_reconnecting \<noteq> status_live"
  "status_reconnecting \<noteq> status_unavailable" "status_connecting \<noteq> status_live" "status_connecting \<noteq> status_unavailable"
  by (simp_all add: status_live_def status_unavailable_def status_reconnecting_def status_connecting_def lit_def)

lemma prop_put [simp]:
  "prop_or_undef (JObj (put_prop kvs k v)) k' = (if k' = k then v else prop_or_undef (JObj kvs) k')"
  by (simp add: prop_or_undef_def)

lemma valid_snapshot_object: "valid_snapshot n \<Longrightarrow> \<exists>kvs. n = JObj kvs"
  by (cases n) (auto simp: valid_snapshot_def prop_or_undef_def lit_def index_key_def is_digit_def)

lemma view_data_differ [simp]: "lit ''view'' \<noteq> lit ''data''" "lit ''data'' \<noteq> lit ''view''" "lit ''revision'' \<noteq> lit ''view''"
  by (simp_all add: lit_def)

lemma checked_view_ok:
  assumes "valid_snapshot n"
  shows "view_checked lib (checked_view lib n)"
    and "prop_or_undef (checked_view lib n) (lit ''revision'') = prop_or_undef n (lit ''revision'')"
proof -
  obtain kvs where n: "n = JObj kvs" using valid_snapshot_object assms by blast
  then show "view_checked lib (checked_view lib n)"
    by (auto simp: view_checked_def checked_view_def split: sum.splits)
  show "prop_or_undef (checked_view lib n) (lit ''revision'') = prop_or_undef n (lit ''revision'')"
    using n by (simp add: checked_view_def)
qed

lemma shown_ok_cong:
  "title s' = title s \<Longrightarrow> status s' = status s \<Longrightarrow> snapshot s' = snapshot s \<Longrightarrow> stopped s' = stopped s \<Longrightarrow>
     c_lib s' = c_lib s \<Longrightarrow> shown_ok s' = shown_ok s"
  by (simp add: shown_ok_def)

lemma shown_ok_frames [simp]:
  "shown_ok (refresh s) = shown_ok s" "shown_ok (end_round s) = shown_ok s"
  "shown_ok (drop_loop j s) = shown_ok s" "shown_ok (clear_timer h s) = shown_ok s"
  "shown_ok (connect s) = shown_ok s" "shown_ok (set_ready i r s) = shown_ok s"
  "shown_ok (back_off s) = shown_ok s" "shown_ok (arm_connect s) = shown_ok s"
  "shown_ok (close_source i s) = shown_ok s" "shown_ok (arm_retry s) = shown_ok s"
  by (rule shown_ok_cong; simp)+

lemma shown_ok_tear_down: "shown_ok s \<Longrightarrow> shown_ok (tear_down s)"
  by (auto simp: shown_ok_def)

lemma shown_ok_revoke: "shown_ok (revoke s)"
  by (simp add: shown_ok_def title_of_def)

lemma shown_ok_reconnecting: "shown_ok s \<Longrightarrow> \<not> stopped s \<Longrightarrow> shown_ok (set_status status_reconnecting s)"
  by (simp add: shown_ok_def)

lemma shown_ok_catch: "shown_ok s \<Longrightarrow> shown_ok (catch_round s)"
  by (simp add: catch_round_def shown_ok_reconnecting)

lemma offer_snapshot_shown: "\<exists>y. snapshot (offer_snapshot n s) = Some y"
  by (auto simp: offer_snapshot_def newer_def split: option.splits)

lemma shown_ok_offer: 
  "shown_ok s \<Longrightarrow> \<not> stopped s \<Longrightarrow> view_checked (c_lib s) n \<Longrightarrow> shown_ok (offer_snapshot n s)"
  by (auto simp: offer_snapshot_def shown_ok_def)

lemma shown_ok_stream_status:
  "shown_ok s \<Longrightarrow> \<not> stopped s \<Longrightarrow> snapshot s \<noteq> None \<Longrightarrow> shown_ok (set_status (stream_status s') s)"
  by (auto simp: shown_ok_def stream_status_def split: option.splits)

lemma shown_ok_act:
  assumes "shown_ok s"
  shows "shown_ok (client_act e s)"
proof (cases e)
  case (Source_Open i)
  have "shown_ok (s\<lparr>reconnect_delay := d\<rparr>) = shown_ok s" for s d by (rule shown_ok_cong) simp_all
  then show ?thesis using Source_Open assms by (simp add: handlers)
next
  case (Source_Error i closed)
  have "shown_ok (s\<lparr>stream := d\<rparr>) = shown_ok s" for s d by (rule shown_ok_cong) simp_all
  then show ?thesis using Source_Error assms by (simp add: handlers belongs_def shown_ok_reconnecting)
next
  case (Response j code)
  have "shown_ok (s\<lparr>loops := l\<rparr>) = shown_ok s" for l by (rule shown_ok_cong) simp_all
  then show ?thesis
    using Response assms by (auto simp: handlers shown_ok_revoke shown_ok_catch split: option.split)
next
  case (Body j body)
  then show ?thesis
    using assms by (auto simp: handlers shown_ok_catch checked_view_ok offer_snapshot_shown
        intro!: shown_ok_stream_status shown_ok_offer split: option.split)
next
  case (Renderer_Errors any)
  have "shown_ok (s\<lparr>invalid := v\<rparr>) = shown_ok s" for v by (rule shown_ok_cong) simp_all
  then show ?thesis using Renderer_Errors assms by (simp add: handlers)
qed (use assms in \<open>auto simp: handlers shown_ok_tear_down shown_ok_revoke split: timer.split\<close>)

section \<open>The invariant\<close>

definition client_inv :: "client \<Rightarrow> bool" where
  "client_inv s \<longleftrightarrow> loops_ok s \<and> streams_ok s \<and> timers_ok s \<and> shown_ok s"

lemma client_inv_act: "client_inv s \<Longrightarrow> event_enabled e s \<Longrightarrow> client_inv (client_act e s)"
  using loops_ok_act streams_timers_act shown_ok_act by (simp add: client_inv_def)

lemma client_inv_mounted: "client_inv (mounted lib path)"
  by (simp add: client_inv_def mounted_def loops_ok_def streams_ok_def timers_ok_def shown_ok_def
      client_start_def connect_def refresh_def start_round_def clear_timer_def ready_of_def timer_ids_def
      connect_ids_def title_of_def)

text \<open>What a stopped page may still do: nothing that the network sees, and no new timer.\<close>

definition client_work :: "client \<Rightarrow> nat" where
  "client_work s = length (requests s) + length (sources s) + next_timer s"

lemma client_stopped_act:
  assumes "client_inv s" and "stopped s" and "event_enabled e s"
  shows "stopped (client_act e s)" and "client_work (client_act e s) = client_work s"
proof -
  have closed: "ready_of s i = Closed" for i using assms by (simp add: client_inv_def streams_ok_def)
  have len: "length (sources (tear_down s)) = length (sources s)" for s
    by (simp add: tear_down_def close_stream_def close_source_def clear_timer_def split: option.split)
  have work: "client_work (tear_down t) = client_work t" "client_work (revoke t) = client_work t" for t
    using len[of t] tear_down_revoke(1)[of t] by (simp_all add: client_work_def)
  have same: "client_work (drop_loop j t) = client_work t" "client_work (clear_timer h t) = client_work t"
    "client_work (t\<lparr>loops := l\<rparr>) = client_work t" "client_work (t\<lparr>active := b\<rparr>) = client_work t"
    "client_work (t\<lparr>invalid := v\<rparr>) = client_work t" for j h l b v t
    by (simp_all add: client_work_def)
  show "stopped (client_act e s)"
    using assms(2) by (cases e)
      (auto simp: handlers belongs_def refresh_def connect_def split: option.split timer.split)
  show "client_work (client_act e s) = client_work s"
    using assms(2,3) closed by (cases e)
      (auto simp: handlers event_enabled_def belongs_def refresh_def connect_def end_round_def catch_round_def
        work same split: option.split timer.split)
qed

interpretation page: stopping_machine "mounted lib path" event_enabled client_act client_inv stopped client_work
  for lib path
  by unfold_locales (simp_all add: client_inv_mounted client_inv_act client_stopped_act)

end
