(* ===== verification/Artifact_Client_Properties.thy ===== *)
theory Artifact_Client_Properties
  imports Artifact_Client_Invariant Preflight_Properties
begin

text \<open>
  What the artifact page guarantees, whatever the order in which the network, the timers and the
  renderer call it.
\<close>

section \<open>Runs\<close>

lemma page_inv: "client_reachable lib path s \<Longrightarrow> client_inv s"
  by (rule page.reachable_inv)

lemma reachable_run:
  "run_events event_enabled client_act es (mounted lib path) = Some s \<Longrightarrow> client_reachable lib path s"
  by (erule run_reachable) (rule reachable_start)

lemma requests_act:
  "length (requests s) \<le> length (requests (client_act e s))"
  by (cases e) (auto simp: handlers refresh_def end_round_def split: option.split timer.split)

lemma loop_last: "client_inv s \<Longrightarrow> j < length (loops s) \<Longrightarrow> loops (drop_loop j s) = [] \<and> active s"
  by (simp add: client_inv_def drop_loop_last)

lemma pending_end: 
  assumes "pending s" and "\<not> stopped s"
  shows "length (requests (end_round s)) = Suc (length (requests s))"
  using assms by (simp add: end_round_def)

text \<open>While a second round is owed, every event either leaves it owed, starts it, or stops the page.\<close>

definition owed :: "nat \<Rightarrow> client \<Rightarrow> bool" where
  "owed n s \<longleftrightarrow> n < length (requests s) \<or> stopped s \<or> pending s \<and> active s"

lemma owed_same:
  "owed n s \<Longrightarrow> stopped s' = stopped s \<Longrightarrow> pending s' = pending s \<Longrightarrow> active s' = active s \<Longrightarrow>
     requests s' = requests s \<Longrightarrow> owed n s'"
  by (simp add: owed_def)

lemma owed_refresh: "owed n s \<Longrightarrow> owed n (refresh s)"
  by (auto simp: owed_def refresh_def)

lemma owed_end_round: "n \<le> length (requests s) \<Longrightarrow> owed n s \<Longrightarrow> owed n (end_round s)"
  by (auto simp: owed_def end_round_def)

lemma owed_act:
  assumes "owed n s" and "n \<le> length (requests s)"
  shows "owed n (client_act e s) \<and> n \<le> length (requests (client_act e s))"
proof
  show "n \<le> length (requests (client_act e s))" using assms(2) requests_act[of s e] by linarith
  show "owed n (client_act e s)"
  proof (cases e)
    case (Response j code)
    have "owed n (revoke (drop_loop j s))" by (simp add: owed_def)
    moreover have "owed n (s\<lparr>loops := l\<rparr>)" for l using assms(1) by (rule owed_same) simp_all
    moreover have "owed n (end_round (catch_round (drop_loop j s)))"
      by (rule owed_end_round) (use assms in \<open>auto elim: owed_same\<close>)
    ultimately show ?thesis using Response by (auto simp: handlers split: option.split)
  next
    case (Body j body)
    have "owed n (drop_loop j s)" using assms(1) by (rule owed_same) simp_all
    moreover have "owed n (end_round (catch_round (drop_loop j s)))"
      by (rule owed_end_round) (use assms in \<open>auto elim: owed_same\<close>)
    moreover have "owed n (end_round (set_status t (offer_snapshot v (drop_loop j s))))" for t v
      by (rule owed_end_round) (use assms in \<open>auto elim: owed_same\<close>)
    ultimately show ?thesis using Body by (auto simp: handlers split: option.split)
  next
    case (Source_Open i)
    have "owed n ((set_ready i Opened s)\<lparr>reconnect_delay := 500\<rparr>)" "owed n (set_ready i Opened s)"
      using assms(1) by (rule owed_same; simp)+
    then show ?thesis using Source_Open by (simp add: handlers owed_refresh)
  next
    case (Source_Error i closed)
    have "owed n (set_status status_reconnecting (set_ready i r s))" "owed n (set_ready i r s)"
      "owed n (back_off (arm_connect (close_source i ((set_status status_reconnecting (set_ready i r s))\<lparr>stream := None\<rparr>))))" for r
      using assms(1) by (rule owed_same; simp)+
    then show ?thesis using Source_Error by (simp add: handlers owed_refresh)
  next
    case (Timer_Fires t)
    have "owed n (clear_timer h s)" "owed n (connect (clear_timer h s))" for h
      using assms(1) by (rule owed_same; simp)+
    then show ?thesis using Timer_Fires by (auto simp: handlers owed_refresh split: timer.split)
  next
    case (Renderer_Errors any)
    have "owed n (s\<lparr>invalid := v\<rparr>)" for v using assms(1) by (rule owed_same) simp_all
    then show ?thesis using Renderer_Errors assms(1) by (simp add: handlers)
  qed (use assms(1) owed_refresh in \<open>auto simp: handlers owed_def\<close>)
qed

section \<open>Revisions\<close>

definition at_least :: "jsv \<Rightarrow> client \<Rightarrow> bool" where
  "at_least p s \<longleftrightarrow> (case snapshot s of None \<Rightarrow> stopped s
     | Some n \<Rightarrow> num_int (revision_of p) \<le> num_int (revision_of n))"

lemma at_least_same: "snapshot s' = snapshot s \<Longrightarrow> stopped s' = stopped s \<Longrightarrow> at_least p s' = at_least p s"
  by (cases "snapshot s") (simp_all add: at_least_def)

lemma at_least_frames [simp]:
  "at_least p (refresh s) = at_least p s" "at_least p (end_round s) = at_least p s"
  "at_least p (catch_round s) = at_least p s" "at_least p (drop_loop j s) = at_least p s"
  "at_least p (clear_timer h s) = at_least p s" "at_least p (connect s) = at_least p s"
  "at_least p (set_status t s) = at_least p s" "at_least p (set_ready i r s) = at_least p s"
  "at_least p (back_off s) = at_least p s" "at_least p (arm_connect s) = at_least p s"
  "at_least p (close_source i s) = at_least p s" "at_least p (s\<lparr>stream := x\<rparr>) = at_least p s"
  "at_least p (s\<lparr>reconnect_delay := d\<rparr>) = at_least p s" "at_least p (s\<lparr>loops := w\<rparr>) = at_least p s"
  "at_least p (s\<lparr>invalid := v\<rparr>) = at_least p s"
  by (rule at_least_same; simp)+

lemma at_least_revoke: "at_least p (revoke s)" "at_least p s \<Longrightarrow> at_least p (tear_down s)"
  by (auto simp: at_least_def split: option.splits)

lemma at_least_offer: "at_least p s \<Longrightarrow> \<not> stopped s \<Longrightarrow> at_least p (offer_snapshot n s)"
  by (auto simp: at_least_def offer_snapshot_def newer_def split: option.splits)

lemma at_least_act: "at_least p s \<Longrightarrow> at_least p (client_act e s)"
  by (cases e) (auto simp: handlers at_least_revoke at_least_offer split: option.split timer.split)

lemmas page_eval [js_eval] = event_enabled_def client_act_def on_open_def on_revision_def on_revoked_def
  on_error_def on_response_def on_body_def fire_def on_renderer_errors_def mounted_def client_start_def
  refresh_def connect_def start_round_def clear_timer_def drop_loop_def catch_round_def end_round_def
  set_ready_def ready_of_def belongs_def arm_retry_def arm_connect_def set_status_def close_source_def
  back_off_def tear_down_def close_stream_def revoke_def set_snapshot_def offer_snapshot_def newer_def
  stream_status_def strip_slash_def valid_snapshot_def checked_view_def revision_of_def Js_Base.signed_def

section \<open>Properties\<close>

text \<open>C17: At most one \<open>refresh\<close> is in flight, and while the page is mounted one is exactly when
  \<open>active\<close> says so: a burst of revision events never starts concurrent requests.\<close>

theorem client_single_flight:
  assumes "client_reachable lib path s"
  shows "length (loops s) \<le> 1 \<and> (stopped s \<or> (active s \<longleftrightarrow> loops s \<noteq> []))"
  using page_inv[OF assms] by (auto simp: client_inv_def loops_ok_def)

lemma burst_run:
  "run_events event_enabled client_act [Source_Open 0, Source_Revision 0, Source_Revision 0] (mounted [] (lit ''/a/x/''))
     = Some ((mounted [] (lit ''/a/x/''))\<lparr>sources := [Opened], pending := True\<rparr>)"
  by (simp add: mounted_def client_start_def connect_def refresh_def start_round_def clear_timer_def
      event_enabled_def ready_of_def handlers belongs_def set_ready_def)

theorem client_single_flight_witness:
  "length (loops ((mounted [] (lit ''/a/x/''))\<lparr>sources := [Opened], pending := True\<rparr>)) \<le> 1"
  using client_single_flight[OF reachable_run[OF burst_run]] by blast

text \<open>C18: All event sources but the current one are closed; a mounted page has a current source
  that is not closed or exactly one armed timer that will open one, and after that it has neither.\<close>

theorem client_one_stream:
  assumes "client_reachable lib path s"
  shows "(ready_of s i = Closed \<or> stream s = Some i \<and> \<not> stopped s) \<and>
    (if stopped s then connect_ids s = []
     else case stream s of Some j \<Rightarrow> ready_of s j \<noteq> Closed \<and> connect_ids s = []
       | None \<Rightarrow> length (connect_ids s) = 1)"
proof -
  have inv: "streams_ok s" "timers_ok s" using page_inv[OF assms] by (simp_all add: client_inv_def)
  have "if stopped s then connect_ids s = []
     else case stream s of Some j \<Rightarrow> ready_of s j \<noteq> Closed \<and> connect_ids s = []
       | None \<Rightarrow> length (connect_ids s) = 1"
    using inv by (cases "stream s") (auto simp: streams_ok_def timers_ok_def)
  moreover have "ready_of s i = Closed \<or> stream s = Some i \<and> \<not> stopped s"
    using source_live[OF inv(1)] by blast
  ultimately show ?thesis by blast
qed

theorem client_one_stream_witness:
  "stream ((mounted [] (lit ''/a/x/''))\<lparr>sources := [Opened], pending := True\<rparr>) = Some 0 \<and>
   ready_of ((mounted [] (lit ''/a/x/''))\<lparr>sources := [Opened], pending := True\<rparr>) 0 \<noteq> Closed"
proof -
  let ?s = "(mounted [] (lit ''/a/x/''))\<lparr>sources := [Opened], pending := True\<rparr>"
  have "stream ?s = Some 0" "\<not> stopped ?s"
    by (simp_all add: mounted_def client_start_def connect_def)
  then show ?thesis using client_one_stream[OF reachable_run[OF burst_run], of 0] by simp
qed

text \<open>C19: After a revocation or an unmount nothing more is started: no request, no event source,
  no timer, whatever still arrives.\<close>

theorem client_stops:
  assumes "client_reachable lib path s" and "stopped s"
    and "run_events event_enabled client_act es s = Some s'"
  shows "stopped s' \<and> length (requests s') = length (requests s) \<and> length (sources s') = length (sources s) \<and>
    next_timer s' = next_timer s"
proof -
  have mono: "length (requests s) \<le> length (requests s') \<and> length (sources s) \<le> length (sources s') \<and>
      next_timer s \<le> next_timer s'"
  proof (rule run_events_keep[where P = "\<lambda>t. length (requests s) \<le> length (requests t) \<and>
        length (sources s) \<le> length (sources t) \<and> next_timer s \<le> next_timer t", OF _ assms(3)])
    fix e t
    have "length (sources t) \<le> length (sources (client_act e t)) \<and> next_timer t \<le> next_timer (client_act e t)"
      by (cases e) (auto simp: handlers connect_def catch_round_def set_ready_def close_source_def revoke_def
          tear_down_def close_stream_def arm_retry_def clear_timer_def split: option.split timer.split)
    moreover assume "length (requests s) \<le> length (requests t) \<and> length (sources s) \<le> length (sources t) \<and>
      next_timer s \<le> next_timer t"
    ultimately show "length (requests s) \<le> length (requests (client_act e t)) \<and>
        length (sources s) \<le> length (sources (client_act e t)) \<and> next_timer s \<le> next_timer (client_act e t)"
      using requests_act[of t e] by linarith
  qed simp
  have "stopped s' \<and> client_work s' = client_work s"
    using page.stopped_run[OF page_inv[OF assms(1)] assms(2,3)] .
  with mono show ?thesis by (simp add: client_work_def)
qed

lemma unmount_run:
  "run_events event_enabled client_act [Unmount] (mounted [] []) = Some (tear_down (mounted [] []))"
  "run_events event_enabled client_act [Response 0 None] (tear_down (mounted [] [])) =
     Some ((tear_down (mounted [] []))\<lparr>loops := [], active := False\<rparr>)"
  by (simp_all add: event_enabled_def handlers mounted_def client_start_def refresh_def connect_def start_round_def
      tear_down_def clear_timer_def close_stream_def close_source_def drop_loop_def catch_round_def end_round_def
      lit_def strip_slash_def)

theorem client_stops_witness:
  "stopped (tear_down (mounted [] [])) \<and>
   length (requests ((tear_down (mounted [] []))\<lparr>loops := [], active := False\<rparr>)) = 1"
  using client_stops[OF reachable_run[OF unmount_run(1)] _ unmount_run(2)]
  by (simp add: mounted_def client_start_def refresh_def connect_def start_round_def clear_timer_def)

text \<open>C20: No update is lost: whenever the page is idle or has answered all requests after a revision
  event of its current source, it has sent a request after that event (or the page is stopped).\<close>

theorem client_no_lost_update:
  assumes "client_reachable lib path s" and "event_enabled (Source_Revision i) s"
    and "run_events event_enabled client_act es (client_act (Source_Revision i) s) = Some s'" and "loops s' = []"
  shows "stopped s' \<or> length (requests s) < length (requests s')"
proof -
  have inv: "client_inv s" using page_inv[OF assms(1)] .
  have live: "stream s = Some i" "\<not> stopped s"
    using source_live[of s i] inv assms(2) by (auto simp: client_inv_def event_enabled_def)
  let ?n = "length (requests s)"
  have "owed ?n (client_act (Source_Revision i) s)"
    using live by (auto simp: handlers belongs_def refresh_def owed_def)
  then have "owed ?n s' \<and> ?n \<le> length (requests s')"
    using run_events_keep[where P = "\<lambda>t. owed ?n t \<and> ?n \<le> length (requests t)", OF _ assms(3)]
      owed_act requests_act[of s "Source_Revision i"] by blast
  moreover have "loops_ok s'"
    using page.run_inv[OF assms(3)] client_inv_act[OF inv assms(2)] by (simp add: client_inv_def)
  ultimately show ?thesis using assms(4) by (auto simp: owed_def loops_ok_def)
qed

theorem client_no_lost_update_witness:
  "\<exists>s s'. run_events event_enabled client_act [Response 0 None, Response 0 None]
      (client_act (Source_Revision 0) s) = Some s' \<and> requests s = [lit ''/snapshot''] \<and>
      (stopped s' \<or> 1 < length (requests s'))"
proof -
  let ?s = "(mounted [] [])\<lparr>sources := [Opened], pending := True\<rparr>"
  have s: "run_events event_enabled client_act [Source_Open 0] (mounted [] []) = Some ?s" by (simp add: page_eval)
  obtain s' where s': "run_events event_enabled client_act [Response 0 None, Response 0 None]
      (client_act (Source_Revision 0) ?s) = Some s'" "loops s' = []"
    by (simp add: page_eval)
  have "requests ?s = [lit ''/snapshot'']" "event_enabled (Source_Revision 0) ?s"
    by (simp_all add: page_eval snapshot_url_def)
  with client_no_lost_update[OF reachable_run[OF s] _ s'] s'(1) show ?thesis by (intro exI[of _ ?s] exI[of _ s']) simp
qed

text \<open>C21: The revision on show never goes back: along any run a later snapshot has a revision that
  is at least the earlier one's, even when responses arrive out of order.\<close>

theorem client_revision_monotone:
  assumes "client_reachable lib path s" and "snapshot s = Some p"
    and "run_events event_enabled client_act es s = Some s'" and "snapshot s' = Some n"
  shows "num_int (revision_of p) \<le> num_int (revision_of n)"
proof -
  have "at_least p s" using assms(2) by (simp add: at_least_def)
  then have "at_least p s'"
    using run_events_keep[where P = "at_least p", OF _ assms(3)] at_least_act by blast
  then show ?thesis using assms(4) by (simp add: at_least_def)
qed

definition example_body :: "nat \<Rightarrow> jsv" where   \<comment> \<open>a snapshot with an empty view, for the examples\<close>
  "example_body r = JObj [(lit ''view'', JStr []), (lit ''data'', JObj []), (lit ''revision'', JNum (Fin False r 0))]"

lemma revision_runs:
  "map_option (\<lambda>s. map_option revision_of (snapshot s))
     (run_events event_enabled client_act [Response 0 (Some 200), Body 0 (Some (example_body 2))] (mounted [] [])) =
   Some (Some (Fin False 2 0))"
  "map_option (\<lambda>s. map_option revision_of (snapshot s))
     (run_events event_enabled client_act [Response 0 (Some 200), Body 0 (Some (example_body 2)), Source_Open 0,
        Response 0 (Some 200), Body 0 (Some (example_body 1))] (mounted [] [])) =
   Some (Some (Fin False 2 0))"
  by (simp_all add: js_eval example_body_def cong: bindE_stage)

theorem client_revision_monotone_witness:
  "\<exists>s s' p n. snapshot s = Some p \<and> snapshot s' = Some n \<and> revision_of p = Fin False 2 0 \<and>
     run_events event_enabled client_act [Source_Open 0, Response 0 (Some 200), Body 0 (Some (example_body 1))] s = Some s' \<and>
     num_int (revision_of p) \<le> num_int (revision_of n)"
proof -
  obtain s p where s: "run_events event_enabled client_act [Response 0 (Some 200), Body 0 (Some (example_body 2))]
      (mounted [] []) = Some s" "snapshot s = Some p" "revision_of p = Fin False 2 0"
    using revision_runs(1) by (auto simp: map_option_eq_Some)
  have "run_events event_enabled client_act [Response 0 (Some 200), Body 0 (Some (example_body 2)), Source_Open 0,
        Response 0 (Some 200), Body 0 (Some (example_body 1))] (mounted [] []) =
      run_events event_enabled client_act [Source_Open 0, Response 0 (Some 200), Body 0 (Some (example_body 1))] s"
    using run_events_append[of event_enabled client_act "[Response 0 (Some 200), Body 0 (Some (example_body 2))]"
        "[Source_Open 0, Response 0 (Some 200), Body 0 (Some (example_body 1))]" "mounted [] []"] s(1) by simp
  then obtain s' n where s': "run_events event_enabled client_act
      [Source_Open 0, Response 0 (Some 200), Body 0 (Some (example_body 1))] s = Some s'" "snapshot s' = Some n"
    using revision_runs(2) by (auto simp: map_option_eq_Some)
  show ?thesis
    using s(2,3) s' client_revision_monotone[OF reachable_run[OF s(1)] s(2) s'] by blast
qed

text \<open>What the renderer is given was returned by \<open>preflightView\<close> for the very data on show, so
  it is the text of a tree of library components without references and within the limits.\<close>

lemma client_renders_checked:
  assumes "client_reachable lib path s" and "snapshot s = Some n"
    and "prop_or_undef n (lit ''view'') = JStr out"
  shows "\<exists>source m. preflight_view (c_lib s) source (prop_or_undef n (lit ''data'')) = Inr out \<and>
    out = lit ''root = '' @ tree_text m \<and> tree_safe (c_lib s) m \<and> tree_weight m \<le> 20000"
proof -
  have "view_checked (c_lib s) n" using page_inv[OF assms(1)] assms(2) by (simp add: client_inv_def shown_ok_def)
  then obtain source where s: "preflight_view (c_lib s) source (prop_or_undef n (lit ''data'')) = Inr out"
    using assms(3) by (auto simp: view_checked_def)
  then obtain t m where m: "admits (c_lib s) t (prop_or_undef n (lit ''data'')) m" "out = lit ''root = '' @ tree_text m"
    using preflight_view_ok[where lib = "c_lib s" and source = source and data = "prop_or_undef n (lit ''data'')"] by auto
  then have "view_admits (view_of (c_lib s) t (prop_or_undef n (lit ''data''))) m" by (simp add: admits_iff)
  from view_admits_bounds[OF this] s m(2) show ?thesis by (auto simp: view_of_def)
qed

lemma client_lib: "client_reachable lib path s \<Longrightarrow> c_lib s = lib"
proof (induction rule: reachable.induct)
  case (reachable_event s e)
  then show ?case
    by (cases e) (simp_all add: client_act_def handlers on_renderer_errors_def fire_def split: option.split timer.split)
qed (simp add: mounted_def client_start_def)

text \<open>C22: A failed request (a rejected fetch or body, a status that is neither success nor 404 or
  410, a body that is not a snapshot) of a mounted page leaves what is shown, says Reconnecting, and
  arms a retry in three seconds.\<close>

theorem client_failure_retries:
  assumes "\<not> stopped s" and "e = Response j None \<or> e = Body j None \<or>
    (\<exists>c. e = Response j (Some c) \<and> c \<notin> {404, 410} \<and> (c < 200 \<or> 299 < c)) \<or>
    (\<exists>n. e = Body j (Some n) \<and> (nullish n \<or> \<not> valid_snapshot n))"
  shows "snapshot (client_act e s) = snapshot s \<and> status (client_act e s) = status_reconnecting \<and>
    (Timer_Refresh (next_timer s), 3000) \<in> set (timers (client_act e s))"
proof -
  have "client_act e s = end_round (catch_round (drop_loop j s))"
    using assms by (auto simp: handlers)
  then show ?thesis using assms(1) by (simp add: catch_round_def arm_retry_def)
qed

theorem client_failure_retries_witness:
  "status (client_act (Body 0 (Some JNull)) (mounted [] [])) = status_reconnecting"
  using client_failure_retries[of "mounted [] []" "Body 0 (Some JNull)" 0]
  by (simp add: mounted_def client_start_def connect_def)



text \<open>A missing artifact (404, 410) or a revocation takes the page down: nothing is shown, the
  status says so, and every event source is closed.\<close>

theorem client_revocation:
  assumes "client_reachable lib path s" and "event_enabled e s"
    and "e = Source_Revoked i \<or> e = Response j (Some 404) \<or> e = Response j (Some 410)"
  shows "snapshot (client_act e s) = None \<and> status (client_act e s) = status_unavailable \<and>
    stopped (client_act e s) \<and> aborted (client_act e s) \<and> (\<forall>k. ready_of (client_act e s) k = Closed)"
proof -
  have inv: "client_inv s" using page_inv[OF assms(1)] .
  have inv': "streams_ok (client_act e s)" using client_inv_act[OF inv assms(2)] by (simp add: client_inv_def)
  have "\<exists>t. client_act e s = revoke t"
  proof (cases "e = Source_Revoked i")
    case True
    then have "stream s = Some i" "\<not> stopped s"
      using source_live[of s i] inv assms(2) by (auto simp: client_inv_def event_enabled_def)
    then show ?thesis using True by (auto simp: handlers belongs_def)
  next
    case False
    then show ?thesis using assms(3) by (auto simp: handlers)
  qed
  then show ?thesis using inv' by (auto simp: streams_ok_def)
qed

theorem client_revocation_witness:
  "status (client_act (Response 0 (Some 404)) (mounted [] [])) = status_unavailable"
  using client_revocation[OF reachable_start, of "Response 0 (Some 404)" "[]" "[]" 0 0]
  by (simp add: mounted_def client_start_def connect_def event_enabled_def refresh_def start_round_def)

section \<open>Retry timers\<close>

text \<open>
  The loop arms a retry timer in every round that fails, and only the head of \<open>refresh\<close> clears one:
  two failing rounds of one loop leave two armed timers, of which \<open>retry\<close> holds the second.
\<close>

lemma two_retry_timers:
  assumes "\<not> stopped s" and "pending s" and "loops s = [For_Response]" and "timers s = []"
  shows "map snd (timers (client_act (Response 0 None) (client_act (Response 0 None) s))) = [3000, 3000]"
  using assms by (simp add: client_act_def on_response_def catch_round_def arm_retry_def set_status_def drop_loop_def
      end_round_def start_round_def)

end
