(* ===== verification/Artifact_View.thy ===== *)
theory Artifact_View
  imports Artifact_Client_Properties
begin

text \<open>
  \<open>client.jsx\<close>, what \<open>Artifact\<close> returns: the screen for a state of the page, the initial state
  the renderer gets from the data, and the error boundary, which React keeps per revision. The
  elements are kept as the texts and flags they depend on, without their markup.
\<close>

section \<open>The renderer's state\<close>

definition snapshot_data :: "jsv option \<Rightarrow> jsv" where   \<comment> \<open>\<open>snapshot?.data ?? {}\<close>\<close>
  "snapshot_data snap =
     (case snap of None \<Rightarrow> JObj []
      | Some n \<Rightarrow> if nullish (prop_or_undef n (lit ''data'')) then JObj [] else prop_or_undef n (lit ''data''))"

definition state_entry :: "jsstr \<times> jsv \<Rightarrow> jsstr \<times> jsv" where
  "state_entry e = (36 # fst e, snd e)"

definition initial_state :: "jsv option \<Rightarrow> jsv" where
  "initial_state snap = from_entries (map state_entry (entries_of (snapshot_data snap)))"

section \<open>The screen\<close>

datatype screen =
    Message jsstr                       \<comment> \<open>only a heading\<close>
  | Unrendered jsv                      \<comment> \<open>the alert, for a revision\<close>
  | Content jsv jsstr jsv               \<comment> \<open>revision, view and initial state of the \<open>Renderer\<close>\<close>

definition loading_text :: jsstr where
  "loading_text = lit ''Loading artifact'' @ [8230]"

definition artifact_screen :: "client \<Rightarrow> screen" where
  "artifact_screen s =
     (case snapshot s of
        None \<Rightarrow> Message (if status s = status_connecting then loading_text else status s)
      | Some n \<Rightarrow>
          if \<not> truthy (prop_or_undef n (lit ''view'')) \<or>
             strict_eq (invalid s) (prop_or_undef n (lit ''revision''))
          then Unrendered (prop_or_undef n (lit ''revision''))
          else Content (prop_or_undef n (lit ''revision'')) (to_str (prop_or_undef n (lit ''view'')))
                 (initial_state (snapshot s)))"

definition status_class :: "client \<Rightarrow> jsstr" where
  "status_class s = lit ''artifact-status '' @ (if status s = status_live then lit ''is-live'' else [])"

section \<open>The boundary\<close>

text \<open>
  A mounted \<open>Boundary\<close>: its key and \<open>state.failed\<close>. A render with another key, or without
  content, unmounts it; an error below it sets the flag.
\<close>

type_synonym boundary = "(jsstr \<times> bool) option"

definition reconcile :: "boundary \<Rightarrow> screen \<Rightarrow> boundary" where
  "reconcile b scr =
     (case scr of
        Content key view state \<Rightarrow>
          (case b of
             Some (old, failed) \<Rightarrow> if old = to_str key then b else Some (to_str key, False)
           | None \<Rightarrow> Some (to_str key, False))
      | _ \<Rightarrow> None)"

definition child_throws :: "boundary \<Rightarrow> boundary" where
  "child_throws b = map_option (\<lambda>(key, failed). (key, True)) b"

definition boundary_shows :: "boundary \<Rightarrow> bool" where   \<comment> \<open>the children, not the alert\<close>
  "boundary_shows b = (case b of Some (key, failed) \<Rightarrow> \<not> failed | None \<Rightarrow> False)"

section \<open>Lemmas\<close>

lemma map_of_put_all: "map_of (foldl (\<lambda>acc (k, v). put_prop acc k v) acc kvs) = map_of (rev kvs @ acc)"
proof (induction kvs arbitrary: acc)
  case (Cons e kvs)
  then show ?case by (cases e) (simp add: fun_eq_iff map_add_def split: option.split)
qed simp

lemma own_from_entries:
  assumes "distinct (map fst kvs)"
  shows "own (from_entries kvs) k = own (JObj kvs) k"
proof -
  have "map_of (rev kvs) = map_of kvs"
    using map_of_inject_set[of "rev kvs" kvs] assms by (simp add: rev_map[symmetric])
  then show ?thesis by (simp add: own_def from_entries_def map_of_put_all)
qed

lemma map_of_state: "map_of (map state_entry kvs) (36 # k) = map_of kvs k"
  by (induction kvs) (auto simp: state_entry_def)

lemma state_keys: "map fst (map state_entry kvs) = map ((#) 36) (map fst kvs)"
  by (induction kvs) (simp_all add: state_entry_def)

section \<open>Properties\<close>

text \<open>The state the renderer gets agrees with what preflight assumed: \<open>$key\<close> in the renderer's
  state is the value that preflight resolved a state reference \<open>$key\<close> to.\<close>

theorem renderer_state_matches:
  assumes "prop_or_undef n (lit ''data'') = JObj kvs" and "distinct (map fst kvs)"
  shows "own (initial_state (Some n)) (36 # key) = own (JObj kvs) key"
proof -
  have "distinct (map fst (map state_entry kvs))"
    using assms(2) unfolding state_keys by (simp add: distinct_map inj_on_def)
  from own_from_entries[OF this, of "36 # key"] show ?thesis
    using assms(1) by (simp add: initial_state_def snapshot_data_def own_def map_of_state)
qed

theorem renderer_state_matches_witness:
  "own (initial_state (Some (JObj [(lit ''data'', JObj [(lit ''rows'', JArr []), (lit ''n'', JBool True)])]))) (lit ''$n'')
     = JBool True"
  using renderer_state_matches[of "JObj [(lit ''data'', JObj [(lit ''rows'', JArr []), (lit ''n'', JBool True)])]"
      "[(lit ''rows'', JArr []), (lit ''n'', JBool True)]" "lit ''n''"]
  by (simp add: prop_or_undef_def own_def lit_def)

text \<open>The \<open>Renderer\<close> is mounted only for a view that \<open>preflightView\<close> returned for the data it
  is mounted with, and never for a revision that it has reported errors for.\<close>

lemma content_is_checked:
  assumes "client_reachable lib path s" and "artifact_screen s = Content r view state"
  shows "\<exists>n source. snapshot s = Some n \<and> state = initial_state (Some n) \<and>
    preflight_view (c_lib s) source (prop_or_undef n (lit ''data'')) = Inr view \<and> \<not> strict_eq (invalid s) r"
proof -
  obtain n where n: "snapshot s = Some n" "truthy (prop_or_undef n (lit ''view''))"
    "view = to_str (prop_or_undef n (lit ''view''))" "state = initial_state (Some n)" "\<not> strict_eq (invalid s) r"
    using assms(2) by (auto simp: artifact_screen_def split: option.splits if_splits)
  have "view_checked (c_lib s) n" using page_inv[OF assms(1)] n(1) by (simp add: client_inv_def shown_ok_def)
  then show ?thesis using n by (auto simp: view_checked_def split: jsv.splits)
qed

lemma content_run:
  "map_option artifact_screen
     (run_events event_enabled client_act [Response 0 (Some 200), Body 0 (Some (JObj [(lit ''view'', JStr (lit ''root = Stack([])'')),
        (lit ''data'', JObj []), (lit ''revision'', JNum (Fin False 2 0))]))] (mounted [lit ''Stack''] [])) =
   Some (Content (JNum (Fin False 2 0)) (lit ''root = Stack([])'') (JObj []))"
  by (simp add: js_eval artifact_screen_def initial_state_def snapshot_data_def cong: bindE_stage)

text \<open>An error inside the renderer fails only the boundary of that revision: the alert stays
  while the revision does, and the next revision mounts a fresh boundary that shows its content.\<close>

lemma boundary_recovers:
  assumes "to_str k' \<noteq> to_str k"
  shows "\<not> boundary_shows (reconcile (child_throws (reconcile b (Content k v st))) (Content k v' st')) \<and>
    boundary_shows (reconcile (child_throws (reconcile b (Content k v st))) (Content k' v' st'))"
  using assms by (auto simp: reconcile_def child_throws_def boundary_shows_def split: option.splits prod.splits if_splits)

lemma boundary_recovers_example:
  "boundary_shows (reconcile (child_throws (reconcile None (Content (JBool True) [] JNull))) (Content (JBool False) [] JNull))"
  using boundary_recovers[of "JBool False" "JBool True" None "[]" JNull "[]" JNull] by (simp add: lit_def)

end
