(* ===== verification/Markup.thy ===== *)
theory Markup
  imports Js_Base
begin

text \<open>
  The trees that components return (JSX), which React turns into a page: a text, or an element with
  its attributes and children. Keys, event handlers and \<open>ref\<close>s are not part of the tree.
\<close>

datatype element = Txt jsstr | Elem jsstr "(jsstr \<times> jsstr) list" "element list"

text \<open>The addresses in a tree.\<close>

fun hrefs :: "element \<Rightarrow> jsstr list" where
  "hrefs (Txt s) = []"
| "hrefs (Elem tag attrs kids) = map snd (filter (\<lambda>(k, v). k = lit ''href'') attrs) @ concat (map hrefs kids)"

text \<open>The text that a reader sees.\<close>

fun visible_text :: "element \<Rightarrow> jsstr" where
  "visible_text (Txt s) = s"
| "visible_text (Elem tag attrs kids) = concat (map visible_text kids)"

text \<open>The values that an attribute has in a tree.\<close>

fun attr_values :: "jsstr \<Rightarrow> element \<Rightarrow> jsstr list" where
  "attr_values name (Txt s) = []"
| "attr_values name (Elem tag attrs kids) =
     map snd (filter (\<lambda>(k, v). k = name) attrs) @ concat (map (attr_values name) kids)"

lemma hrefs_attr: "hrefs e = attr_values (lit ''href'') e"
  by (induction e) (auto intro!: arg_cong[where f = concat] map_cong)

end
