(* ===== verification/Js_Compare.thy ===== *)
theory Js_Compare
  imports Js_Number
begin

text \<open>
  The conversions behind the relational operators and the loops of the browser scripts:
  \<open>ToNumber\<close> of a value, \<open>a > b\<close>, the iteration of \<open>for (const x of v)\<close>, and the array and
  string methods that throw a TypeError on other values.
\<close>

section \<open>Numbers from strings\<close>

definition split_sign :: "jsstr \<Rightarrow> bool \<times> jsstr" where
  "split_sign s = (if s \<noteq> [] \<and> hd s = 45 then (True, tl s)
     else if s \<noteq> [] \<and> hd s = 43 then (False, tl s) else (False, s))"

definition decimal_digits :: "jsstr \<Rightarrow> nat" where
  "decimal_digits ds = foldl (\<lambda>n c. 10 * n + digit_val c) 0 ds"

definition exponent_part :: "jsstr \<Rightarrow> int option" where
  "exponent_part s =
     (case s of [] \<Rightarrow> Some 0
      | c # r \<Rightarrow> (case split_sign r of (neg, ds) \<Rightarrow>
          if c \<in> {69, 101} \<and> ds \<noteq> [] \<and> list_all is_digit ds
          then Some (if neg then - int (decimal_digits ds) else int (decimal_digits ds)) else None))"

definition fraction_part :: "jsstr \<Rightarrow> jsstr \<times> jsstr" where
  "fraction_part s = (case s of c # r \<Rightarrow> if c = 46 then (takeWhile is_digit r, dropWhile is_digit r) else ([], s)
     | [] \<Rightarrow> ([], []))"

definition decimal_number :: "bool \<Rightarrow> jsstr \<Rightarrow> jsnum" where
  "decimal_number neg s =
     (let ip = takeWhile is_digit s; (fp, r) = fraction_part (dropWhile is_digit s) in
      if ip @ fp = [] then NaN
      else case exponent_part r of None \<Rightarrow> NaN
        | Some e \<Rightarrow> num_of_decimal neg (decimal_digits (ip @ fp)) (e - int (length fp)))"

definition radix_digit :: "nat \<Rightarrow> code_unit \<Rightarrow> nat option" where
  "radix_digit base c =
     (let d = (if is_digit c then digit_val c else if 97 \<le> c \<and> c \<le> 102 then unat c - 87
        else if 65 \<le> c \<and> c \<le> 70 then unat c - 55 else base)
      in if d < base then Some d else None)"

definition radix_number :: "nat \<Rightarrow> jsstr \<Rightarrow> jsnum" where
  "radix_number base ds =
     (if ds = [] \<or> list_ex (\<lambda>c. radix_digit base c = None) ds then NaN
      else num_of_decimal False (foldl (\<lambda>n c. base * n + the (radix_digit base c)) 0 ds) 0)"

definition radix_of :: "jsstr \<Rightarrow> nat option" where
  "radix_of s = (case s of z # c # _ \<Rightarrow> if z = 48 then map_of
     [(120, 16), (88, 16), (111, 8), (79, 8), (98, 2), (66, 2)] c else None | _ \<Rightarrow> None)"

definition str_number :: "jsstr \<Rightarrow> jsnum" where
  "str_number s =
     (let t = js_trim s in
      if t = [] then Fin False 0 0
      else case radix_of t of Some base \<Rightarrow> radix_number base (drop 2 t)
        | None \<Rightarrow> (case split_sign t of (neg, u) \<Rightarrow>
            if u = lit ''Infinity'' then Infty neg else decimal_number neg u))"

section \<open>Comparison\<close>

fun to_primitive :: "jsv \<Rightarrow> jsv" where
  "to_primitive (JArr xs) = JStr (to_str (JArr xs))"
| "to_primitive (JObj kvs) = JStr (to_str (JObj kvs))"
| "to_primitive v = v"

fun to_number :: "jsv \<Rightarrow> jsnum" where
  "to_number JUndef = NaN"
| "to_number JNull = Fin False 0 0"
| "to_number (JBool b) = Fin False (if b then 1 else 0) 0"
| "to_number (JNum x) = x"
| "to_number (JStr s) = str_number s"
| "to_number v = str_number (to_str v)"

fun units_less :: "jsstr \<Rightarrow> jsstr \<Rightarrow> bool" where
  "units_less [] t = (t \<noteq> [])"
| "units_less (c # s) [] = False"
| "units_less (c # s) (d # t) = (c < d \<or> c = d \<and> units_less s t)"

definition prim_gt :: "jsv \<Rightarrow> jsv \<Rightarrow> bool" where
  "prim_gt a b =
     (case (a, b) of (JStr s, JStr t) \<Rightarrow> units_less t s | _ \<Rightarrow> num_gt (to_number a) (to_number b))"

definition js_gt :: "jsv \<Rightarrow> jsv \<Rightarrow> bool" where
  "js_gt a b = prim_gt (to_primitive a) (to_primitive b)"

lemma units_less_irrefl [simp]: "\<not> units_less s s"
  by (induction s) auto

lemma units_less_trans: "units_less s t \<Longrightarrow> units_less t u \<Longrightarrow> units_less s u"
proof (induction s t arbitrary: u rule: units_less.induct)
  case (3 c s d t)
  then show ?case by (cases u) auto
next
  case (1 t)
  then show ?case by (cases u; cases t) auto
qed simp

lemma units_less_linear: "units_less s t \<or> s = t \<or> units_less t s"
proof (induction s t rule: units_less.induct)
  case (1 t)
  then show ?case by (cases t) auto
qed auto

section \<open>Methods\<close>

definition array_items :: "jsv \<Rightarrow> jserr + jsv list" where   \<comment> \<open>\<open>v.map\<close>, \<open>v.filter\<close>, \<open>v.find\<close>, \<open>v.reduce\<close>\<close>
  "array_items v = (case v of JArr xs \<Rightarrow> Inr xs | _ \<Rightarrow> Inl TypeError)"

definition slice_to :: "nat \<Rightarrow> jsv \<Rightarrow> jserr + jsv" where   \<comment> \<open>\<open>v.slice(0, n)\<close>\<close>
  "slice_to n v = (case v of JStr s \<Rightarrow> Inr (JStr (take n s)) | JArr xs \<Rightarrow> Inr (JArr (take n xs))
     | _ \<Rightarrow> Inl TypeError)"

definition join_items :: "jsstr \<Rightarrow> jsv \<Rightarrow> jserr + jsstr" where   \<comment> \<open>\<open>v.join(sep)\<close>\<close>
  "join_items sep v = (case v of JArr xs \<Rightarrow> Inr (join_with sep (map elem_str xs)) | _ \<Rightarrow> Inl TypeError)"

fun code_points :: "jsstr \<Rightarrow> jsstr list" where
  "code_points [] = []"
| "code_points [c] = [[c]]"
| "code_points (c # d # s) =
     (if is_high c \<and> is_low d then [c, d] # code_points s else [c] # code_points (d # s))"

definition iterate :: "jsv \<Rightarrow> jserr + jsv list" where   \<comment> \<open>\<open>for (const x of v)\<close>\<close>
  "iterate v = (case v of JArr xs \<Rightarrow> Inr xs | JStr s \<Rightarrow> Inr (map JStr (code_points s)) | _ \<Rightarrow> Inl TypeError)"

definition length_of :: "jsv \<Rightarrow> jserr + jsv" where   \<comment> \<open>\<open>v.length\<close>\<close>
  "length_of v = read_prop v (lit ''length'')"

lemma code_points_concat: "concat (code_points s) = s"
  by (induction s rule: code_points.induct) auto

fun map_err :: "('a \<Rightarrow> jserr + 'b) \<Rightarrow> 'a list \<Rightarrow> jserr + 'b list" where
  "map_err f [] = Inr []"
| "map_err f (x # xs) = bindE (f x) (\<lambda>y. bindE (map_err f xs) (\<lambda>ys. Inr (y # ys)))"

fun filter_err :: "('a \<Rightarrow> jserr + bool) \<Rightarrow> 'a list \<Rightarrow> jserr + 'a list" where
  "filter_err f [] = Inr []"
| "filter_err f (x # xs) = bindE (f x) (\<lambda>b. bindE (filter_err f xs) (\<lambda>ys. Inr (if b then x # ys else ys)))"

lemma map_err_length: "map_err f xs = Inr ys \<Longrightarrow> length ys = length xs"
  by (induction xs arbitrary: ys) (auto simp: bindE_Inr_iff)

lemma map_err_map: "(\<And>x. x \<in> set xs \<Longrightarrow> f x = Inr (g x)) \<Longrightarrow> map_err f xs = Inr (map g xs)"
  by (induction xs) auto

lemma filter_err_filter: "(\<And>x. x \<in> set xs \<Longrightarrow> f x = Inr (p x)) \<Longrightarrow> filter_err f xs = Inr (filter p xs)"
  by (induction xs) auto

lemma filter_err_subset: "filter_err f xs = Inr ys \<Longrightarrow> set ys \<subseteq> set xs"
  by (induction xs arbitrary: ys) (auto simp: bindE_Inr_iff split: if_splits)

end
