(* ===== verification/Artifact_Library.thy ===== *)
theory Artifact_Library
  imports Markup Js_Compare "HOL-Library.Multiset"
begin

text \<open>
  The components of \<open>tools/cowchat-artifacts/library.jsx\<close>: what they accept and the elements they
  return. The URL parser of the browser is a parameter (\<open>url_parser\<close>), as are the renderer of
  child nodes, the third-party \<open>Chip\<close> (its own element here) and what rows inherit.
\<close>

section \<open>Values in a page\<close>

text \<open>A \<open>{value}\<close> among children: React leaves out null, undefined and booleans.\<close>

fun child :: "jsv \<Rightarrow> element list" where
  "child (JStr s) = [Txt s]"
| "child (JNum n) = [Txt (num_str n)]"
| "child v = []"

text \<open>What \<open>new URL(value)\<close> gives: the protocol and \<open>href\<close>, or it throws.\<close>

type_synonym url_parser = "jsstr \<Rightarrow> (jsstr \<times> jsstr) option"

definition web_protocols :: "jsstr list" where
  "web_protocols = [lit ''https:'', lit ''http:'']"

definition safe_href :: "url_parser \<Rightarrow> jsv \<Rightarrow> jsstr option" where
  "safe_href parse v =
     (case parse (to_str v) of
        Some (protocol, href) \<Rightarrow> if protocol \<in> set web_protocols then Some href else None
      | None \<Rightarrow> None)"

definition show_value :: "jsv \<Rightarrow> jsstr" where   \<comment> \<open>\<open>show\<close>\<close>
  "show_value v = (if nullish v then [0x2014] else to_str v)"

section \<open>Schemas\<close>

definition text_ok :: "jsv \<Rightarrow> bool" where
  "text_ok v = (case v of JStr s \<Rightarrow> length s \<le> 16000 | _ \<Rightarrow> False)"

fun finite_number :: "jsv \<Rightarrow> bool" where
  "finite_number (JNum (Fin _ _ _)) = True"
| "finite_number _ = False"

definition scalar_ok :: "jsv \<Rightarrow> bool" where
  "scalar_ok v = (text_ok v \<or> finite_number v \<or> (case v of JBool _ \<Rightarrow> True | JNull \<Rightarrow> True | _ \<Rightarrow> False))"

definition children_ok :: "jsv \<Rightarrow> bool" where
  "children_ok v = (case v of JArr xs \<Rightarrow> length xs \<le> 200 | _ \<Rightarrow> False)"

definition optional :: "(jsv \<Rightarrow> bool) \<Rightarrow> jsv \<Rightarrow> bool" where
  "optional p v = (v = JUndef \<or> p v)"

definition tones :: "jsstr list" where
  "tones = [lit ''success'', lit ''danger'', lit ''neutral'']"

definition tone_ok :: "jsv \<Rightarrow> bool" where
  "tone_ok v = (case v of JUndef \<Rightarrow> True | JStr s \<Rightarrow> s \<in> set tones | _ \<Rightarrow> False)"

definition is_bool :: "jsv \<Rightarrow> bool" where
  "is_bool v = (case v of JBool _ \<Rightarrow> True | _ \<Rightarrow> False)"

definition cell_object_ok :: "jsv \<Rightarrow> bool" where
  "cell_object_ok v =
     (case v of JObj _ \<Rightarrow> text_ok (prop_or_undef v (lit ''text'')) \<and> optional text_ok (prop_or_undef v (lit ''href'')) \<and>
        optional is_bool (prop_or_undef v (lit ''badge'')) \<and> tone_ok (prop_or_undef v (lit ''tone'')) | _ \<Rightarrow> False)"

definition cell_ok :: "jsv \<Rightarrow> bool" where
  "cell_ok v = (scalar_ok v \<or> cell_object_ok v)"

definition row_ok :: "jsv \<Rightarrow> bool" where
  "row_ok v = (case v of JObj kvs \<Rightarrow> list_all (\<lambda>(k, c). cell_ok c) kvs | _ \<Rightarrow> False)"

definition column_ok :: "jsv \<Rightarrow> bool" where
  "column_ok c =
     (case c of JObj _ \<Rightarrow> (case prop_or_undef c (lit ''key'') of JStr k \<Rightarrow> 1 \<le> length k \<and> length k \<le> 100 | _ \<Rightarrow> False) \<and>
        text_ok (prop_or_undef c (lit ''label'')) | _ \<Rightarrow> False)"

definition rows_ok :: "jsv \<Rightarrow> bool" where
  "rows_ok v =
     (case v of JArr xs \<Rightarrow> list_all row_ok xs \<and> length xs \<le> 1000
      | JObj kvs \<Rightarrow> list_all (\<lambda>(k, r). row_ok r) kvs \<and> length kvs \<le> 1000 | _ \<Rightarrow> nullish v)"

record table_props =
  columns :: "jsv list"
  table_rows_prop :: jsv
  caption :: jsv

definition table_ok :: "table_props \<Rightarrow> bool" where
  "table_ok p \<longleftrightarrow> list_all column_ok (columns p) \<and> 1 \<le> length (columns p) \<and> length (columns p) \<le> 20 \<and>
     rows_ok (table_rows_prop p) \<and> optional text_ok (caption p)"

section \<open>The order of rows\<close>

text \<open>\<open>a < b\<close> on strings compares code units.\<close>

datatype row_key = Row_Key (key_text: jsstr)

instantiation row_key :: linorder
begin

definition less_row_key :: "row_key \<Rightarrow> row_key \<Rightarrow> bool" where
  "less_row_key a b \<longleftrightarrow> units_less (key_text a) (key_text b)"

definition less_eq_row_key :: "row_key \<Rightarrow> row_key \<Rightarrow> bool" where
  "less_eq_row_key a b \<longleftrightarrow> units_less (key_text a) (key_text b) \<or> a = b"

instance
proof
  fix x y z :: row_key
  have asym: "units_less s t \<Longrightarrow> \<not> units_less t s" for s t
    using units_less_trans[of s t s] by auto
  show "(x < y) = (x \<le> y \<and> \<not> y \<le> x)"
    using asym by (auto simp: less_row_key_def less_eq_row_key_def)
  show "x \<le> x" by (simp add: less_eq_row_key_def)
  show "x \<le> y \<Longrightarrow> y \<le> z \<Longrightarrow> x \<le> z"
    using units_less_trans by (auto simp: less_eq_row_key_def)
  show "x \<le> y \<Longrightarrow> y \<le> x \<Longrightarrow> x = y"
    using asym by (auto simp: less_eq_row_key_def)
  show "x \<le> y \<or> y \<le> x"
    using units_less_linear[of "key_text x" "key_text y"] by (auto simp: less_eq_row_key_def row_key.expand)
qed

end

text \<open>\<open>Object.entries(rows ?? {}).sort(\<dots>)\<close>; the sort of an array is stable.\<close>

definition table_rows :: "jsv \<Rightarrow> (jsstr \<times> jsv) list" where
  "table_rows rows =
     (case rows of
        JArr xs \<Rightarrow> zip (map nat_str [0..<length xs]) xs
      | _ \<Rightarrow> sort_key (\<lambda>(k, _). Row_Key k) (entries_of rows))"

section \<open>Components\<close>

definition class_attr :: "jsstr \<Rightarrow> jsstr \<times> jsstr" where
  "class_attr s = (lit ''className'', s)"

definition badge :: "jsv \<Rightarrow> jsv \<Rightarrow> element" where
  "badge label t =
     Elem (lit ''Chip'') [(lit ''disabled'', lit ''true''), class_attr (lit ''artifact-badge'' @ (if truthy t then lit '' artifact-tone-'' @ to_str t else []))]
       (child label)"

definition anchor :: "jsstr \<Rightarrow> element list \<Rightarrow> element" where
  "anchor href kids =
     Elem (lit ''a'') [(lit ''href'', href), (lit ''target'', lit ''_blank''), (lit ''rel'', lit ''noopener noreferrer'')] kids"

definition arrow :: jsstr where "arrow = [0x2197]"

text \<open>\<open>safeHref(x) ? <a href={safeHref(x)} \<dots>> : other\<close>; an empty \<open>href\<close> is falsy.\<close>

definition link_or :: "url_parser \<Rightarrow> jsv \<Rightarrow> element list \<Rightarrow> element list \<Rightarrow> element list" where
  "link_or parse v kids other =
     (case safe_href parse v of Some href \<Rightarrow> if href = [] then other else [anchor href kids] | None \<Rightarrow> other)"

definition stack_view :: "element list \<Rightarrow> jsv \<Rightarrow> element" where
  "stack_view kids direction =
     Elem (lit ''div'') [class_attr (lit ''artifact-stack '' @ (if direction = JStr (lit ''row'') then lit ''artifact-row'' else []))] kids"

definition card_view :: "element list \<Rightarrow> element" where
  "card_view kids = Elem (lit ''section'') [class_attr (lit ''artifact-card'')] kids"

definition heading_view :: "jsv \<Rightarrow> element" where
  "heading_view t = Elem (lit ''h2'') [] (child t)"

definition text_view :: "jsv \<Rightarrow> element" where
  "text_view t = Elem (lit ''p'') [class_attr (lit ''artifact-text'')] (child t)"

definition badge_view :: "jsv \<Rightarrow> jsv \<Rightarrow> element" where
  "badge_view t tone = badge t tone"

definition markdown_link :: "url_parser \<Rightarrow> jsv \<Rightarrow> element list \<Rightarrow> element list" where   \<comment> \<open>\<open>components.a\<close> of \<open>Markdown\<close>\<close>
  "markdown_link parse href kids = link_or parse href kids [Elem (lit ''span'') [] kids]"

definition link_view :: "url_parser \<Rightarrow> jsv \<Rightarrow> jsv \<Rightarrow> element list" where
  "link_view parse t href =
     link_or parse href (child t @ [Txt [32], Elem (lit ''span'') [(lit ''aria-hidden'', lit ''true'')] [Txt arrow]])
       [Elem (lit ''span'') [] (child t)]"

definition metric_view :: "jsv \<Rightarrow> jsv \<Rightarrow> jsv \<Rightarrow> element" where
  "metric_view label v detail =
     Elem (lit ''div'') [class_attr (lit ''artifact-metric'')]
       ([Elem (lit ''span'') [class_attr (lit ''metric-label'')] (child label), Elem (lit ''strong'') [] [Txt (show_value v)]] @
        (if truthy detail then [Elem (lit ''span'') [class_attr (lit ''metric-detail'')] (child detail)] else child detail))"

text \<open>
  \<open>row[column.key]\<close>. A row inherits the properties of \<open>Object.prototype\<close>, of which a function
  stands as its text (it is only shown), so \<open>inherited\<close> is an argument.
\<close>

definition cell_value :: "(jsstr \<Rightarrow> jsv) \<Rightarrow> jsv \<Rightarrow> jsstr \<Rightarrow> jsv" where
  "cell_value inherited row key = (case own_prop row key of Some v \<Rightarrow> v | None \<Rightarrow> inherited key)"

definition cell_view :: "url_parser \<Rightarrow> jsv \<Rightarrow> element list" where
  "cell_view parse v =
     (if is_object v
      then if truthy (prop_or_undef v (lit ''badge''))
        then [badge (prop_or_undef v (lit ''text'')) (prop_or_undef v (lit ''tone''))]
        else link_or parse (prop_or_undef v (lit ''href'')) (child (prop_or_undef v (lit ''text'')) @ [Txt ([32] @ arrow)])
          (child (prop_or_undef v (lit ''text'')))
      else [Txt (show_value v)])"

definition column_key :: "jsv \<Rightarrow> jsstr" where
  "column_key c = to_str (prop_or_undef c (lit ''key''))"

definition row_view :: "url_parser \<Rightarrow> (jsstr \<Rightarrow> jsv) \<Rightarrow> jsv list \<Rightarrow> jsstr \<times> jsv \<Rightarrow> element" where
  "row_view parse inherited cols entry =
     Elem (lit ''tr'') [] (map (\<lambda>c. Elem (lit ''td'') [] (cell_view parse (cell_value inherited (snd entry) (column_key c)))) cols)"

definition table_view :: "url_parser \<Rightarrow> (jsstr \<Rightarrow> jsv) \<Rightarrow> table_props \<Rightarrow> element" where
  "table_view parse inherited p =
     (let rows = table_rows (table_rows_prop p) in
      Elem (lit ''div'') [class_attr (lit ''artifact-table-wrap'')]
        ([Elem (lit ''table'') []
           ((if truthy (caption p) then [Elem (lit ''caption'') [] (child (caption p))] else child (caption p)) @
            [Elem (lit ''thead'') [] [Elem (lit ''tr'') []
               (map (\<lambda>c. Elem (lit ''th'') [(lit ''scope'', lit ''col'')] (child (prop_or_undef c (lit ''label'')))) (columns p))],
             Elem (lit ''tbody'') [] (map (row_view parse inherited (columns p)) rows)])] @
         (if rows = [] then [Elem (lit ''p'') [class_attr (lit ''artifact-empty'')] [Txt (lit ''No data'')]] else [])))"

definition chart_names :: "jsstr list" where
  "chart_names = map lit [''BarChart'', ''LineChart'', ''AreaChart'', ''RadarChart'', ''HorizontalBarChart'', ''Series'',
     ''PieChart'', ''RadialChart'', ''SingleStackedBarChart'', ''Slice'', ''ScatterChart'', ''ScatterSeries'', ''Point'']"

definition library_names :: "jsstr list" where
  "library_names = map lit [''Stack'', ''Card'', ''Heading'', ''Text'', ''Markdown'', ''Badge'', ''Link'', ''Metric'', ''Table''] @
     chart_names"

end
