(* ===== verification/Dashboard_View.thy ===== *)
theory Dashboard_View
  imports Js_Compare Js_Json
begin

text \<open>
  The dashboard script (\<open>web/dashboard.js\<close>, and \<open>web/app.js\<close>, which is the same text byte
  for byte): what it computes without changing anything. That is the HTML of its lists, the
  texts of its feed, the frames it sends, and the reading of a frame it receives. The markup is
  spelled as the template literals have it.
\<close>

section \<open>Escaping\<close>

text \<open>\<open>textContent = v\<close>: null and undefined clear the node.\<close>

definition text_content :: "jsv \<Rightarrow> jsstr" where
  "text_content v = (if nullish v then [] else to_str v)"

text \<open>The serialization of a text node: \<open>esc\<close> reads it back through \<open>innerHTML\<close>.\<close>

definition html_unit :: "code_unit \<Rightarrow> jsstr" where
  "html_unit c =
     (if c = 38 then lit ''&amp;'' else if c = 60 then lit ''&lt;'' else if c = 62 then lit ''&gt;''
      else if c = 0xA0 then lit ''&nbsp;'' else [c])"

definition html_text :: "jsstr \<Rightarrow> jsstr" where
  "html_text s = concat (map html_unit s)"

definition esc :: "jsv \<Rightarrow> jsstr" where
  "esc v = html_text (text_content v)"

section \<open>Constants and addresses\<close>

definition max_messages :: nat where "max_messages = 200"
definition reconnect_ms :: nat where "reconnect_ms = 3000"
definition dashboard_name :: jsv where "dashboard_name = JStr (lit ''dashboard'')"

definition ws_address :: "bool \<Rightarrow> jsstr \<Rightarrow> jsstr" where
  "ws_address secure host = (if secure then lit ''wss:'' else lit ''ws:'') @ lit ''//'' @ host @ lit ''/ws''"

section \<open>Frames it sends\<close>

text \<open>\<open>JSON.stringify\<close> leaves out a property that is undefined.\<close>

definition register_frame :: "jsv \<Rightarrow> jsv" where
  "register_frame key =
     JObj [(lit ''id'', JStr (lit ''reg-1'')), (lit ''type'', JStr (lit ''register'')),
       (lit ''payload'', JObj [(lit ''key'', key), (lit ''name'', dashboard_name),
          (lit ''capabilities'', JArr [JStr (lit ''observer'')])])]"

definition join_frame :: "jsv \<Rightarrow> jsv" where
  "join_frame room_id =
     JObj [(lit ''type'', JStr (lit ''join_room'')), (lit ''payload'', JObj [(lit ''room_id'', room_id)])]"

section \<open>Rooms\<close>

definition room_id_of :: "jsv \<Rightarrow> jserr + jsv" where
  "room_id_of r = read_prop r (lit ''room_id'')"

text \<open>\<open>rooms.find(r => r.room_id === key)\<close>; \<open>key\<close> is read for every element, and may throw.\<close>

fun find_room :: "jserr + jsv \<Rightarrow> jsv list \<Rightarrow> jserr + jsv option" where
  "find_room key [] = Inr None"
| "find_room key (r # rs) =
     bindE (room_id_of r) (\<lambda>a. bindE key (\<lambda>b. if strict_eq a b then Inr (Some r) else find_room key rs))"

definition room_name :: "jsv \<Rightarrow> jsv \<Rightarrow> jserr + jsv" where
  "room_name rooms room_id =
     bindE (array_items rooms) (\<lambda>rs. bindE (find_room (Inr room_id) rs) (\<lambda>found.
       case found of
         Some r \<Rightarrow> if truthy r then read_prop r (lit ''name'') else slice_to 8 room_id
       | None \<Rightarrow> slice_to 8 room_id))"

definition keeps_room :: "jserr + jsv \<Rightarrow> jsv \<Rightarrow> jserr + bool" where   \<comment> \<open>\<open>r.room_id !== payload.room_id\<close>\<close>
  "keeps_room key r = bindE (room_id_of r) (\<lambda>a. bindE key (\<lambda>b. Inr (\<not> strict_eq a b)))"

definition no_rooms_html :: jsstr where
  "no_rooms_html = lit ''<li class=\"empty-state\">No rooms yet</li>''"

definition room_visibility :: "jsv \<Rightarrow> jserr + jsv" where   \<comment> \<open>\<open>r.visibility || 'private'\<close>\<close>
  "room_visibility r =
     bindE (read_prop r (lit ''visibility'')) (\<lambda>v. Inr (if truthy v then v else JStr (lit ''private'')))"

definition description_html :: "jsv \<Rightarrow> jsstr" where
  "description_html d =
     (if truthy d then lit ''<br><small style=\"color: var(--text-secondary)\">'' @ esc d @ lit ''</small>'' else [])"

definition indent :: "nat \<Rightarrow> jsstr" where   \<comment> \<open>a line break and the indentation inside the literal\<close>
  "indent n = 10 # replicate n 32"

definition room_html :: "jsv \<Rightarrow> jserr + jsstr" where
  "room_html r =
     bindE (room_visibility r) (\<lambda>vis.
       Inr (lit ''<li>'' @ indent 16 @
         lit ''<span class=\"room-name\">'' @ esc (prop_or_undef r (lit ''name'')) @ lit ''</span>'' @ indent 16 @
         lit ''<span class=\"room-visibility '' @ to_str vis @ lit ''\">'' @ to_str vis @ lit ''</span>'' @ indent 16 @
         description_html (prop_or_undef r (lit ''description'')) @ indent 12 @ lit ''</li>''))"

definition length_zero :: "jsv \<Rightarrow> jserr + bool" where   \<comment> \<open>\<open>v.length === 0\<close>\<close>
  "length_zero v = bindE (length_of v) (\<lambda>n. Inr (strict_eq n (JNum (Fin False 0 0))))"

definition rooms_html :: "jsv \<Rightarrow> jserr + jsstr" where
  "rooms_html rooms =
     bindE (length_zero rooms) (\<lambda>empty.
       if empty then Inr no_rooms_html
       else bindE (array_items rooms) (\<lambda>rs. bindE (map_err room_html rs) (\<lambda>hs. Inr (concat hs))))"

section \<open>Agents\<close>

definition is_other_agent :: "jsv \<Rightarrow> jserr + bool" where   \<comment> \<open>\<open>a.name !== 'dashboard'\<close>\<close>
  "is_other_agent a = bindE (read_prop a (lit ''name'')) (\<lambda>n. Inr (\<not> strict_eq n dashboard_name))"

definition visible_agents :: "jsv \<Rightarrow> jserr + jsv list" where
  "visible_agents agents = bindE (array_items agents) (filter_err is_other_agent)"

definition no_agents_html :: jsstr where
  "no_agents_html = lit ''<li class=\"empty-state\">No agents connected</li>''"

definition caps_html :: "jsv \<Rightarrow> jserr + jsstr" where
  "caps_html caps =
     (if \<not> truthy caps then Inr []
      else bindE (length_of caps) (\<lambda>n.
        if \<not> js_gt n (JNum (Fin False 0 0)) then Inr []
        else bindE (join_items (lit '', '') caps) (\<lambda>text.
          Inr (lit ''<span class=\"agent-caps\">['' @ text @ lit '']</span>''))))"

definition agent_html :: "jsv \<Rightarrow> jserr + jsstr" where
  "agent_html a =
     bindE (caps_html (prop_or_undef a (lit ''capabilities''))) (\<lambda>caps.
       Inr (lit ''<li>'' @ indent 16 @
         lit ''<span class=\"agent-name\">'' @ esc (prop_or_undef a (lit ''name'')) @ lit ''</span>'' @ indent 16 @
         caps @ indent 12 @ lit ''</li>''))"

definition agents_html :: "jsv \<Rightarrow> jserr + jsstr" where
  "agents_html agents =
     bindE (visible_agents agents) (\<lambda>vs.
       if vs = [] then Inr no_agents_html
       else bindE (map_err agent_html vs) (\<lambda>hs. Inr (concat hs)))"

section \<open>The feed\<close>

definition message_html :: "jsstr \<Rightarrow> jsv \<Rightarrow> jsv \<Rightarrow> jsv \<Rightarrow> jsstr" where
  "message_html time agent room content =
     lit ''<span class=\"msg-time\">'' @ time @ lit ''</span><span class=\"msg-room\">#'' @ esc room @
     lit ''</span><span class=\"msg-agent\">'' @ esc agent @ lit '':</span> '' @ esc content"

definition event_html :: "jsstr \<Rightarrow> jsstr \<Rightarrow> jsstr" where
  "event_html time text = lit ''<span class=\"msg-time\">'' @ time @ lit ''</span> '' @ esc (JStr text)"

text \<open>\<open>content.length > n ? content.slice(0, n) + '...' : content\<close>\<close>

definition truncated :: "nat \<Rightarrow> jsv \<Rightarrow> jserr + jsv" where
  "truncated n content =
     bindE (length_of content) (\<lambda>len.
       if js_gt len (JNum (num_of_nat n))
       then bindE (slice_to n content) (\<lambda>cut. Inr (JStr (to_str cut @ lit ''...'')))
       else Inr content)"

definition created_text :: "jsv \<Rightarrow> jsstr" where
  "created_text payload = lit ''Room \"'' @ to_str (prop_or_undef payload (lit ''name'')) @ lit ''\" created''"

definition destroyed_text :: "jsv \<Rightarrow> jserr + jsstr" where
  "destroyed_text payload =
     bindE (room_id_of payload) (\<lambda>key. bindE (slice_to 8 key) (\<lambda>s. Inr (lit ''Room '' @ to_str s @ lit '' destroyed'')))"

text \<open>\<open>None\<close> when the guard of \<open>onAgentJoined\<close> fails.\<close>

definition joined_text :: "jsv \<Rightarrow> jsv \<Rightarrow> jserr + jsstr option" where
  "joined_text rooms payload =
     bindE (read_prop payload (lit ''agent'')) (\<lambda>a.
       if \<not> truthy a \<or> strict_eq (prop_or_undef a (lit ''name'')) dashboard_name then Inr None
       else bindE (room_name rooms (prop_or_undef payload (lit ''room_id''))) (\<lambda>r.
         Inr (Some (to_str (prop_or_undef a (lit ''name'')) @ lit '' joined '' @ to_str r))))"

definition left_text :: "jsv \<Rightarrow> jsv \<Rightarrow> jserr + jsstr" where
  "left_text rooms payload =
     bindE (read_prop payload (lit ''agent_id'')) (\<lambda>a. bindE (slice_to 8 a) (\<lambda>s.
       bindE (room_name rooms (prop_or_undef payload (lit ''room_id''))) (\<lambda>r.
         Inr (to_str s @ lit '' left '' @ to_str r))))"

definition vote_text :: "jsv \<Rightarrow> jsv \<Rightarrow> jserr + jsstr" where
  "vote_text rooms payload =
     bindE (read_prop payload (lit ''title'')) (\<lambda>t.
     bindE (room_name rooms (prop_or_undef payload (lit ''room_id''))) (\<lambda>r.
     bindE (join_items (lit '', '') (prop_or_undef payload (lit ''options''))) (\<lambda>opts.
       Inr (lit ''Vote: \"'' @ to_str t @ lit ''\" in '' @ to_str r @ lit '' ('' @ opts @ lit '')''))))"

text \<open>\<open>tally.reduce((a, b) => a.count > b.count ? a : b)\<close>\<close>

fun leader_from :: "jsv \<Rightarrow> jsv list \<Rightarrow> jserr + jsv" where
  "leader_from a [] = Inr a"
| "leader_from a (b # bs) =
     bindE (read_prop a (lit ''count'')) (\<lambda>m. bindE (read_prop b (lit ''count'')) (\<lambda>n.
       leader_from (if js_gt m n then a else b) bs))"

definition tally_winner :: "jsv \<Rightarrow> jserr + jsv" where
  "tally_winner tally =
     bindE (array_items tally) (\<lambda>ts. case ts of [] \<Rightarrow> Inl TypeError | a # bs \<Rightarrow> leader_from a bs)"

definition result_text :: "jsv \<Rightarrow> jserr + jsstr" where
  "result_text payload =
     bindE (read_prop payload (lit ''tally'')) (\<lambda>tally. bindE (tally_winner tally) (\<lambda>w.
     bindE (read_prop w (lit ''option_text'')) (\<lambda>option.
       Inr (lit ''Vote \"'' @ to_str (prop_or_undef payload (lit ''title'')) @ lit ''\" closed: '' @ to_str option @
         lit '' wins ('' @ to_str (prop_or_undef w (lit ''count'')) @ lit ''/'' @
         to_str (prop_or_undef payload (lit ''total_votes'')) @ lit '')''))))"

definition election_text :: "bool \<Rightarrow> jsv \<Rightarrow> jsv \<Rightarrow> jserr + jsstr" where
  "election_text started rooms payload =
     bindE (read_prop payload (lit ''room_id'')) (\<lambda>key. bindE (room_name rooms key) (\<lambda>r.
       Inr (if started then lit ''Election started in '' @ to_str r
         else to_str (prop_or_undef payload (lit ''leader_name'')) @ lit '' elected leader in '' @ to_str r)))"

definition decision_text :: "jsv \<Rightarrow> jserr + jsstr" where
  "decision_text payload =
     bindE (read_prop payload (lit ''content'')) (\<lambda>c. bindE (truncated 100 c) (\<lambda>t.
       Inr (lit ''Decision by '' @ to_str (prop_or_undef payload (lit ''leader_name'')) @ lit '': '' @ to_str t)))"

section \<open>Reading a frame\<close>

datatype frame_kind =
    Registered | Room_Created | Room_Destroyed | Agent_Joined | Agent_Left | Message_Received
  | Vote_Created | Vote_Result | Election_Started | Leader_Elected | Decision_Made
  | Room_List | Agent_List | Other_Frame

definition frame_cases :: "(jsstr \<times> frame_kind) list" where
  "frame_cases =
     [(lit ''room_created'', Room_Created), (lit ''room_destroyed'', Room_Destroyed),
      (lit ''agent_joined'', Agent_Joined), (lit ''agent_left'', Agent_Left),
      (lit ''message_received'', Message_Received), (lit ''vote_created'', Vote_Created),
      (lit ''vote_result'', Vote_Result), (lit ''election_started'', Election_Started),
      (lit ''leader_elected'', Leader_Elected), (lit ''decision_made'', Decision_Made),
      (lit ''room_list'', Room_List), (lit ''agent_list'', Agent_List)]"

definition frame_kind_of :: "jsv \<Rightarrow> jserr + frame_kind" where
  "frame_kind_of frame =
     bindE (read_prop frame (lit ''type'')) (\<lambda>t.
       Inr (if prop_or_undef frame (lit ''reply_to'') = JStr (lit ''reg-1'') \<and> t = JStr (lit ''ok'') then Registered
         else case t of JStr s \<Rightarrow> (case map_of frame_cases s of Some k \<Rightarrow> k | None \<Rightarrow> Other_Frame)
           | _ \<Rightarrow> Other_Frame))"

end
