(* ===== verification/Dashboard.thy ===== *)
theory Dashboard
  imports Dashboard_View Event_Machine
begin

text \<open>
  The dashboard script, its object and its page: the fields of \<open>Dashboard\<close>, the elements it
  writes to, and what it has started (requests, timers, sockets) are one record. A method is a
  function that may throw (\<open>jsm\<close>); what it changed before a throw stays changed. The clock and
  the formatting of times are parameters (\<open>clock\<close>), because they depend on the browser's zone.
\<close>

section \<open>State\<close>

datatype feed_node =
    Space                        \<comment> \<open>a text node\<close>
  | Li jsstr jsstr               \<comment> \<open>an element: \<open>className\<close> and \<open>innerHTML\<close>\<close>

record message =
  m_time :: jsstr
  m_agent :: jsv
  m_room :: jsv
  m_content :: jsv

text \<open>A request whose answer is awaited; the flag says that \<open>init\<close> awaits it.\<close>

datatype request = Ask_Status | Ask_Rooms | Ask_Agents | Ask_New_Key | Ask_Dashboard_Key

record dash =
  secure :: bool                 \<comment> \<open>\<open>location.protocol === 'https:'\<close>\<close>
  host :: jsstr
  socket_allowed :: bool         \<comment> \<open>whether \<open>new WebSocket\<close> does not throw\<close>
  ws :: "nat option"             \<comment> \<open>the position of \<open>this.ws\<close> in \<open>sockets\<close>\<close>
  sockets :: "ready list"
  api_key :: jsv
  agent_id :: jsv
  rooms :: jsv
  agents :: jsv
  messages :: "message list"
  registered :: bool
  ws_url_text :: jsstr
  stat_agents :: jsstr
  stat_rooms :: jsstr
  connected_dot :: bool
  rooms_list :: jsstr
  agents_list :: jsstr
  feed :: "feed_node list"
  feed_bottom :: bool
  key_disabled :: bool
  key_button :: jsstr
  key_display :: jsstr
  key_hidden :: bool
  sent :: "jsstr list"
  asked :: "(request \<times> bool) list"
  reconnects :: nat              \<comment> \<open>armed \<open>setTimeout(() => this.connect(), \<dots>)\<close>\<close>
  polling :: bool                \<comment> \<open>the interval of \<open>fetchStatus\<close> is armed\<close>

record clock =
  time_of :: "jsv \<Rightarrow> jsstr"       \<comment> \<open>\<open>new Date(v).toLocaleTimeString(\<dots>)\<close>\<close>
  time_now :: jsstr

definition empty_class :: jsstr where
  "empty_class = lit ''empty-state''"

definition dash_start :: "bool \<Rightarrow> jsstr \<Rightarrow> bool \<Rightarrow> dash" where   \<comment> \<open>the page and \<open>constructor\<close> before \<open>init\<close>\<close>
  "dash_start sec h allowed =
     \<lparr>secure = sec, host = h, socket_allowed = allowed, ws = None, sockets = [], api_key = JNull,
      agent_id = JNull, rooms = JArr [], agents = JArr [], messages = [], registered = False,
      ws_url_text = lit ''ws://localhost:8080/ws'', stat_agents = lit ''0'', stat_rooms = lit ''0'',
      connected_dot = False, rooms_list = no_rooms_html, agents_list = no_agents_html,
      feed = [Space, Li empty_class (lit ''Waiting for messages...''), Space], feed_bottom = False,
      key_disabled = False, key_button = lit ''Get API Key'', key_display = [], key_hidden = True,
      sent = [], asked = [], reconnects = 0, polling = False\<rparr>"

section \<open>The feed\<close>

fun is_li :: "feed_node \<Rightarrow> bool" where
  "is_li (Li _ _) = True"
| "is_li Space = False"

text \<open>\<open>list.querySelector('.empty-state')\<close> and \<open>remove\<close>\<close>

fun remove_empty :: "feed_node list \<Rightarrow> feed_node list" where
  "remove_empty [] = []"
| "remove_empty (Li cls html # ns) = (if cls = empty_class then ns else Li cls html # remove_empty ns)"
| "remove_empty (Space # ns) = Space # remove_empty ns"

text \<open>\<open>while (list.children.length > n) list.removeChild(list.firstChild)\<close>; \<open>children\<close> are the
  elements, \<open>firstChild\<close> may be a text node.\<close>

fun cap_feed :: "nat \<Rightarrow> feed_node list \<Rightarrow> feed_node list" where
  "cap_feed n [] = []"
| "cap_feed n (x # xs) = (if n < length (filter is_li (x # xs)) then cap_feed n xs else x # xs)"

definition append_li :: "feed_node \<Rightarrow> dash \<Rightarrow> dash" where
  "append_li li s =
     s\<lparr>feed := cap_feed max_messages (remove_empty (feed s) @ [li]), feed_bottom := True\<rparr>"

definition push_message :: "message \<Rightarrow> message list \<Rightarrow> message list" where
  "push_message m ms = (if max_messages < length (ms @ [m]) then tl (ms @ [m]) else ms @ [m])"

definition add_message :: "jsstr \<Rightarrow> jsv \<Rightarrow> jsv \<Rightarrow> jsv \<Rightarrow> (dash, unit) jsm" where
  "add_message time agent room content =
     modify (\<lambda>s. append_li (Li [] (message_html time agent room content))
       (s\<lparr>messages := push_message \<lparr>m_time = time, m_agent = agent, m_room = room, m_content = content\<rparr> (messages s)\<rparr>))"

definition add_event :: "clock \<Rightarrow> jsstr \<Rightarrow> jsstr \<Rightarrow> (dash, unit) jsm" where
  "add_event clk text cls = modify (append_li (Li cls (event_html (time_now clk) text)))"

section \<open>Requests and frames\<close>

definition ask :: "request \<Rightarrow> bool \<Rightarrow> (dash, unit) jsm" where   \<comment> \<open>a method that runs up to its \<open>await fetch\<close>\<close>
  "ask r in_init = modify (\<lambda>s. s\<lparr>asked := asked s @ [(r, in_init)]\<rparr>)"

definition fetch_status :: "(dash, unit) jsm" where "fetch_status = ask Ask_Status False"
definition fetch_rooms :: "(dash, unit) jsm" where "fetch_rooms = ask Ask_Rooms False"
definition fetch_agents :: "(dash, unit) jsm" where "fetch_agents = ask Ask_Agents False"

definition socket_open :: "dash \<Rightarrow> bool" where
  "socket_open s = (case ws s of None \<Rightarrow> False | Some i \<Rightarrow> i < length (sockets s) \<and> sockets s ! i = Opened)"

definition send_frame :: "jsv \<Rightarrow> (dash, unit) jsm" where
  "send_frame frame = modify (\<lambda>s. if socket_open s then s\<lparr>sent := sent s @ [json_text frame]\<rparr> else s)"

definition register :: "(dash, unit) jsm" where
  "register = bind (gets api_key) (\<lambda>k. send_frame (register_frame k))"

section \<open>Rendering\<close>

definition render_rooms :: "(dash, unit) jsm" where
  "render_rooms = bind (gets rooms) (\<lambda>rs. bind (lift_err (rooms_html rs)) (\<lambda>h. modify (\<lambda>s. s\<lparr>rooms_list := h\<rparr>)))"

definition render_agents :: "(dash, unit) jsm" where
  "render_agents = bind (gets agents) (\<lambda>as. bind (lift_err (agents_html as)) (\<lambda>h. modify (\<lambda>s. s\<lparr>agents_list := h\<rparr>)))"

definition set_rooms :: "jsv \<Rightarrow> (dash, unit) jsm" where
  "set_rooms v = next_do (modify (\<lambda>s. s\<lparr>rooms := v\<rparr>)) render_rooms"

definition set_agents :: "jsv \<Rightarrow> (dash, unit) jsm" where
  "set_agents v = next_do (modify (\<lambda>s. s\<lparr>agents := v\<rparr>)) render_agents"

section \<open>Frame handlers\<close>

fun join_each :: "jsv list \<Rightarrow> (dash, unit) jsm" where
  "join_each [] = ret ()"
| "join_each (r # rs) =
     bind (lift_err (room_id_of r)) (\<lambda>key. next_do (send_frame (join_frame key)) (join_each rs))"

definition join_public_rooms :: "(dash, unit) jsm" where
  "join_public_rooms =
     bind (gets rooms) (\<lambda>v. bind (lift_err (iterate v)) (\<lambda>rs.
       next_do (join_each rs) (next_do fetch_rooms fetch_agents)))"

definition on_registered :: "jsv \<Rightarrow> (dash, unit) jsm" where
  "on_registered payload =
     bind (lift_err (read_prop payload (lit ''agent_id''))) (\<lambda>a.
       next_do (modify (\<lambda>s. s\<lparr>agent_id := a, registered := True\<rparr>)) join_public_rooms)"

definition add_room :: "jsv \<Rightarrow> (dash, unit) jsm" where
  "add_room payload =
     bind (gets rooms) (\<lambda>v. bind (lift_err (array_items v)) (\<lambda>rs.
     bind (lift_err (find_room (room_id_of payload) rs)) (\<lambda>found.
       if (case found of Some r \<Rightarrow> truthy r | None \<Rightarrow> False) then ret ()
       else set_rooms (JArr (rs @ [payload])))))"

definition event_join :: jsstr where "event_join = lit ''event-join''"
definition event_leave :: jsstr where "event_leave = lit ''event-leave''"
definition event_vote :: jsstr where "event_vote = lit ''event-vote''"
definition event_election :: jsstr where "event_election = lit ''event-election''"

definition on_room_created :: "clock \<Rightarrow> jsv \<Rightarrow> (dash, unit) jsm" where
  "on_room_created clk payload =
     next_do (add_room payload)
     (bind (lift_err (read_prop payload (lit ''visibility''))) (\<lambda>vis.
      bind (gets registered) (\<lambda>reg.
        next_do (if vis = JStr (lit ''public'') \<and> reg
                 then send_frame (join_frame (prop_or_undef payload (lit ''room_id''))) else ret ())
        (next_do (add_event clk (created_text payload) event_join) fetch_status))))"

definition on_room_destroyed :: "clock \<Rightarrow> jsv \<Rightarrow> (dash, unit) jsm" where
  "on_room_destroyed clk payload =
     bind (gets rooms) (\<lambda>v. bind (lift_err (array_items v)) (\<lambda>rs.
     bind (lift_err (filter_err (keeps_room (room_id_of payload)) rs)) (\<lambda>kept.
       next_do (set_rooms (JArr kept))
       (bind (lift_err (destroyed_text payload)) (\<lambda>text.
         next_do (add_event clk text event_leave) fetch_status)))))"

definition on_agent_joined :: "clock \<Rightarrow> jsv \<Rightarrow> (dash, unit) jsm" where
  "on_agent_joined clk payload =
     bind (gets rooms) (\<lambda>v. bind (lift_err (joined_text v payload)) (\<lambda>text.
       next_do (case text of Some t \<Rightarrow> add_event clk t event_join | None \<Rightarrow> ret ()) fetch_agents))"

definition on_agent_left :: "clock \<Rightarrow> jsv \<Rightarrow> (dash, unit) jsm" where
  "on_agent_left clk payload =
     bind (gets rooms) (\<lambda>v. bind (lift_err (left_text v payload)) (\<lambda>text.
       next_do (add_event clk text event_leave) fetch_agents))"

definition on_message_received :: "clock \<Rightarrow> jsv \<Rightarrow> (dash, unit) jsm" where
  "on_message_received clk payload =
     bind (lift_err (read_prop payload (lit ''agent_name''))) (\<lambda>name.
       if strict_eq name dashboard_name then ret ()
       else bind (gets rooms) (\<lambda>v.
         bind (lift_err (room_name v (prop_or_undef payload (lit ''room_id'')))) (\<lambda>room.
         bind (lift_err (truncated 200 (prop_or_undef payload (lit ''content'')))) (\<lambda>text.
           add_message (time_of clk (prop_or_undef payload (lit ''timestamp''))) name room text))))"

definition on_event_text :: "clock \<Rightarrow> jsstr \<Rightarrow> jserr + jsstr \<Rightarrow> (dash, unit) jsm" where
  "on_event_text clk cls r = bind (lift_err r) (\<lambda>text. add_event clk text cls)"

definition on_vote_created :: "clock \<Rightarrow> jsv \<Rightarrow> (dash, unit) jsm" where
  "on_vote_created clk payload = bind (gets rooms) (\<lambda>v. on_event_text clk event_vote (vote_text v payload))"

definition on_vote_result :: "clock \<Rightarrow> jsv \<Rightarrow> (dash, unit) jsm" where
  "on_vote_result clk payload = on_event_text clk event_vote (result_text payload)"

definition on_election :: "clock \<Rightarrow> bool \<Rightarrow> jsv \<Rightarrow> (dash, unit) jsm" where
  "on_election clk started payload =
     bind (gets rooms) (\<lambda>v. on_event_text clk event_election (election_text started v payload))"

definition on_decision :: "clock \<Rightarrow> jsv \<Rightarrow> (dash, unit) jsm" where
  "on_decision clk payload = on_event_text clk event_election (decision_text payload)"

definition on_room_list :: "jsv \<Rightarrow> (dash, unit) jsm" where
  "on_room_list payload =
     (if truthy payload \<and> truthy (prop_or_undef payload (lit ''rooms''))
      then set_rooms (prop_or_undef payload (lit ''rooms'')) else ret ())"

definition on_agent_list :: "jsv \<Rightarrow> (dash, unit) jsm" where
  "on_agent_list payload =
     (if truthy payload \<and> truthy (prop_or_undef payload (lit ''agents''))
      then bind (lift_err (visible_agents (prop_or_undef payload (lit ''agents'')))) (\<lambda>as. set_agents (JArr as))
      else ret ())"

definition handle_frame :: "clock \<Rightarrow> jsv \<Rightarrow> (dash, unit) jsm" where
  "handle_frame clk frame =
     bind (lift_err (frame_kind_of frame)) (\<lambda>kind.
       case kind of
         Registered \<Rightarrow> on_registered (prop_or_undef frame (lit ''payload''))
       | Room_Created \<Rightarrow> on_room_created clk (prop_or_undef frame (lit ''payload''))
       | Room_Destroyed \<Rightarrow> on_room_destroyed clk (prop_or_undef frame (lit ''payload''))
       | Agent_Joined \<Rightarrow> on_agent_joined clk (prop_or_undef frame (lit ''payload''))
       | Agent_Left \<Rightarrow> on_agent_left clk (prop_or_undef frame (lit ''payload''))
       | Message_Received \<Rightarrow> on_message_received clk (prop_or_undef frame (lit ''payload''))
       | Vote_Created \<Rightarrow> on_vote_created clk (prop_or_undef frame (lit ''payload''))
       | Vote_Result \<Rightarrow> on_vote_result clk (prop_or_undef frame (lit ''payload''))
       | Election_Started \<Rightarrow> on_election clk True (prop_or_undef frame (lit ''payload''))
       | Leader_Elected \<Rightarrow> on_election clk False (prop_or_undef frame (lit ''payload''))
       | Decision_Made \<Rightarrow> on_decision clk (prop_or_undef frame (lit ''payload''))
       | Room_List \<Rightarrow> on_room_list (prop_or_undef frame (lit ''payload''))
       | Agent_List \<Rightarrow> on_agent_list (prop_or_undef frame (lit ''payload''))
       | Other_Frame \<Rightarrow> ret ())"

section \<open>Answers and the connection\<close>

definition attempt :: "(dash, unit) jsm \<Rightarrow> dash \<Rightarrow> dash" where   \<comment> \<open>\<open>try { m } catch (e) { console.warn(\<dots>) }\<close>\<close>
  "attempt m s = snd (m s)"

definition or_empty :: "jsv \<Rightarrow> jsv" where   \<comment> \<open>\<open>v || []\<close>\<close>
  "or_empty v = (if truthy v then v else JArr [])"

text \<open>The rest of each method after its answer; \<open>Inl\<close> is a rejected \<open>fetch\<close> or \<open>json\<close>.\<close>

definition status_answer :: "jserr + jsv \<Rightarrow> (dash, unit) jsm" where
  "status_answer r =
     bind (lift_err r) (\<lambda>data.
     bind (lift_err (read_prop data (lit ''agents_connected''))) (\<lambda>a.
       modify (\<lambda>s. s\<lparr>stat_agents := text_content a, stat_rooms := text_content (prop_or_undef data (lit ''rooms''))\<rparr>)))"

definition rooms_answer :: "jserr + jsv \<Rightarrow> (dash, unit) jsm" where
  "rooms_answer r =
     bind (lift_err r) (\<lambda>data. bind (lift_err (read_prop data (lit ''rooms''))) (\<lambda>v. set_rooms (or_empty v)))"

definition agents_answer :: "jserr + jsv \<Rightarrow> (dash, unit) jsm" where
  "agents_answer r =
     bind (lift_err r) (\<lambda>data. bind (lift_err (read_prop data (lit ''agents''))) (\<lambda>v. set_agents (or_empty v)))"

definition create_api_key :: "dash \<Rightarrow> dash" where   \<comment> \<open>the click, up to the \<open>await\<close>\<close>
  "create_api_key s = (snd (ask Ask_New_Key False s))\<lparr>key_disabled := True, key_button := lit ''Creating...''\<rparr>"

definition key_failed :: jsstr where
  "key_failed = lit ''Error '' @ [8212] @ lit '' Try Again''"

definition key_answer :: "jserr + jsv \<Rightarrow> dash \<Rightarrow> dash" where
  "key_answer r s =
     (case bindE r (\<lambda>data. read_prop data (lit ''api_key'')) of
        Inr k \<Rightarrow> s\<lparr>key_display := text_content k, key_hidden := False, key_button := lit ''Get Another Key''\<rparr>
      | Inl e \<Rightarrow> s\<lparr>key_button := key_failed\<rparr>)\<lparr>key_disabled := False\<rparr>"

definition arm_reconnect :: "dash \<Rightarrow> dash" where
  "arm_reconnect s = s\<lparr>reconnects := reconnects s + 1\<rparr>"

definition open_socket :: "dash \<Rightarrow> dash" where   \<comment> \<open>\<open>connect\<close> from \<open>new WebSocket\<close> on\<close>
  "open_socket s =
     (if socket_allowed s then s\<lparr>ws := Some (length (sockets s)), sockets := sockets s @ [Connecting]\<rparr>
      else arm_reconnect s)"

text \<open>\<open>init\<close> goes on when what it awaits is done.\<close>

definition init_done :: "dash \<Rightarrow> dash" where   \<comment> \<open>\<open>setInterval(() => this.fetchStatus(), 10000)\<close>\<close>
  "init_done s = s\<lparr>polling := True\<rparr>"

definition connect_answer :: "bool \<Rightarrow> jserr + jsv \<Rightarrow> dash \<Rightarrow> dash" where
  "connect_answer in_init r s =
     (let s' = (case bindE r (\<lambda>data. read_prop data (lit ''api_key'')) of
          Inr k \<Rightarrow> open_socket (s\<lparr>api_key := k\<rparr>)
        | Inl e \<Rightarrow> arm_reconnect s)
      in if in_init then init_done s' else s')"

definition connect_to :: "bool \<Rightarrow> dash \<Rightarrow> dash" where   \<comment> \<open>\<open>connect()\<close>\<close>
  "connect_to in_init s =
     (if \<not> truthy (api_key s) then snd (ask Ask_Dashboard_Key in_init s)
      else if in_init then init_done (open_socket s) else open_socket s)"

definition start_init :: "dash \<Rightarrow> dash" where
  "start_init s = snd (ask Ask_Status True (s\<lparr>ws_url_text := ws_address (secure s) (host s)\<rparr>))"

definition answer :: "request \<Rightarrow> bool \<Rightarrow> jserr + jsv \<Rightarrow> dash \<Rightarrow> dash" where
  "answer req in_init r s =
     (case req of
        Ask_Status \<Rightarrow> (let s' = attempt (status_answer r) s in if in_init then snd (ask Ask_Rooms True s') else s')
      | Ask_Rooms \<Rightarrow> (let s' = attempt (rooms_answer r) s in if in_init then snd (ask Ask_Agents True s') else s')
      | Ask_Agents \<Rightarrow> (let s' = attempt (agents_answer r) s in if in_init then connect_to True s' else s')
      | Ask_New_Key \<Rightarrow> key_answer r s
      | Ask_Dashboard_Key \<Rightarrow> connect_answer in_init r s)"

definition on_socket_open :: "dash \<Rightarrow> dash" where
  "on_socket_open s = attempt register (s\<lparr>connected_dot := True\<rparr>)"

definition on_socket_message :: "clock \<Rightarrow> jsv option \<Rightarrow> dash \<Rightarrow> dash" where   \<comment> \<open>\<open>None\<close>: \<open>JSON.parse\<close> threw\<close>
  "on_socket_message clk data s = (case data of None \<Rightarrow> s | Some frame \<Rightarrow> attempt (handle_frame clk frame) s)"

definition on_socket_close :: "dash \<Rightarrow> dash" where
  "on_socket_close s = arm_reconnect (s\<lparr>connected_dot := False, registered := False\<rparr>)"

section \<open>The machine\<close>

datatype dash_event =
    Answer nat "jserr + jsv"          \<comment> \<open>to the request at a position of \<open>asked\<close>\<close>
  | Click_Key
  | Poll
  | Reconnect
  | Socket_Open nat
  | Socket_Message nat clock "jsv option"
  | Socket_Close nat

definition socket_at :: "dash \<Rightarrow> nat \<Rightarrow> ready" where
  "socket_at s i = (if i < length (sockets s) then sockets s ! i else Closed)"

definition dash_enabled :: "dash_event \<Rightarrow> dash \<Rightarrow> bool" where
  "dash_enabled e s =
     (case e of
        Answer j r \<Rightarrow> j < length (asked s)
      | Click_Key \<Rightarrow> \<not> key_disabled s
      | Poll \<Rightarrow> polling s
      | Reconnect \<Rightarrow> 0 < reconnects s
      | Socket_Open i \<Rightarrow> socket_at s i = Connecting
      | Socket_Message i clk data \<Rightarrow> socket_at s i = Opened
      | Socket_Close i \<Rightarrow> socket_at s i \<noteq> Closed)"

definition set_socket :: "nat \<Rightarrow> ready \<Rightarrow> dash \<Rightarrow> dash" where
  "set_socket i r s = s\<lparr>sockets := (sockets s)[i := r]\<rparr>"

definition take_request :: "nat \<Rightarrow> dash \<Rightarrow> dash" where
  "take_request j s = s\<lparr>asked := take j (asked s) @ drop (Suc j) (asked s)\<rparr>"

definition dash_act :: "dash_event \<Rightarrow> dash \<Rightarrow> dash" where
  "dash_act e s =
     (case e of
        Answer j r \<Rightarrow> answer (fst (asked s ! j)) (snd (asked s ! j)) r (take_request j s)
      | Click_Key \<Rightarrow> create_api_key s
      | Poll \<Rightarrow> attempt fetch_status s
      | Reconnect \<Rightarrow> connect_to False (s\<lparr>reconnects := reconnects s - 1\<rparr>)
      | Socket_Open i \<Rightarrow> on_socket_open (set_socket i Opened s)
      | Socket_Message i clk data \<Rightarrow> on_socket_message clk data s
      | Socket_Close i \<Rightarrow> on_socket_close (set_socket i Closed s))"

abbreviation dash_reachable :: "bool \<Rightarrow> jsstr \<Rightarrow> bool \<Rightarrow> dash \<Rightarrow> bool" where
  "dash_reachable sec h allowed \<equiv> reachable (start_init (dash_start sec h allowed)) dash_enabled dash_act"

end
