(* ===== verification/Capped_Log.thy ===== *)
theory Capped_Log
  imports Main
begin

text \<open>
  A log that keeps its latest entries: adding one drops from the front what exceeds the cap. The
  interface lets the representation hold other things besides the entries (the page's list has
  text nodes and a placeholder) and lets it be exact only while its invariant holds.
\<close>

definition last_n :: "nat \<Rightarrow> 'a list \<Rightarrow> 'a list" where
  "last_n n xs = drop (length xs - n) xs"

lemma length_last_n [simp]: "length (last_n n xs) = min (length xs) n"
  by (simp add: last_n_def)

lemma last_n_short [simp]: "length xs \<le> n \<Longrightarrow> last_n n xs = xs"
  by (simp add: last_n_def)

lemma last_n_append: "last_n n (last_n n xs @ ys) = last_n n (xs @ ys)"
proof (cases "length xs \<le> n")
  case False
  then have "drop (length xs - n) xs @ ys = drop (length xs - n) (xs @ ys)" by simp
  then show ?thesis using False by (simp add: last_n_def add.commute del: drop_append)
qed simp

lemma last_n_Cons: "n < length (x # xs) \<Longrightarrow> last_n n (x # xs) = last_n n xs"
  by (simp add: last_n_def Suc_diff_le)

locale capped_log =
  fixes push :: "'x \<Rightarrow> 'l \<Rightarrow> 'l" and entries :: "'l \<Rightarrow> 'e list" and entry :: "'x \<Rightarrow> 'e"
    and ok :: "'l \<Rightarrow> bool" and cap :: nat
  assumes push_ok: "ok l \<Longrightarrow> ok (push x l)"
    and push_entries: "ok l \<Longrightarrow> entries (push x l) = last_n cap (entries l @ [entry x])"
begin

lemma pushes_ok: "ok l \<Longrightarrow> ok (fold push xs l)"
  by (induction xs arbitrary: l) (auto intro: push_ok)

lemma pushes_entries:
  assumes "ok l" and "length (entries l) \<le> cap"
  shows "entries (fold push xs l) = last_n cap (entries l @ map entry xs)"
  using assms
proof (induction xs arbitrary: l)
  case (Cons x xs)
  have "entries (fold push xs (push x l)) = last_n cap (entries (push x l) @ map entry xs)"
    using Cons.prems by (intro Cons.IH) (simp_all add: push_ok push_entries)
  also have "\<dots> = last_n cap ((entries l @ [entry x]) @ map entry xs)"
    using Cons.prems by (simp only: push_entries last_n_append)
  finally show ?case by simp
qed simp

lemma push_bounded: "ok l \<Longrightarrow> length (entries (push x l)) \<le> cap"
  by (simp add: push_entries)

lemma push_latest: "ok l \<Longrightarrow> 0 < cap \<Longrightarrow> last (entries (push x l)) = entry x"
  by (simp add: push_entries last_n_def last_drop)

end

end
