(* ===== verification/Dashboard_Invariant.thy ===== *)
theory Dashboard_Invariant
  imports Dashboard Capped_Log
begin

text \<open>
  What every event of the dashboard keeps: one connection attempt at a time, one poller, one key
  request, the status dot in step with the socket, and both message lists within their cap.
\<close>

section \<open>The two logs\<close>

definition shown :: "feed_node \<Rightarrow> bool" where   \<comment> \<open>an element other than the placeholder\<close>
  "shown x = (case x of Space \<Rightarrow> False | Li cls html \<Rightarrow> cls \<noteq> empty_class)"

definition feed_entries :: "feed_node list \<Rightarrow> feed_node list" where
  "feed_entries ns = filter shown ns"

definition feed_ok :: "feed_node list \<Rightarrow> bool" where
  "feed_ok ns \<longleftrightarrow> length (filter is_li ns) \<le> max_messages \<and> filter is_li (remove_empty ns) = feed_entries ns"

text \<open>The classes that the handlers give to an entry.\<close>

datatype entry_class = Plain | Join | Leave | Vote | Election

fun class_text :: "entry_class \<Rightarrow> jsstr" where
  "class_text Plain = []"
| "class_text Join = event_join"
| "class_text Leave = event_leave"
| "class_text Vote = event_vote"
| "class_text Election = event_election"

definition feed_entry :: "entry_class \<times> jsstr \<Rightarrow> feed_node" where
  "feed_entry x = Li (class_text (fst x)) (snd x)"

definition push_feed :: "entry_class \<times> jsstr \<Rightarrow> feed_node list \<Rightarrow> feed_node list" where
  "push_feed x ns = cap_feed max_messages (remove_empty ns @ [feed_entry x])"

lemma class_text_shown [simp]: "class_text c \<noteq> empty_class"
  by (cases c) (simp_all add: empty_class_def event_join_def event_leave_def event_vote_def event_election_def lit_def)

lemma feed_entry_li [simp]: "is_li (feed_entry x)" "shown (feed_entry x)"
  by (simp_all add: feed_entry_def shown_def)

lemma filter_shown_li: "filter shown (filter is_li ns) = filter shown ns"
  by (induction ns) (auto simp: shown_def split: feed_node.splits)

lemma shown_remove_empty: "filter shown (remove_empty ns) = filter shown ns"
  by (induction ns rule: remove_empty.induct) (auto simp: shown_def)

lemma remove_empty_shown: "list_all (\<lambda>x. is_li x \<longrightarrow> shown x) ns \<Longrightarrow> remove_empty ns = ns"
  by (induction ns rule: remove_empty.induct) (auto simp: shown_def)

lemma cap_feed_li: "filter is_li (cap_feed n ns) = last_n n (filter is_li ns)"
proof (induction n ns rule: cap_feed.induct)
  case (2 n x xs)
  show ?case
  proof (cases "n < length (filter is_li (x # xs))")
    case True
    then show ?thesis using 2 by (cases "is_li x") (simp_all add: last_n_Cons)
  qed simp
qed (simp add: last_n_def)

lemma cap_feed_all: "list_all p ns \<Longrightarrow> list_all p (cap_feed n ns)"
  by (induction n ns rule: cap_feed.induct) auto

lemma all_shown_filter: "list_all (\<lambda>x. is_li x \<longrightarrow> shown x) ns \<Longrightarrow> filter is_li ns = filter shown ns"
  by (induction ns) (auto simp: shown_def split: feed_node.splits)

lemma filter_all_shown: "filter is_li ns = filter shown ns \<Longrightarrow> list_all (\<lambda>x. is_li x \<longrightarrow> shown x) ns"
proof -
  assume "filter is_li ns = filter shown ns"
  then have "set (filter is_li ns) = set (filter shown ns)" by simp
  then show ?thesis by (auto simp: list_all_iff)
qed

lemma push_feed_ok: "feed_ok ns \<Longrightarrow> feed_ok (push_feed x ns) \<and>
    feed_entries (push_feed x ns) = last_n max_messages (feed_entries ns @ [feed_entry x])"
proof -
  assume ok: "feed_ok ns"
  let ?ms = "remove_empty ns @ [feed_entry x]"
  have "filter is_li (remove_empty ns) = filter shown (remove_empty ns)"
    using ok by (simp add: feed_ok_def feed_entries_def shown_remove_empty)
  then have all: "list_all (\<lambda>x. is_li x \<longrightarrow> shown x) ?ms" by (simp add: filter_all_shown)
  then have all': "list_all (\<lambda>x. is_li x \<longrightarrow> shown x) (push_feed x ns)"
    unfolding push_feed_def by (rule cap_feed_all)
  have e: "filter is_li (push_feed x ns) = last_n max_messages (feed_entries ns @ [feed_entry x])"
    using ok by (simp add: push_feed_def cap_feed_li feed_ok_def)
  then have "feed_entries (push_feed x ns) = last_n max_messages (feed_entries ns @ [feed_entry x])"
    using all' by (simp add: feed_entries_def all_shown_filter)
  moreover have "feed_ok (push_feed x ns)"
    using e calculation remove_empty_shown[OF all'] by (simp add: feed_ok_def)
  ultimately show ?thesis by simp
qed

interpretation feed_log: capped_log push_feed feed_entries feed_entry feed_ok max_messages
  by unfold_locales (simp_all add: push_feed_ok)

definition messages_ok :: "message list \<Rightarrow> bool" where
  "messages_ok ms \<longleftrightarrow> length ms \<le> max_messages"

lemma push_message_last: "messages_ok ms \<Longrightarrow> push_message m ms = last_n max_messages (ms @ [m])"
proof (cases "length ms < max_messages")
  case False
  moreover assume "messages_ok ms"
  ultimately have "length ms = max_messages" by (simp add: messages_ok_def)
  then show ?thesis by (cases ms) (simp_all add: push_message_def last_n_def max_messages_def)
qed (simp add: push_message_def)

interpretation message_log: capped_log push_message "\<lambda>ms. ms" "\<lambda>m. m" messages_ok max_messages
  by unfold_locales (simp_all add: push_message_last, simp add: messages_ok_def)

lemma feed_ok_start [simp]: "feed_ok (feed (dash_start sec h allowed))"
  by (simp add: dash_start_def feed_ok_def feed_entries_def shown_def max_messages_def)

section \<open>Connections\<close>

definition asks :: "(request \<times> bool \<Rightarrow> bool) \<Rightarrow> dash \<Rightarrow> nat" where
  "asks p s = length (filter p (asked s))"

text \<open>A request whose answer leads to \<open>connect\<close>.\<close>

definition connecting :: "request \<times> bool \<Rightarrow> bool" where
  "connecting q \<longleftrightarrow> fst q = Ask_Dashboard_Key \<or> snd q"

definition new_key :: "request \<times> bool \<Rightarrow> bool" where
  "new_key q \<longleftrightarrow> fst q = Ask_New_Key"

definition live :: "dash \<Rightarrow> nat" where
  "live s = length (filter (\<lambda>r. r \<noteq> Closed) (sockets s))"

definition connections :: "dash \<Rightarrow> nat" where
  "connections s = asks connecting s + reconnects s + live s"

definition initializing :: "dash \<Rightarrow> nat" where
  "initializing s = asks snd s + of_bool (polling s)"

text \<open>Only the latest socket may be open, and \<open>this.ws\<close> is that one.\<close>

definition latest_socket :: "dash \<Rightarrow> bool" where
  "latest_socket s \<longleftrightarrow>
     (sockets s = [] \<and> ws s = None) \<or>
     (\<exists>n r. sockets s = replicate n Closed @ [r] \<and> ws s = Some n)"

definition status_ok :: "dash \<Rightarrow> bool" where
  "status_ok s \<longleftrightarrow> connected_dot s = socket_open s \<and> (registered s \<longrightarrow> socket_open s)"

definition keys_ok :: "dash \<Rightarrow> bool" where
  "keys_ok s \<longleftrightarrow> asks new_key s = of_bool (key_disabled s) \<and> asks (\<lambda>q. new_key q \<and> snd q) s = 0"

definition logs_ok :: "dash \<Rightarrow> bool" where
  "logs_ok s \<longleftrightarrow> messages_ok (messages s) \<and> feed_ok (feed s)"

definition dash_inv :: "dash \<Rightarrow> bool" where
  "dash_inv s \<longleftrightarrow> connections s = 1 \<and> initializing s = 1 \<and> keys_ok s \<and> latest_socket s \<and> status_ok s \<and> logs_ok s"

section \<open>Frame handlers\<close>

text \<open>
  What the handlers of frames and the answers about lists leave alone: everything of the
  connection and of the buttons. They may ask for lists again, outside \<open>init\<close>.
\<close>

definition same_page :: "dash \<Rightarrow> dash \<Rightarrow> bool" where
  "same_page s s' \<longleftrightarrow>
     ws s' = ws s \<and> sockets s' = sockets s \<and> api_key s' = api_key s \<and> reconnects s' = reconnects s \<and>
     polling s' = polling s \<and> connected_dot s' = connected_dot s \<and> key_disabled s' = key_disabled s \<and>
     filter (\<lambda>q. connecting q \<or> new_key q) (asked s') = filter (\<lambda>q. connecting q \<or> new_key q) (asked s)"

definition handled :: "dash \<Rightarrow> dash \<Rightarrow> bool" where
  "handled s s' \<longleftrightarrow> same_page s s' \<and> (logs_ok s \<longrightarrow> logs_ok s')"

definition listed :: "dash \<Rightarrow> dash \<Rightarrow> bool" where
  "listed s s' \<longleftrightarrow> handled s s' \<and> registered s' = registered s"

lemma handled_refl [simp]: "handled s s" "listed s s"
  by (simp_all add: handled_def same_page_def listed_def)

text \<open>One rule for both relations: \<open>P\<close> is what the state satisfies so far.\<close>

lemma keeps_ask [keeps]:
  assumes "r \<in> {Ask_Status, Ask_Rooms, Ask_Agents}"
  shows "jsm_keeps (handled s) (ask r False)" "jsm_keeps (listed s) (ask r False)"
  using assms by (auto simp: ask_def handled_def listed_def same_page_def connecting_def new_key_def logs_ok_def intro!: keeps_modify)

lemma keeps_fetches [keeps]:
  "jsm_keeps (handled s) fetch_status" "jsm_keeps (handled s) fetch_rooms" "jsm_keeps (handled s) fetch_agents"
  "jsm_keeps (listed s) fetch_status" "jsm_keeps (listed s) fetch_rooms" "jsm_keeps (listed s) fetch_agents"
  by (simp_all add: fetch_status_def fetch_rooms_def fetch_agents_def keeps_ask)

lemma keeps_send [keeps]: "jsm_keeps (handled s) (send_frame frame)" "jsm_keeps (listed s) (send_frame frame)"
  by (auto simp: send_frame_def handled_def listed_def same_page_def logs_ok_def intro!: keeps_modify)

lemma append_li_push:
  "append_li (feed_entry x) s = s\<lparr>feed := push_feed x (feed s), feed_bottom := True\<rparr>"
  by (simp add: append_li_def push_feed_def)

lemma keeps_feed:
  "handled s s' \<Longrightarrow> handled s (append_li (feed_entry x) s')"
  by (auto simp: append_li_push handled_def same_page_def logs_ok_def feed_log.push_ok)

lemma class_cases:
  "[] = class_text Plain" "event_join = class_text Join" "event_leave = class_text Leave"
  "event_vote = class_text Vote" "event_election = class_text Election"
  by simp_all

lemma keeps_add_event [keeps]: "jsm_keeps (handled s) (add_event clk text (class_text c))"
  unfolding add_event_def
  by (rule keeps_modify) (use keeps_feed[of s _ "(c, t)" for t] in \<open>simp add: feed_entry_def\<close>)

lemma keeps_events [keeps]:
  "jsm_keeps (handled s) (add_event clk text event_join)" "jsm_keeps (handled s) (add_event clk text event_leave)"
  "jsm_keeps (handled s) (add_event clk text event_vote)" "jsm_keeps (handled s) (add_event clk text event_election)"
  by (simp_all only: class_cases keeps_add_event)

lemma keeps_add_message [keeps]: "jsm_keeps (handled s) (add_message time agent room content)"
  unfolding add_message_def
proof (rule keeps_modify)
  fix s' assume "handled s s'"
  then have "handled s (s'\<lparr>messages := push_message m (messages s')\<rparr>)" for m
    by (auto simp: handled_def same_page_def logs_ok_def message_log.push_ok)
  from keeps_feed[OF this, of "(Plain, html)" for html]
  show "handled s (append_li (Li [] (message_html time agent room content))
      (s'\<lparr>messages := push_message \<lparr>m_time = time, m_agent = agent, m_room = room, m_content = content\<rparr> (messages s')\<rparr>))"
    by (simp add: feed_entry_def)
qed

lemma keeps_lists [keeps]:
  "jsm_keeps (handled s) (set_rooms v)" "jsm_keeps (listed s) (set_rooms v)"
  "jsm_keeps (handled s) (set_agents v)" "jsm_keeps (listed s) (set_agents v)"
  by (auto simp: set_rooms_def set_agents_def render_rooms_def render_agents_def handled_def listed_def same_page_def
      logs_ok_def intro!: keeps keeps_modify)

lemma keeps_join [keeps]: "jsm_keeps (handled s) (join_each rs)"
  by (induction rs) (auto intro!: keeps)

lemma keeps_registered [keeps]: "jsm_keeps (handled s) (on_registered payload)"
  by (auto simp: on_registered_def join_public_rooms_def handled_def same_page_def logs_ok_def intro!: keeps keeps_modify)

lemma keeps_option [keeps]:
  "(\<And>x. jsm_keeps P (f x)) \<Longrightarrow> jsm_keeps P m \<Longrightarrow> jsm_keeps P (case r of Some x \<Rightarrow> f x | None \<Rightarrow> m)"
  by (cases r) auto

lemma keeps_handlers [keeps]:
  "jsm_keeps (handled s) (on_room_created clk p)"
  "jsm_keeps (handled s) (on_room_destroyed clk p)"
  "jsm_keeps (handled s) (on_agent_joined clk p)"
  "jsm_keeps (handled s) (on_agent_left clk p)"
  "jsm_keeps (handled s) (on_message_received clk p)"
  "jsm_keeps (handled s) (on_vote_created clk p)"
  "jsm_keeps (handled s) (on_vote_result clk p)"
  "jsm_keeps (handled s) (on_election clk b p)"
  "jsm_keeps (handled s) (on_decision clk p)"
  "jsm_keeps (handled s) (on_room_list p)"
  "jsm_keeps (handled s) (on_agent_list p)"
  unfolding on_room_created_def add_room_def on_room_destroyed_def on_agent_joined_def on_agent_left_def
    on_message_received_def on_vote_created_def on_vote_result_def on_election_def on_decision_def
    on_event_text_def on_room_list_def on_agent_list_def
  by (intro keeps)+

lemma keeps_handle_frame: "jsm_keeps (handled s) (handle_frame clk frame)"
  unfolding handle_frame_def by (rule keeps_bind) (auto intro: keeps split: frame_kind.split)

lemma keeps_answers [keeps]:
  "jsm_keeps (listed s) (status_answer r)" "jsm_keeps (listed s) (rooms_answer r)" "jsm_keeps (listed s) (agents_answer r)"
  unfolding rooms_answer_def agents_answer_def status_answer_def
  by (auto simp: listed_def handled_def same_page_def logs_ok_def intro!: keeps keeps_modify)

lemma attempt_handled: "handled s (attempt (handle_frame clk frame) s)"
  unfolding attempt_def using keeps_handle_frame by (rule jsm_keepsD) simp

lemma attempt_listed:
  "listed s (attempt (status_answer r) s)" "listed s (attempt (rooms_answer r) s)" "listed s (attempt (agents_answer r) s)"
  "listed s (attempt fetch_status s)"
  unfolding attempt_def by (rule jsm_keepsD[OF keeps_answers(1)] jsm_keepsD[OF keeps_answers(2)]
      jsm_keepsD[OF keeps_answers(3)] jsm_keepsD[OF keeps_fetches(4)], simp)+

section \<open>Counting\<close>

lemma asks_take:
  assumes "j < length (asked s)"
  shows "asks p s = asks p (take_request j s) + of_bool (p (asked s ! j))"
proof -
  have "asked s = take j (asked s) @ asked s ! j # drop (Suc j) (asked s)"
    using assms by (simp add: id_take_nth_drop)
  then have "filter p (asked s) = filter p (take j (asked s) @ asked s ! j # drop (Suc j) (asked s))" by simp
  then show ?thesis by (simp add: asks_def take_request_def)
qed

lemma asks_ask: "asks p (snd (ask r b s)) = asks p s + of_bool (p (r, b))"
  by (simp add: asks_def ask_def modify_def)

lemma take_fields [simp]:
  "ws (take_request j s) = ws s" "sockets (take_request j s) = sockets s" "reconnects (take_request j s) = reconnects s"
  "polling (take_request j s) = polling s" "key_disabled (take_request j s) = key_disabled s"
  "messages (take_request j s) = messages s" "feed (take_request j s) = feed s"
  "registered (take_request j s) = registered s" "connected_dot (take_request j s) = connected_dot s"
  "rooms (take_request j s) = rooms s" "api_key (take_request j s) = api_key s"
  by (simp_all add: take_request_def)

lemma ask_fields [simp]:
  "ws (snd (ask r b s)) = ws s" "sockets (snd (ask r b s)) = sockets s" "reconnects (snd (ask r b s)) = reconnects s"
  "polling (snd (ask r b s)) = polling s" "key_disabled (snd (ask r b s)) = key_disabled s"
  "messages (snd (ask r b s)) = messages s" "feed (snd (ask r b s)) = feed s"
  "registered (snd (ask r b s)) = registered s" "connected_dot (snd (ask r b s)) = connected_dot s"
  "socket_allowed (snd (ask r b s)) = socket_allowed s"
  by (simp_all add: ask_def modify_def)

lemma update_frames [simp]:
  "asks p (s\<lparr>reconnects := n\<rparr>) = asks p s" "asks p (s\<lparr>polling := b\<rparr>) = asks p s"
  "asks p (s\<lparr>connected_dot := b\<rparr>) = asks p s" "asks p (s\<lparr>registered := b\<rparr>) = asks p s"
  "asks p (s\<lparr>api_key := v\<rparr>) = asks p s" "asks p (s\<lparr>key_disabled := b\<rparr>) = asks p s"
  "asks p (s\<lparr>key_button := t\<rparr>) = asks p s" "asks p (s\<lparr>key_display := t\<rparr>) = asks p s"
  "asks p (s\<lparr>key_hidden := b\<rparr>) = asks p s" "asks p (s\<lparr>ws_url_text := t\<rparr>) = asks p s"
  "live (s\<lparr>reconnects := n\<rparr>) = live s" "live (s\<lparr>polling := b\<rparr>) = live s"
  "live (s\<lparr>connected_dot := b\<rparr>) = live s" "live (s\<lparr>registered := b\<rparr>) = live s"
  "live (s\<lparr>api_key := v\<rparr>) = live s" "live (s\<lparr>key_disabled := b\<rparr>) = live s"
  "live (s\<lparr>key_button := t\<rparr>) = live s" "live (s\<lparr>key_display := t\<rparr>) = live s"
  "live (s\<lparr>key_hidden := b\<rparr>) = live s" "live (s\<lparr>ws_url_text := t\<rparr>) = live s"
  "latest_socket (s\<lparr>reconnects := n\<rparr>) = latest_socket s"
  "latest_socket (s\<lparr>polling := b\<rparr>) = latest_socket s"
  "latest_socket (s\<lparr>connected_dot := b\<rparr>) = latest_socket s"
  "latest_socket (s\<lparr>registered := b\<rparr>) = latest_socket s"
  "latest_socket (s\<lparr>api_key := v\<rparr>) = latest_socket s"
  "latest_socket (s\<lparr>key_disabled := b\<rparr>) = latest_socket s"
  "latest_socket (s\<lparr>key_button := t\<rparr>) = latest_socket s"
  "latest_socket (s\<lparr>key_display := t\<rparr>) = latest_socket s"
  "latest_socket (s\<lparr>key_hidden := b\<rparr>) = latest_socket s"
  "latest_socket (s\<lparr>ws_url_text := t\<rparr>) = latest_socket s"
  "socket_open (s\<lparr>reconnects := n\<rparr>) = socket_open s"
  "socket_open (s\<lparr>polling := b\<rparr>) = socket_open s"
  "socket_open (s\<lparr>connected_dot := b\<rparr>) = socket_open s"
  "socket_open (s\<lparr>registered := b\<rparr>) = socket_open s"
  "socket_open (s\<lparr>api_key := v\<rparr>) = socket_open s"
  "socket_open (s\<lparr>key_disabled := b\<rparr>) = socket_open s"
  "socket_open (s\<lparr>key_button := t\<rparr>) = socket_open s"
  "socket_open (s\<lparr>key_display := t\<rparr>) = socket_open s"
  "socket_open (s\<lparr>key_hidden := b\<rparr>) = socket_open s"
  "socket_open (s\<lparr>ws_url_text := t\<rparr>) = socket_open s"
  "logs_ok (s\<lparr>reconnects := n\<rparr>) = logs_ok s" "logs_ok (s\<lparr>polling := b\<rparr>) = logs_ok s"
  "logs_ok (s\<lparr>connected_dot := b\<rparr>) = logs_ok s" "logs_ok (s\<lparr>registered := b\<rparr>) = logs_ok s"
  "logs_ok (s\<lparr>api_key := v\<rparr>) = logs_ok s" "logs_ok (s\<lparr>key_disabled := b\<rparr>) = logs_ok s"
  "logs_ok (s\<lparr>key_button := t\<rparr>) = logs_ok s" "logs_ok (s\<lparr>key_display := t\<rparr>) = logs_ok s"
  "logs_ok (s\<lparr>key_hidden := b\<rparr>) = logs_ok s" "logs_ok (s\<lparr>ws_url_text := t\<rparr>) = logs_ok s"
  by (simp_all add: asks_def live_def latest_socket_def socket_open_def logs_ok_def split: option.split)

lemma take_frames [simp]:
  "live (take_request j s) = live s" "latest_socket (take_request j s) = latest_socket s"
  "socket_open (take_request j s) = socket_open s" "logs_ok (take_request j s) = logs_ok s"
  by (simp_all add: live_def latest_socket_def socket_open_def logs_ok_def split: option.split)

lemma ask_frames [simp]:
  "live (snd (ask r b s)) = live s" "latest_socket (snd (ask r b s)) = latest_socket s"
  "socket_open (snd (ask r b s)) = socket_open s" "logs_ok (snd (ask r b s)) = logs_ok s"
  by (simp_all add: live_def latest_socket_def socket_open_def logs_ok_def split: option.split)

lemmas inv_parts = connections_def initializing_def keys_ok_def status_ok_def

lemma same_page_asks:
  assumes "same_page s s'"
  shows "asks connecting s' = asks connecting s" "asks snd s' = asks snd s" "asks new_key s' = asks new_key s"
    "asks (\<lambda>q. new_key q \<and> snd q) s' = asks (\<lambda>q. new_key q \<and> snd q) s"
proof -
  let ?q = "\<lambda>q. connecting q \<or> new_key q"
  have eq: "filter ?q (asked s') = filter ?q (asked s)" using assms by (simp only: same_page_def)
  have part: "filter p xs = filter p (filter ?q xs)" if "\<And>q. p q \<Longrightarrow> ?q q" for p and xs :: "(request \<times> bool) list"
    using that by (induction xs) auto
  have keep: "asks p s' = asks p s" if "\<And>q. p q \<Longrightarrow> ?q q" for p
    unfolding asks_def using part[OF that, where xs = "asked s"] part[OF that, where xs = "asked s'"] eq by metis
  show "asks connecting s' = asks connecting s" "asks snd s' = asks snd s" "asks new_key s' = asks new_key s"
    "asks (\<lambda>q. new_key q \<and> snd q) s' = asks (\<lambda>q. new_key q \<and> snd q) s"
    by (rule keep, simp add: connecting_def)+
qed

lemma same_page_counts:
  assumes "same_page s s'"
  shows "connections s' = connections s" "initializing s' = initializing s" "keys_ok s' = keys_ok s"
    "latest_socket s' = latest_socket s" "socket_open s' = socket_open s"
  using assms same_page_asks[OF assms]
  by (simp_all add: connections_def initializing_def keys_ok_def latest_socket_def socket_open_def live_def same_page_def split: option.split)

lemma listed_inv: "listed s s' \<Longrightarrow> status_ok s \<Longrightarrow> status_ok s'"
  using same_page_counts(5)[of s s'] by (simp add: listed_def handled_def status_ok_def) (simp add: same_page_def)

lemma handled_inv:
  assumes "handled s s'" and "socket_open s" and "dash_inv s"
  shows "dash_inv s'"
proof -
  have "connected_dot s' = connected_dot s" using assms(1) by (simp add: handled_def same_page_def)
  moreover have "same_page s s'" "logs_ok s'" using assms by (simp_all add: handled_def dash_inv_def)
  ultimately show ?thesis using assms(2,3) same_page_counts[of s s'] by (simp add: dash_inv_def status_ok_def)
qed

text \<open>The state inside an event that has consumed its request or its timer: \<open>k\<close> connections are left.\<close>

definition inv_but :: "nat \<Rightarrow> nat \<Rightarrow> dash \<Rightarrow> bool" where
  "inv_but k m s \<longleftrightarrow> connections s = k \<and> initializing s = m \<and> keys_ok s \<and> latest_socket s \<and> status_ok s \<and> logs_ok s"

lemma inv_but_full: "dash_inv s = inv_but 1 1 s"
  by (simp add: dash_inv_def inv_but_def)

lemma inv_but_listed: "listed s s' \<Longrightarrow> inv_but k m s \<Longrightarrow> inv_but k m s'"
  using listed_inv[of s s'] same_page_counts[of s s'] by (simp add: inv_but_def listed_def handled_def)

lemma socket_open_cong: "ws s' = ws s \<Longrightarrow> sockets s' = sockets s \<Longrightarrow> socket_open s' = socket_open s"
  by (simp add: socket_open_def split: option.split)

lemma inv_but_ask:
  "inv_but k m s \<Longrightarrow> \<not> new_key (r, b) \<Longrightarrow>
    inv_but (k + of_bool (connecting (r, b))) (m + of_bool b) (snd (ask r b s))"
  by (auto simp: inv_but_def inv_parts asks_ask)

lemma inv_but_init: "inv_but k 0 s \<Longrightarrow> inv_but k 1 (init_done s)"
  by (simp add: inv_but_def inv_parts init_done_def)

lemma inv_but_reconnect: "inv_but k m s \<Longrightarrow> inv_but (Suc k) m (arm_reconnect s)"
  by (simp add: inv_but_def inv_parts arm_reconnect_def)

lemma inv_but_key: "inv_but k m s \<Longrightarrow> inv_but k m (s\<lparr>api_key := v\<rparr>)"
  by (simp add: inv_but_def inv_parts)

lemma no_live: "live s = 0 \<Longrightarrow> sockets s = replicate (length (sockets s)) Closed"
  by (auto simp: live_def filter_empty_conv intro!: nth_equalityI)

lemma no_live_closed: "live s = 0 \<Longrightarrow> \<not> socket_open s"
  using no_live[of s] by (auto simp: socket_open_def split: option.splits) (metis nth_replicate ready.distinct(5))

lemma inv_but_open: "inv_but 0 m s \<Longrightarrow> inv_but 1 m (open_socket s)"
proof (cases "socket_allowed s")
  case True
  assume inv: "inv_but 0 m s"
  then have 0: "live s = 0" "\<not> socket_open s" by (simp_all add: inv_but_def connections_def no_live_closed)
  have "latest_socket (open_socket s)"
    using no_live[OF 0(1)] True by (auto simp: latest_socket_def open_socket_def)
  moreover have "\<not> socket_open (open_socket s)" using True by (simp add: socket_open_def open_socket_def)
  moreover have "live (open_socket s) = 1" using 0(1) True by (simp add: live_def open_socket_def)
  ultimately show ?thesis using inv 0 True
    by (auto simp: inv_but_def connections_def initializing_def keys_ok_def status_ok_def logs_ok_def asks_def open_socket_def)
qed (simp add: open_socket_def inv_but_reconnect[where k = 0, simplified])

lemma inv_but_connect: "inv_but 0 (of_bool (\<not> b)) s \<Longrightarrow> dash_inv (connect_to b s)"
proof -
  assume inv: "inv_but 0 (of_bool (\<not> b)) s"
  have "dash_inv (snd (ask Ask_Dashboard_Key b s))"
    using inv_but_ask[OF inv, of Ask_Dashboard_Key b] by (cases b) (simp_all add: inv_but_full connecting_def new_key_def)
  moreover have "dash_inv (if b then init_done (open_socket s) else open_socket s)"
    using inv_but_open[OF inv] inv_but_init by (cases b) (simp_all add: inv_but_full)
  ultimately show ?thesis by (cases b) (simp_all add: connect_to_def)
qed

lemma inv_but_connect_answer: "inv_but 0 (of_bool (\<not> b)) s \<Longrightarrow> dash_inv (connect_answer b r s)"
proof -
  assume inv: "inv_but 0 (of_bool (\<not> b)) s"
  let ?s = "case bindE r (\<lambda>data. read_prop data (lit ''api_key'')) of
      Inr k \<Rightarrow> open_socket (s\<lparr>api_key := k\<rparr>) | Inl e \<Rightarrow> arm_reconnect s"
  have "inv_but 1 (of_bool (\<not> b)) ?s"
    using inv_but_open[OF inv_but_key[OF inv]] inv_but_reconnect[OF inv] by (auto split: sum.split)
  then show ?thesis using inv_but_init by (cases b) (simp_all add: connect_answer_def inv_but_full Let_def)
qed

section \<open>Events\<close>

lemma taken:
  assumes "dash_inv s" and "j < length (asked s)" and "\<not> new_key (asked s ! j)"
  shows "inv_but (1 - of_bool (connecting (asked s ! j))) (1 - of_bool (snd (asked s ! j))) (take_request j s)"
  using assms asks_take[OF assms(2)]
  by (auto simp: dash_inv_def inv_but_def inv_parts)

text \<open>The three list requests answer the same way: a listed change, then what \<open>init\<close> does next.\<close>

lemma answer_ask:
  assumes "inv_but (1 - of_bool b) (1 - of_bool b) s" and "listed s s'" and "next \<noteq> Ask_New_Key"
  shows "dash_inv (if b then snd (ask next True s') else s')"
  using inv_but_listed[OF assms(2,1)] inv_but_ask[of 0 0 s' "next" True] assms(3)
  by (cases b) (simp_all add: inv_but_full connecting_def new_key_def)

lemma answer_connect:
  assumes "inv_but (1 - of_bool b) (1 - of_bool b) s" and "listed s s'"
  shows "dash_inv (if b then connect_to True s' else s')"
  using inv_but_listed[OF assms(2,1)] inv_but_connect[of True s'] by (cases b) (simp_all add: inv_but_full)

lemma inv_key_answer:
  assumes "dash_inv s" and "j < length (asked s)" and "asked s ! j = (Ask_New_Key, b)"
  shows "dash_inv (key_answer r (take_request j s))"
proof -
  have k: "asks new_key s = of_bool (key_disabled s)" "asks (\<lambda>q. new_key q \<and> snd q) s = 0"
    using assms(1) by (simp_all add: dash_inv_def keys_ok_def)
  then have b: "\<not> b" using asks_take[OF assms(2), of "\<lambda>q. new_key q \<and> snd q"] assms(3) by (simp add: new_key_def)
  have 0: "asks new_key (take_request j s) = 0"
    using asks_take[OF assms(2), of new_key] assms(3) k by (cases "key_disabled s") (simp_all add: new_key_def)
  have "asks (\<lambda>q. new_key q \<and> snd q) (take_request j s) = 0"
    using asks_take[OF assms(2), of "\<lambda>q. new_key q \<and> snd q"] k by simp
  moreover have "asks connecting (take_request j s) = asks connecting s" "asks snd (take_request j s) = asks snd s"
    using asks_take[OF assms(2)] assms(3) b by (simp_all add: connecting_def)
  ultimately show ?thesis using assms(1) 0
    by (cases "polling s") (auto simp: dash_inv_def inv_parts key_answer_def split: sum.split)
qed

lemma inv_answer:
  assumes "dash_inv s" and "j < length (asked s)"
  shows "dash_inv (answer (fst (asked s ! j)) (snd (asked s ! j)) r (take_request j s))"
proof (cases "asked s ! j")
  case (Pair req b)
  note t = taken[OF assms] answer_ask answer_connect inv_but_connect_answer
  show ?thesis
  proof (cases req)
    case Ask_Status
    then show ?thesis using taken[OF assms] Pair answer_ask[OF _ attempt_listed(1)]
      by (simp add: answer_def connecting_def new_key_def Let_def)
  next
    case Ask_Rooms
    then show ?thesis using taken[OF assms] Pair answer_ask[OF _ attempt_listed(2)]
      by (simp add: answer_def connecting_def new_key_def Let_def)
  next
    case Ask_Agents
    then show ?thesis using taken[OF assms] Pair answer_connect[OF _ attempt_listed(3)]
      by (simp add: answer_def connecting_def new_key_def Let_def)
  next
    case Ask_New_Key
    then show ?thesis using inv_key_answer[OF assms, of b r] Pair by (simp add: answer_def)
  next
    case Ask_Dashboard_Key
    then show ?thesis using taken[OF assms] Pair inv_but_connect_answer[of b "take_request j s" r]
      by (cases b) (simp_all add: answer_def connecting_def new_key_def)
  qed
qed

lemma inv_click:
  assumes "dash_inv s" and "\<not> key_disabled s"
  shows "dash_inv (create_api_key s)"
  using assms asks_ask[of connecting Ask_New_Key False s] asks_ask[of snd Ask_New_Key False s]
    asks_ask[of new_key Ask_New_Key False s] asks_ask[of "\<lambda>q. new_key q \<and> snd q" Ask_New_Key False s]
  by (simp add: dash_inv_def inv_parts create_api_key_def connecting_def new_key_def)

lemma inv_poll: "dash_inv s \<Longrightarrow> dash_inv (attempt fetch_status s)"
  using inv_but_listed[OF attempt_listed(4)] by (simp add: inv_but_full)

lemma inv_reconnect:
  assumes "dash_inv s" and "0 < reconnects s"
  shows "dash_inv (connect_to False (s\<lparr>reconnects := reconnects s - 1\<rparr>))"
  by (rule inv_but_connect) (use assms in \<open>simp add: dash_inv_def inv_but_def inv_parts\<close>)

text \<open>A socket that is not closed is the latest one.\<close>

lemma current_socket:
  assumes "latest_socket s" and "socket_at s i \<noteq> Closed"
  shows "sockets s = replicate i Closed @ [socket_at s i]" "ws s = Some i"
proof -
  obtain n r where s: "sockets s = replicate n Closed @ [r]" "ws s = Some n"
    using assms by (auto simp: latest_socket_def socket_at_def)
  then have "i = n" using assms(2)
    by (cases "i < n") (auto simp: socket_at_def nth_append split: if_splits)
  then show "sockets s = replicate i Closed @ [socket_at s i]" "ws s = Some i"
    using s by (simp_all add: socket_at_def nth_append)
qed

lemma set_current_socket:
  assumes "dash_inv s" and "socket_at s i \<noteq> Closed"
  shows "latest_socket (set_socket i r s)" "live s = 1" "live (set_socket i r s) = of_bool (r \<noteq> Closed)"
    "socket_open (set_socket i r s) \<longleftrightarrow> r = Opened" "socket_open s \<longleftrightarrow> socket_at s i = Opened"
proof -
  have l: "latest_socket s" using assms(1) by (simp add: dash_inv_def)
  note c = current_socket[OF l assms(2)]
  have u: "sockets (set_socket i r s) = replicate i Closed @ [r]"
    unfolding set_socket_def by (subst c(1)) (simp add: list_update_append)
  have w: "ws (set_socket i r s) = Some i" using c(2) by (simp add: set_socket_def)
  show "latest_socket (set_socket i r s)" using u w by (simp add: latest_socket_def)
  show "live s = 1" using c(1) assms(2) by (simp add: live_def)
  show "live (set_socket i r s) = of_bool (r \<noteq> Closed)" using u by (simp add: live_def)
  show "socket_open (set_socket i r s) \<longleftrightarrow> r = Opened" using u w by (simp add: socket_open_def nth_append)
  show "socket_open s \<longleftrightarrow> socket_at s i = Opened"
    unfolding socket_open_def c(2) by (subst (1 2) c(1)) (simp add: nth_append)
qed

lemma set_socket_fields [simp]:
  "asked (set_socket i r s) = asked s" "reconnects (set_socket i r s) = reconnects s"
  "polling (set_socket i r s) = polling s" "key_disabled (set_socket i r s) = key_disabled s"
  "messages (set_socket i r s) = messages s" "feed (set_socket i r s) = feed s"
  by (simp_all add: set_socket_def)

lemma inv_open:
  assumes "dash_inv s" and "socket_at s i = Connecting"
  shows "dash_inv (on_socket_open (set_socket i Opened s))"
proof -
  let ?s = "(set_socket i Opened s)\<lparr>connected_dot := True\<rparr>"
  have n: "socket_at s i \<noteq> Closed" using assms(2) by simp
  note c = set_current_socket(1,3,4)[OF assms(1) n, where r = Opened, simplified] set_current_socket(2)[OF assms(1) n]
  have "connections (set_socket i Opened s) = connections s" "initializing (set_socket i Opened s) = initializing s"
    "keys_ok (set_socket i Opened s) = keys_ok s" "logs_ok (set_socket i Opened s) = logs_ok s"
    using c by (simp_all add: connections_def initializing_def keys_ok_def logs_ok_def asks_def)
  then have inv: "inv_but 1 1 ?s"
    using assms(1) c by (simp add: inv_but_def dash_inv_def inv_parts)
  have "listed ?s (attempt register ?s)"
    unfolding attempt_def register_def by (rule jsm_keepsD[where P = "listed ?s"]) (intro keeps, simp)
  from inv_but_listed[OF this inv] show ?thesis by (simp add: on_socket_open_def inv_but_full)
qed

lemma inv_close:
  assumes "dash_inv s" and "socket_at s i \<noteq> Closed"
  shows "dash_inv (on_socket_close (set_socket i Closed s))"
proof -
  let ?s = "(set_socket i Closed s)\<lparr>connected_dot := False, registered := False\<rparr>"
  note c = set_current_socket(1,3,4)[OF assms, where r = Closed, simplified] set_current_socket(2)[OF assms]
  have "connections s = Suc (connections (set_socket i Closed s))" "initializing (set_socket i Closed s) = initializing s"
    "keys_ok (set_socket i Closed s) = keys_ok s" "logs_ok (set_socket i Closed s) = logs_ok s"
    using c by (simp_all add: connections_def initializing_def keys_ok_def logs_ok_def asks_def)
  then have "inv_but 0 1 ?s"
    using assms(1) c by (simp add: inv_but_def dash_inv_def inv_parts)
  from inv_but_reconnect[OF this] show ?thesis by (simp add: on_socket_close_def inv_but_full)
qed

lemma inv_message:
  assumes "dash_inv s" and "socket_at s i = Opened"
  shows "dash_inv (on_socket_message clk data s)"
proof (cases data)
  case (Some frame)
  have "socket_open s" using set_current_socket(5)[OF assms(1), of i] assms(2) by simp
  then show ?thesis using Some handled_inv[OF attempt_handled _ assms(1)] by (simp add: on_socket_message_def)
qed (use assms in \<open>simp add: on_socket_message_def\<close>)

lemma dash_inv_event:
  assumes "dash_inv s" and "dash_enabled e s"
  shows "dash_inv (dash_act e s)"
  using assms inv_answer inv_click inv_poll inv_reconnect inv_open inv_close inv_message
  by (cases e) (simp_all add: dash_act_def dash_enabled_def)

lemma dash_inv_start: "dash_inv (start_init (dash_start sec h allowed))"
proof -
  have "inv_but 0 0 ((dash_start sec h allowed)\<lparr>ws_url_text := u\<rparr>)" for u
    using feed_ok_start[of sec h allowed]
    by (auto simp: inv_but_def dash_start_def connections_def initializing_def keys_ok_def latest_socket_def status_ok_def
        logs_ok_def messages_ok_def live_def asks_def socket_open_def)
  from inv_but_ask[OF this, of Ask_Status True] show ?thesis
    by (simp add: start_init_def inv_but_full connecting_def new_key_def dash_start_def)
qed

interpretation dashboard: invariant_machine "start_init (dash_start sec h allowed)" dash_enabled dash_act dash_inv
  for sec h allowed
  by unfold_locales (simp_all add: dash_inv_start dash_inv_event)

end
