(* ===== verification/Dashboard_Properties.thy ===== *)
theory Dashboard_Properties
  imports Dashboard_Invariant
begin

text \<open>
  What the dashboard guarantees: one connection at a time, registration before anything else, the
  two capped lists, the room list under created and destroyed events, escaping, and the tally.
\<close>

section \<open>Example run\<close>

text \<open>\<open>init\<close> with its three lists, a key, an open socket and the answer to the registration.\<close>

definition one_room :: jsv where
  "one_room = JObj [(lit ''room_id'', JStr (lit ''abcdefghij'')), (lit ''name'', JStr (lit ''lobby''))]"

definition rooms_data :: jsv where
  "rooms_data = JObj [(lit ''rooms'', JArr [one_room])]"

definition key_data :: jsv where
  "key_data = JObj [(lit ''api_key'', JStr (lit ''k''))]"

definition registered_frame :: jsv where
  "registered_frame = JObj [(lit ''reply_to'', JStr (lit ''reg-1'')), (lit ''type'', JStr (lit ''ok'')),
     (lit ''payload'', JObj [(lit ''agent_id'', JStr (lit ''a''))])]"

definition some_clock :: clock where
  "some_clock = \<lparr>time_of = (\<lambda>v. lit ''10:00:00''), time_now = lit ''10:00:01''\<rparr>"

definition first_events :: "dash_event list" where
  "first_events = [Answer 0 (Inl TypeError), Answer 0 (Inl TypeError), Answer 0 (Inl TypeError), Answer 0 (Inr key_data),
     Socket_Open 0]"

definition opened :: dash where
  "opened = the (run_events dash_enabled dash_act first_events (start_init (dash_start True (lit ''h'') True)))"

text \<open>The strings stay folded, so that a run is a few rewriting steps.\<close>

lemmas dash_eval = dash_act_def dash_enabled_def answer_def status_answer_def rooms_answer_def agents_answer_def
  connect_answer_def connect_to_def open_socket_def init_done_def arm_reconnect_def on_socket_open_def register_def
  send_frame_def socket_open_def set_socket_def socket_at_def take_request_def attempt_def ask_def start_init_def
  dash_start_def jsm_defs read_prop_def prop_or_undef_def

lemma lit_k [simp]: "lit ''k'' \<noteq> []"
  by (simp add: lit_def)

lemma opened_run: "run_events dash_enabled dash_act first_events (start_init (dash_start True (lit ''h'') True)) = Some opened"
  and opened_fields: "sockets opened = [Opened]" "ws opened = Some 0" "asked opened = []" "reconnects opened = 0"
    "rooms opened = JArr []" "messages opened = []" "api_key opened = JStr (lit ''k'')" "socket_allowed opened"
    "registered opened = False"
  unfolding opened_def by (simp_all add: first_events_def dash_eval key_data_def)

lemma opened_reachable: "dash_reachable True (lit ''h'') True opened"
  by (rule run_reachable[OF opened_run reachable_start])

lemma opened_logs: "logs_ok opened" "socket_open opened"
  using dashboard.reachable_inv[OF opened_reachable] opened_fields by (simp_all add: dash_inv_def socket_open_def)

section \<open>The connection\<close>

text \<open>C24: In every reachable state there is exactly one of: a request whose answer leads to connect, an armed reconnect timer, a socket that is not closed; and a socket that is not closed is the one in \<open>this.ws\<close>.\<close>

theorem dashboard_single_connection:
  assumes "dash_reachable sec h allowed s"
  shows "length (filter connecting (asked s)) + reconnects s + length (filter (\<lambda>r. r \<noteq> Closed) (sockets s)) = 1 \<and>
    (\<forall>i < length (sockets s). sockets s ! i \<noteq> Closed \<longrightarrow> ws s = Some i)"
proof -
  have inv: "connections s = 1" "latest_socket s"
    using dashboard.reachable_inv[OF assms] by (simp_all add: dash_inv_def)
  then show ?thesis
    using current_socket(2)[OF inv(2)] by (simp add: socket_at_def connections_def asks_def live_def)
qed

theorem dashboard_single_connection_witness: "reconnects opened = 0 \<and> ws opened = Some 0"
  using dashboard_single_connection[OF opened_reachable] opened_fields by simp

text \<open>C25: The status dot is on exactly when the current socket is open, registered implies it, and the key button is disabled exactly while one request for a key is awaited; init is awaited or has armed the one interval.\<close>

theorem dashboard_status:
  assumes "dash_reachable sec h allowed s"
  shows "connected_dot s = socket_open s \<and> (registered s \<longrightarrow> socket_open s) \<and>
    length (filter (\<lambda>q. fst q = Ask_New_Key) (asked s)) = of_bool (key_disabled s) \<and>
    length (filter snd (asked s)) = of_bool (\<not> polling s)"
  using dashboard.reachable_inv[OF assms]
  by (auto simp: dash_inv_def status_ok_def keys_ok_def initializing_def asks_def new_key_def[abs_def])

theorem dashboard_status_witness: "connected_dot opened \<and> polling opened \<and> \<not> key_disabled opened"
  using dashboard_status[OF opened_reachable] opened_fields opened_logs by simp

lemma lists_sent:
  "sent (attempt (status_answer r) t) = sent t" "sent (attempt (rooms_answer r) t) = sent t"
  "sent (attempt (agents_answer r) t) = sent t" "sent (attempt fetch_status t) = sent t"
  "asked (attempt (status_answer r) t) = asked t" "asked (attempt (rooms_answer r) t) = asked t"
  "asked (attempt (agents_answer r) t) = asked t" "api_key (attempt (status_answer r) t) = api_key t"
  "api_key (attempt (rooms_answer r) t) = api_key t" "api_key (attempt (agents_answer r) t) = api_key t"
  by (auto simp: attempt_def status_answer_def rooms_answer_def agents_answer_def set_rooms_def set_agents_def
      render_rooms_def render_agents_def fetch_status_def ask_def jsm_defs split: sum.splits prod.splits)

lemma connection_sent:
  "sent (connect_to b t) = sent t" "sent (connect_answer b r t) = sent t" "sent (snd (ask q b t)) = sent t"
  "sent (take_request j t) = sent t" "sent (set_socket i c t) = sent t" "sent (key_answer r t) = sent t"
  "sent (create_api_key t) = sent t" "sent (on_socket_close t) = sent t"
  by (auto simp: connect_to_def connect_answer_def open_socket_def init_done_def arm_reconnect_def ask_def modify_def
      take_request_def set_socket_def key_answer_def create_api_key_def on_socket_close_def Let_def split: sum.splits)

lemma answer_sent: "sent (answer q b r t) = sent t"
  by (cases q) (simp_all add: answer_def lists_sent connection_sent Let_def)

lemma open_sends_register:
  "socket_open s \<Longrightarrow> sent (on_socket_open s) = sent s @ [json_text (register_frame (api_key s))]"
  by (simp add: on_socket_open_def attempt_def register_def send_frame_def jsm_defs)

text \<open>C26: Nothing is sent on a socket before the registration: an event other than a received frame, which needs the open socket, sends nothing, except that the opening of a socket sends the register frame with the key.\<close>

theorem dashboard_registers_first:
  assumes "dash_reachable sec h allowed s" and "dash_enabled e s"
  shows "case e of Socket_Open i \<Rightarrow> sent (dash_act e s) = sent s @ [json_text (register_frame (api_key s))]
    | Socket_Message i clk data \<Rightarrow> socket_open s
    | _ \<Rightarrow> sent (dash_act e s) = sent s"
proof -
  have inv: "dash_inv s" using dashboard.reachable_inv[OF assms(1)] .
  show ?thesis
  proof (cases e)
    case (Socket_Open i)
    then have "socket_at s i \<noteq> Closed" using assms(2) by (simp add: dash_enabled_def)
    then have "socket_open (set_socket i Opened s)" using set_current_socket(4)[OF inv, of i Opened] by simp
    then show ?thesis using Socket_Open open_sends_register
      by (simp add: dash_act_def connection_sent) (simp add: set_socket_def)
  next
    case (Socket_Message i clk data)
    then show ?thesis using set_current_socket(5)[OF inv, of i] assms(2) by (simp add: dash_enabled_def)
  qed (simp_all add: dash_act_def lists_sent connection_sent answer_sent)
qed

theorem dashboard_registers_first_witness:
  "sent (dash_act (Socket_Close 0) opened) = sent opened"
  using dashboard_registers_first[OF opened_reachable, of "Socket_Close 0"] opened_fields
  by (simp add: dash_enabled_def socket_at_def)

text \<open>Whatever answers \<open>init\<close> gets to its three requests, it goes on to ask for a key.\<close>

lemma dashboard_init_connects:
  "\<exists>s. run_events dash_enabled dash_act [Answer 0 r1, Answer 0 r2, Answer 0 r3] (start_init (dash_start sec h allowed))
      = Some s \<and> asked s = [(Ask_Dashboard_Key, True)]"
proof -
  have "asked (snd (ask q b t)) = asked t @ [(q, b)]" "api_key (snd (ask q b t)) = api_key t" for q b t
    by (simp_all add: ask_def modify_def)
  moreover have "asked (take_request 0 t) = tl (asked t)" for t by (simp add: take_request_def drop_Suc)
  ultimately show ?thesis
    by (simp add: dash_enabled_def dash_act_def answer_def lists_sent connect_to_def Let_def start_init_def dash_start_def)
qed



section \<open>Frames\<close>

text \<open>C28: Whatever a received text is, and whatever its handler throws, the connection, the timers and the buttons stay as they are, at most the lists and the status are asked for again, and both logs stay within their cap; a text that is not JSON or has no handler changes nothing.\<close>

theorem dashboard_contains_frames:
  assumes "dash_reachable sec h allowed s"
  shows "(let s' = on_socket_message clk data s in
      ws s' = ws s \<and> sockets s' = sockets s \<and> reconnects s' = reconnects s \<and> polling s' = polling s \<and>
      api_key s' = api_key s \<and> key_disabled s' = key_disabled s \<and> connected_dot s' = connected_dot s \<and>
      length (messages s') \<le> max_messages \<and> length (filter is_li (feed s')) \<le> max_messages) \<and>
    on_socket_message clk None s = s \<and>
    on_socket_message clk (Some (JObj [(lit ''type'', JStr (lit ''ping''))])) s = s"
proof -
  have logs: "logs_ok s" using dashboard.reachable_inv[OF assms] by (simp add: dash_inv_def)
  have "handled s (on_socket_message clk data s)"
    by (cases data) (simp_all add: on_socket_message_def attempt_handled)
  moreover have "frame_kind_of (JObj [(lit ''type'', JStr (lit ''ping''))]) = Inr Other_Frame"
    by (simp add: frame_kind_of_def read_prop_def prop_or_undef_def frame_cases_def lit_def)
  ultimately show ?thesis using logs
    by (simp add: Let_def handled_def same_page_def logs_ok_def messages_ok_def feed_ok_def on_socket_message_def
        attempt_def handle_frame_def jsm_defs)
qed

theorem dashboard_contains_frames_witness: "on_socket_message some_clock None opened = opened"
  using dashboard_contains_frames[OF opened_reachable] by blast

text \<open>What a message frame adds, if anything.\<close>

definition received :: "clock \<Rightarrow> jsv \<Rightarrow> jsv \<Rightarrow> jserr + message option" where
  "received clk rms payload =
     bindE (read_prop payload (lit ''agent_name'')) (\<lambda>name.
       if name = dashboard_name then Inr None
       else bindE (room_name rms (prop_or_undef payload (lit ''room_id''))) (\<lambda>room.
         bindE (truncated 200 (prop_or_undef payload (lit ''content''))) (\<lambda>text.
           Inr (Some \<lparr>m_time = time_of clk (prop_or_undef payload (lit ''timestamp'')), m_agent = name,
             m_room = room, m_content = text\<rparr>))))"

definition received_list :: "jsv \<Rightarrow> clock \<times> jsv \<Rightarrow> message list" where
  "received_list rms x =
     (case received (fst x) rms (prop_or_undef (snd x) (lit ''payload'')) of Inr (Some m) \<Rightarrow> [m] | _ \<Rightarrow> [])"

definition message_text :: "message \<Rightarrow> entry_class \<times> jsstr" where
  "message_text m = (Plain, message_html (m_time m) (m_agent m) (m_room m) (m_content m))"

lemma message_frame_step:
  assumes "frame_kind_of frame = Inr Message_Received"
  shows "messages (on_socket_message clk (Some frame) s) = fold push_message (received_list (rooms s) (clk, frame)) (messages s)"
    "feed (on_socket_message clk (Some frame) s)
      = fold push_feed (map message_text (received_list (rooms s) (clk, frame))) (feed s)"
    "rooms (on_socket_message clk (Some frame) s) = rooms s"
  using assms
  by (auto simp: on_socket_message_def attempt_def handle_frame_def on_message_received_def received_list_def received_def
      add_message_def append_li_def push_feed_def feed_entry_def message_text_def jsm_defs dashboard_name_def bindE_def
      split: sum.splits)

definition receive_all :: "(clock \<times> jsv) list \<Rightarrow> dash \<Rightarrow> dash" where
  "receive_all fs = fold (\<lambda>x. on_socket_message (fst x) (Some (snd x))) fs"

lemma receive_all_step:
  assumes "\<forall>x \<in> set fs. frame_kind_of (snd x) = Inr Message_Received"
  shows "rooms (receive_all fs s) = rooms s \<and>
    messages (receive_all fs s) = fold push_message (concat (map (received_list (rooms s)) fs)) (messages s) \<and>
    feed (receive_all fs s) = fold push_feed (map message_text (concat (map (received_list (rooms s)) fs))) (feed s)"
  using assms by (induction fs arbitrary: s) (simp_all add: receive_all_def message_frame_step)

text \<open>C29: After any message frames, the kept messages are the latest 200 of the old and the received ones in order, and the page shows the latest 200 entries with theirs at the end; messages of the dashboard itself and messages that fail to render are not among them.\<close>

theorem dashboard_shows_latest:
  assumes "logs_ok s" and "\<forall>x \<in> set fs. frame_kind_of (snd x) = Inr Message_Received"
  shows "messages (receive_all fs s)
      = last_n max_messages (messages s @ concat (map (received_list (rooms s)) fs)) \<and>
    feed_entries (feed (receive_all fs s))
      = last_n max_messages (feed_entries (feed s) @
          map (feed_entry \<circ> message_text) (concat (map (received_list (rooms s)) fs)))"
proof -
  have ok: "messages_ok (messages s)" "feed_ok (feed s)" using assms(1) by (simp_all add: logs_ok_def)
  have "length (feed_entries (feed s)) \<le> max_messages"
    using ok(2) length_filter_le[of shown "filter is_li (feed s)"]
    by (simp add: feed_ok_def feed_entries_def filter_shown_li del: length_filter_le filter_filter)
  then show ?thesis
    using receive_all_step[OF assms(2)] message_log.pushes_entries[OF ok(1)] feed_log.pushes_entries[OF ok(2)] ok(1)
    by (simp add: messages_ok_def)
qed

definition hello_frame :: jsv where
  "hello_frame = JObj [(lit ''type'', JStr (lit ''message_received'')), (lit ''payload'',
     JObj [(lit ''agent_name'', JStr (lit ''bob'')), (lit ''room_id'', JStr (lit ''r'')), (lit ''content'', JStr (lit ''hi''))])]"

lemma hello_kind: "frame_kind_of hello_frame = Inr Message_Received"
  by (simp add: frame_kind_of_def hello_frame_def read_prop_def prop_or_undef_def frame_cases_def lit_def)

lemma hello_received: "received some_clock (JArr []) (prop_or_undef hello_frame (lit ''payload'')) =
    Inr (Some \<lparr>m_time = lit ''10:00:00'', m_agent = JStr (lit ''bob''), m_room = JStr (lit ''r''), m_content = JStr (lit ''hi'')\<rparr>)"
  by (simp add: received_def hello_frame_def read_prop_def prop_or_undef_def dashboard_name_def room_name_def array_items_def
      slice_to_def truncated_def length_of_def js_gt_def prim_gt_def num_of_nat_def norm_num_def signed_def some_clock_def
      strip_zeros.simps lit_def)

theorem dashboard_shows_latest_witness:
  "map m_content (messages (receive_all [(some_clock, hello_frame)] opened)) = [JStr (lit ''hi'')]"
  using dashboard_shows_latest[OF opened_logs(1), of "[(some_clock, hello_frame)]"]
  by (simp add: hello_kind opened_fields received_list_def hello_received max_messages_def)

section \<open>Registration and rooms\<close>

lemma join_each_sent:
  assumes "list_all (\<lambda>r. \<not> nullish r) rs" and "socket_open s"
  shows "join_each rs s =
    (Inr (), s\<lparr>sent := sent s @ map (\<lambda>r. json_text (join_frame (prop_or_undef r (lit ''room_id'')))) rs\<rparr>)"
  using assms
proof (induction rs arbitrary: s)
  case (Cons r rs)
  have "socket_open (s\<lparr>sent := sent s @ [x]\<rparr>)" for x
    using Cons.prems(2) by (simp add: socket_open_def split: option.splits)
  then show ?case
    using Cons by (simp add: jsm_defs room_id_of_def read_prop_def send_frame_def)
qed (simp add: jsm_defs)


lemma registered_kind: "frame_kind_of registered_frame = Inr Registered"
  by (simp add: frame_kind_of_def registered_frame_def read_prop_def prop_or_undef_def lit_def)


text \<open>A list of rooms as the server sends them: objects with string ids.\<close>

definition has_id :: "jsv \<Rightarrow> jsstr \<Rightarrow> bool" where
  "has_id r k \<longleftrightarrow> \<not> nullish r \<and> prop_or_undef r (lit ''room_id'') = JStr k \<and> truthy r"

definition room_ids :: "jsv list \<Rightarrow> jsstr list \<Rightarrow> bool" where
  "room_ids rs ks \<longleftrightarrow> list_all2 has_id rs ks"

lemma has_id_read: "has_id r k \<Longrightarrow> room_id_of r = Inr (JStr k)"
  by (simp add: has_id_def room_id_of_def read_prop_def)

lemma find_room_ids:
  "room_ids rs ks \<Longrightarrow> \<exists>found. find_room (Inr (JStr k)) rs = Inr found \<and> (found = None \<longleftrightarrow> k \<notin> set ks) \<and>
     (\<forall>r. found = Some r \<longrightarrow> truthy r)"
  unfolding room_ids_def
  by (induction rs ks rule: list_all2_induct) (auto simp: has_id_read, auto simp: has_id_def)

lemma filter_room_ids:
  "room_ids rs ks \<Longrightarrow> k \<notin> set ks \<Longrightarrow> filter_err (keeps_room (Inr (JStr k))) rs = Inr rs"
  unfolding room_ids_def
  by (induction rs ks rule: list_all2_induct) (auto simp: keeps_room_def has_id_read)

lemma room_html_ok: "\<not> nullish r \<Longrightarrow> \<exists>h. room_html r = Inr h"
  by (simp add: room_html_def room_visibility_def read_prop_def)

lemma rooms_html_ok: "list_all (\<lambda>r. \<not> nullish r) rs \<Longrightarrow> \<exists>h. rooms_html (JArr rs) = Inr h"
proof -
  assume "list_all (\<lambda>r. \<not> nullish r) rs"
  then have "\<exists>hs. map_err room_html rs = Inr hs"
    by (induction rs) (auto dest!: room_html_ok)
  then show ?thesis by (auto simp: rooms_html_def length_zero_def length_of_def read_prop_def array_items_def)
qed

lemma room_ids_nonnull: "room_ids rs ks \<Longrightarrow> list_all (\<lambda>r. \<not> nullish r) rs"
  unfolding room_ids_def by (induction rs ks rule: list_all2_induct) (auto simp: has_id_def)

lemma set_rooms_ok:
  "list_all (\<lambda>r. \<not> nullish r) rs \<Longrightarrow> \<exists>h. set_rooms (JArr rs) s = (Inr (), s\<lparr>rooms := JArr rs, rooms_list := h\<rparr>) \<and>
    rooms_html (JArr rs) = Inr h"
  using rooms_html_ok[of rs] by (auto simp: set_rooms_def render_rooms_def jsm_defs)

lemma keeps_room_list:
  "jsm_keeps (\<lambda>t. rooms t = v \<and> rooms_list t = h) (add_event clk text cls)"
  "jsm_keeps (\<lambda>t. rooms t = v \<and> rooms_list t = h) (send_frame f)"
  "jsm_keeps (\<lambda>t. rooms t = v \<and> rooms_list t = h) fetch_status"
  by (simp_all add: add_event_def append_li_def send_frame_def fetch_status_def ask_def modify_def jsm_keeps_def)

lemma next_do_keeps:
  assumes "m s = (Inr x, t)" and "jsm_keeps (\<lambda>t'. rooms t' = rooms t \<and> rooms_list t' = rooms_list t) n"
  shows "rooms (snd (next_do m n s)) = rooms t \<and> rooms_list (snd (next_do m n s)) = rooms_list t"
  using assms by (simp add: next_do_def bind_def jsm_keeps_def)

lemma created_rooms:
  assumes "rooms s = JArr rs" and "room_ids rs ks" and "has_id p k"
  shows "rooms (attempt (on_room_created clk p) s) = JArr (if k \<in> set ks then rs else rs @ [p])"
    and "k \<notin> set ks \<Longrightarrow> rooms_html (JArr (rs @ [p])) = Inr (rooms_list (attempt (on_room_created clk p) s))"
proof -
  obtain found where f: "find_room (Inr (JStr k)) rs = Inr found" "found = None \<longleftrightarrow> k \<notin> set ks"
      "\<forall>r. found = Some r \<longrightarrow> truthy r"
    using find_room_ids[OF assms(2)] by blast
  have rest: "rooms (snd (on_room_created clk p s)) = rooms t \<and> rooms_list (snd (on_room_created clk p s)) = rooms_list t"
    if "add_room p s = (Inr (), t)" for t
    unfolding on_room_created_def
    by (rule next_do_keeps[where m = "add_room p" and s = s, OF that]) (intro keeps keeps_room_list)
  have "list_all (\<lambda>r. \<not> nullish r) (rs @ [p])" using assms(3) room_ids_nonnull[OF assms(2)] by (simp add: has_id_def)
  from set_rooms_ok[OF this] obtain h where h: "set_rooms (JArr (rs @ [p])) s = (Inr (), s\<lparr>rooms := JArr (rs @ [p]), rooms_list := h\<rparr>)"
      "rooms_html (JArr (rs @ [p])) = Inr h" by blast
  have add: "add_room p s = (if k \<in> set ks then (Inr (), s) else (Inr (), s\<lparr>rooms := JArr (rs @ [p]), rooms_list := h\<rparr>))"
    using assms(1) f h has_id_read[OF assms(3)] by (cases found) (auto simp: add_room_def array_items_def jsm_defs)
  show "rooms (attempt (on_room_created clk p) s) = JArr (if k \<in> set ks then rs else rs @ [p])"
    using rest add assms(1) by (cases "k \<in> set ks") (simp_all add: attempt_def)
  show "k \<notin> set ks \<Longrightarrow> rooms_html (JArr (rs @ [p])) = Inr (rooms_list (attempt (on_room_created clk p) s))"
    using rest add h(2) by (simp add: attempt_def)
qed

lemma destroyed_rooms:
  assumes "rooms s = JArr rs" and "list_all (\<lambda>r. \<not> nullish r) kept"
    and "filter_err (keeps_room (room_id_of p)) rs = Inr kept"
  shows "rooms (attempt (on_room_destroyed clk p) s) = JArr kept \<and>
    rooms_html (JArr kept) = Inr (rooms_list (attempt (on_room_destroyed clk p) s))"
proof -
  from set_rooms_ok[OF assms(2)] obtain h where
    h: "set_rooms (JArr kept) s = (Inr (), s\<lparr>rooms := JArr kept, rooms_list := h\<rparr>)" "rooms_html (JArr kept) = Inr h"
    by blast
  let ?n = "bind (lift_err (destroyed_text p)) (\<lambda>text. next_do (add_event clk text event_leave) fetch_status)"
  have "attempt (on_room_destroyed clk p) s = snd (next_do (set_rooms (JArr kept)) ?n s)"
    using assms by (simp add: attempt_def on_room_destroyed_def gets_def lift_err_def bind_def array_items_def)
  moreover have "rooms (snd (next_do (set_rooms (JArr kept)) ?n s)) = JArr kept \<and>
      rooms_list (snd (next_do (set_rooms (JArr kept)) ?n s)) = h"
    using next_do_keeps[where m = "set_rooms (JArr kept)" and s = s and n = ?n, OF h(1)]
    by (auto intro!: keeps keeps_room_list)
  ultimately show ?thesis using h(2) by simp
qed

text \<open>With rooms as the server sends them, a created room is added once (a second event changes nothing), destroying it restores the list, and the page shows the HTML of the list each time.\<close>

theorem room_created_destroyed:
  assumes "rooms s = JArr rs" and "room_ids rs ks" and "has_id p k" and "k \<notin> set ks"
  shows "let created = attempt (on_room_created clk p); destroyed = attempt (on_room_destroyed clk p) in
    rooms (created s) = JArr (rs @ [p]) \<and>
    rooms_html (rooms (created s)) = Inr (rooms_list (created s)) \<and>
    rooms (created (created s)) = rooms (created s) \<and>
    rooms (destroyed (created s)) = rooms s \<and>
    rooms_html (rooms s) = Inr (rooms_list (destroyed (created s)))"
proof -
  let ?c = "attempt (on_room_created clk p)"
  have c: "rooms (?c s) = JArr (rs @ [p])" using created_rooms(1)[OF assms(1-3)] assms(4) by simp
  have ids: "room_ids (rs @ [p]) (ks @ [k])"
    using assms(2,3) by (simp add: room_ids_def list_all2_appendI)
  have "filter_err (keeps_room (Inr (JStr k))) (rs @ [p]) = Inr rs"
    using assms(2,4) unfolding room_ids_def
    by (induction rs ks rule: list_all2_induct) (auto simp: keeps_room_def has_id_read has_id_read[OF assms(3)])
  then have "filter_err (keeps_room (room_id_of p)) (rs @ [p]) = Inr rs" using has_id_read[OF assms(3)] by simp
  from destroyed_rooms[OF c room_ids_nonnull[OF assms(2)] this] show ?thesis
    using c created_rooms(1)[OF c ids assms(3)] created_rooms(2)[OF assms(1-4)] assms(1)
    by (simp add: Let_def)
qed

theorem room_created_destroyed_witness:
  "rooms (attempt (on_room_destroyed some_clock one_room) (attempt (on_room_created some_clock one_room) opened)) = JArr []"
proof -
  have "has_id one_room (lit ''abcdefghij'')" by (simp add: has_id_def one_room_def prop_or_undef_def)
  then show ?thesis
    using room_created_destroyed[OF opened_fields(5), of "[]" one_room "lit ''abcdefghij''" some_clock] opened_fields(5)
    by (simp add: room_ids_def Let_def)
qed

section \<open>The key button\<close>

text \<open>Only a rejected answer counts as an error: the body of a refusal shows as an empty key.\<close>

lemma refusal_shown_as_key:
  "key_answer (Inr (JObj [(lit ''error'', message)])) s =
    s\<lparr>key_display := [], key_hidden := False, key_button := lit ''Get Another Key'', key_disabled := False\<rparr>"
  by (simp add: key_answer_def read_prop_def prop_or_undef_def text_content_def lit_def)

end
