(* ===== verification/Dashboard_View_Properties.thy ===== *)
theory Dashboard_View_Properties
  imports Dashboard_View
begin

text \<open>
  The HTML that the dashboard writes and the choice of a vote's winner: escaping is inverted by
  the parser's character references, the tags of a feed entry are those of the template, and the
  winner is the last option of greatest count.
\<close>

section \<open>Escaping\<close>

text \<open>The character references that a browser reads back, on the ones that \<open>esc\<close> writes.\<close>

definition entities :: "(jsstr \<times> code_unit) list" where
  "entities = [(lit ''amp;'', 38), (lit ''lt;'', 60), (lit ''gt;'', 62), (lit ''nbsp;'', 0xA0)]"

definition entity_at :: "jsstr \<Rightarrow> (jsstr \<times> code_unit) option" where
  "entity_at s = find (\<lambda>e. starts_with s (fst e)) entities"

function decode :: "jsstr \<Rightarrow> jsstr" where
  "decode [] = []"
| "decode (c # s) =
     (if c = 38 then case entity_at s of Some (e, d) \<Rightarrow> d # decode (drop (length e) s) | None \<Rightarrow> c # decode s
      else c # decode s)"
  by pat_completeness auto
termination
  by (relation "measure length") auto

lemma html_unit_no_markup: "c \<in> set (html_unit d) \<Longrightarrow> c \<noteq> 60 \<and> c \<noteq> 62"
  by (auto simp: html_unit_def lit_def split: if_splits)

lemma esc_no_markup: "c \<in> set (esc v) \<Longrightarrow> c \<noteq> 60 \<and> c \<noteq> 62"
  using html_unit_no_markup by (fastforce simp: esc_def html_text_def)

lemma decode_unit: "decode (html_unit c @ s) = c # decode s"
  by (auto simp: html_unit_def entity_at_def entities_def starts_with_def lit_def)

lemma decode_html_text: "decode (html_text s) = s"
  by (induction s) (simp_all add: html_text_def decode_unit)

text \<open>C31: \<open>esc\<close> leaves no angle bracket, and decoding the character references of what it returns gives the text back.\<close>

theorem esc_round_trip: "decode (esc v) = text_content v \<and> 60 \<notin> set (esc v) \<and> 62 \<notin> set (esc v)"
  using esc_no_markup by (auto simp: esc_def decode_html_text)

section \<open>Tags\<close>

text \<open>The texts between angle brackets; \<open>Some t\<close> is the part read of a tag.\<close>

fun tags :: "jsstr option \<Rightarrow> jsstr \<Rightarrow> jsstr list" where
  "tags None (c # s) = (if c = 60 then tags (Some []) s else tags None s)"
| "tags (Some t) (c # s) = (if c = 62 then t # tags None s else tags (Some (t @ [c])) s)"
| "tags None [] = []"
| "tags (Some t) [] = [t]"

lemma tags_text: "60 \<notin> set s \<Longrightarrow> tags None (s @ r) = tags None r"
  by (induction s) auto

lemma tags_inner: "62 \<notin> set s \<Longrightarrow> tags (Some t) (s @ 62 # r) = (t @ s) # tags None r"
  by (induction s arbitrary: t) auto

lemma tags_tag: "62 \<notin> set s \<Longrightarrow> tags None (60 # s @ 62 # r) = s # tags None r"
  using tags_inner[of s "[]" r] by simp

lemma tags_esc: "tags None (esc v @ r) = tags None r"
  by (rule tags_text) (use esc_no_markup in blast)

lemma tags_esc_end: "tags None (esc v) = []"
  using tags_esc[of v "[]"] by simp

lemma lit_tag: "lit (CHR ''<'' # s) = 60 # lit s" "lit (CHR ''>'' # s) = 62 # lit s"
  by (simp_all add: lit_def)

text \<open>C32: Whatever the agent, the room and the content of a message are, the tags of its entry in the feed are those of the template; the same for the text of an event.\<close>

theorem feed_markup:
  assumes "60 \<notin> set time"
  shows "tags None (message_html time agent room content) =
      [lit ''span class=\"msg-time\"'', lit ''/span'', lit ''span class=\"msg-room\"'', lit ''/span'',
       lit ''span class=\"msg-agent\"'', lit ''/span''] \<and>
    tags None (event_html time text) = [lit ''span class=\"msg-time\"'', lit ''/span'']"
  by (simp add: message_html_def event_html_def tags_esc tags_esc_end tags_text[OF assms] js_eval)

theorem feed_markup_witness: "tags None (event_html (lit ''10:00'') (lit ''<b>'')) = [lit ''span class=\"msg-time\"'', lit ''/span'']"
  using feed_markup[of "lit ''10:00''" _ _ _ "lit ''<b>''"] by (simp add: lit_def)

text \<open>The capabilities of an agent are not escaped: their tags are tags of the list.\<close>

lemma agent_markup:
  "\<exists>h. agent_html (JObj [(lit ''name'', n), (lit ''capabilities'', JArr [JStr cap])]) = Inr h \<and>
    tags None h = [lit ''li'', lit ''span class=\"agent-name\"'', lit ''/span'', lit ''span class=\"agent-caps\"''] @
      tags None (cap @ lit '']</span>'' @ indent 12 @ lit ''</li>'')"
proof -
  have "caps_html (JArr [JStr cap]) = Inr (lit ''<span class=\"agent-caps\">['' @ cap @ lit '']</span>'')"
    by (simp add: caps_html_def length_of_def read_prop_def prop_or_undef_def js_gt_def prim_gt_def num_of_nat_def
        norm_num_def strip_zeros.simps signed_def join_items_def)
  then show ?thesis
    by (simp add: agent_html_def prop_or_undef_def tags_esc tags_text indent_def js_eval)
qed

lemma capability_injects:
  "\<exists>h. agent_html (JObj [(lit ''name'', n), (lit ''capabilities'', JArr [JStr (lit ''<img src=x onerror=alert(1)>'')])]) = Inr h \<and>
    lit ''img src=x onerror=alert(1)'' \<in> set (tags None h)"
  using agent_markup[of n "lit ''<img src=x onerror=alert(1)>''"] by (auto simp: js_eval)

section \<open>The winner of a vote\<close>

lemma strip_zeros_value: "strip_zeros d e = (d', e') \<Longrightarrow> 0 \<le> e \<Longrightarrow> 0 \<le> e' \<and> d * 10 ^ nat e = d' * 10 ^ nat e'"
proof (induction d e arbitrary: d' e' rule: strip_zeros.induct)
  case (1 d e)
  show ?case
  proof (cases "d \<noteq> 0 \<and> d mod 10 = 0")
    case True
    then have "strip_zeros (d div 10) (e + 1) = (d', e')" using 1(2) by (subst (asm) strip_zeros.simps) simp
    with True 1 have "0 \<le> e'" "(d div 10) * 10 ^ nat (e + 1) = d' * 10 ^ nat e'" by auto
    moreover have "d * 10 ^ nat e = (d div 10) * 10 ^ nat (e + 1)"
    proof -
      have "d = (d div 10) * 10" using True by presburger
      moreover have "nat (e + 1) = Suc (nat e)" using 1(3) by simp
      ultimately show ?thesis by (metis mult.assoc power_Suc)
    qed
    ultimately show ?thesis by simp
  next
    case False
    then have "strip_zeros d e = (if d = 0 then (0, 0) else (d, e))"
      by (cases "d = 0") (simp_all add: strip_zeros.simps[of d] strip_zeros.simps[of 0])
    then show ?thesis using 1(2,3) by (auto split: if_splits)
  qed
qed

lemma num_gt_nat: "num_gt (num_of_nat m) (num_of_nat n) \<longleftrightarrow> n < m"
proof -
  obtain d e d' e' where s: "strip_zeros m 0 = (d, e)" "strip_zeros n 0 = (d', e')" by (metis surj_pair)
  have v: "0 \<le> e" "0 \<le> e'" "m = d * 10 ^ nat e" "n = d' * 10 ^ nat e'"
    using strip_zeros_value[OF s(1)] strip_zeros_value[OF s(2)] by simp_all
  let ?k = "min e e'"
  have split: "(10::int) ^ nat e = 10 ^ nat (e - ?k) * 10 ^ nat ?k" "(10::int) ^ nat e' = 10 ^ nat (e' - ?k) * 10 ^ nat ?k"
    using v(1,2) by (simp_all flip: power_add add: nat_add_distrib[symmetric])
  have "num_gt (num_of_nat m) (num_of_nat n) \<longleftrightarrow> int d' * 10 ^ nat (e' - ?k) < int d * 10 ^ nat (e - ?k)"
    using s by (simp add: num_of_nat_def norm_num_def signed_def Let_def)
  also have "\<dots> \<longleftrightarrow> (int d' * 10 ^ nat (e' - ?k)) * 10 ^ nat ?k < (int d * 10 ^ nat (e - ?k)) * 10 ^ nat ?k"
    by simp
  also have "\<dots> \<longleftrightarrow> int n < int m"
    unfolding v(3,4) using split by (simp add: mult.assoc)
  finally show ?thesis by simp
qed

text \<open>An option of a tally with its count, as the server sends it.\<close>

definition has_count :: "jsv \<Rightarrow> nat \<Rightarrow> bool" where
  "has_count t n \<longleftrightarrow> read_prop t (lit ''count'') = Inr (JNum (num_of_nat n))"

text \<open>The first elements lose to the winner or tie with it, the later ones have fewer votes.\<close>

definition last_greatest :: "(jsv \<Rightarrow> nat) \<Rightarrow> jsv \<Rightarrow> jsv list \<Rightarrow> bool" where
  "last_greatest f w ts \<longleftrightarrow>
     (\<exists>before after. ts = before @ w # after \<and> (\<forall>t \<in> set before. f t \<le> f w) \<and> (\<forall>t \<in> set after. f t < f w))"

lemma leader_from_last:
  assumes "list_all (\<lambda>t. has_count t (f t)) (before @ a # later @ ts)"
    and "\<forall>t \<in> set before. f t \<le> f a" and "\<forall>t \<in> set later. f t < f a"
  shows "\<exists>w. leader_from a ts = Inr w \<and> last_greatest f w (before @ a # later @ ts)"
  using assms
proof (induction ts arbitrary: before a later)
  case Nil
  then show ?case by (auto simp: last_greatest_def)
next
  case (Cons b bs)
  have c: "has_count a (f a)" "has_count b (f b)" using Cons.prems(1) by simp_all
  then have step: "leader_from a (b # bs) = leader_from (if f b < f a then a else b) bs"
    by (simp add: has_count_def js_gt_def prim_gt_def num_gt_nat)
  show ?case
  proof (cases "f b < f a")
    case True
    then show ?thesis using Cons.IH[of before a "later @ [b]"] Cons.prems step by auto
  next
    case False
    then have "\<forall>t \<in> set (before @ a # later). f t \<le> f b" using Cons.prems(2,3) by fastforce
    then show ?thesis using Cons.IH[of "before @ a # later" b "[]"] Cons.prems(1) False step by auto
  qed
qed

text \<open>C33: The winner of a tally is an option of greatest count, the last one of them on a tie; an empty tally is a TypeError.\<close>

theorem tally_winner_greatest:
  assumes "list_all (\<lambda>t. has_count t (f t)) ts"
  shows "if ts = [] then tally_winner (JArr ts) = Inl TypeError
    else \<exists>w. tally_winner (JArr ts) = Inr w \<and> last_greatest f w ts"
  using leader_from_last[of f "[]" "hd ts" "[]" "tl ts"] assms
  by (cases ts) (auto simp: tally_winner_def array_items_def)

definition option_of :: "string \<Rightarrow> nat \<Rightarrow> jsv" where
  "option_of s n = JObj [(lit ''option_text'', JStr (lit s)), (lit ''count'', JNum (num_of_nat n))]"

theorem tally_winner_greatest_witness:
  "\<exists>w. tally_winner (JArr [option_of ''a'' 2, option_of ''b'' 2]) = Inr w \<and>
    last_greatest (\<lambda>_. 2) w [option_of ''a'' 2, option_of ''b'' 2]"
  using tally_winner_greatest[of "\<lambda>_. 2" "[option_of ''a'' 2, option_of ''b'' 2]"]
  by (simp add: has_count_def option_of_def read_prop_def prop_or_undef_def lit_def)

end
