(* ===== verification/Landing.thy ===== *)
theory Landing
  imports Js_Json Js_Compare Event_Machine
begin

text \<open>
  The landing page script (\<open>web/script.js\<close>): the typing animation with its runs, the code tabs,
  the terminal line, the copy buttons and the revealed sections. An \<open>async\<close> function that waits
  in \<open>sleep\<close> is a \<open>task\<close>: what it does when its timer fires. Timers fire in any order (their
  delays are random or differ), so what is proved holds for every schedule.
\<close>

section \<open>Frames and responses\<close>

definition ndjson_frames :: "jsstr list" where
  \<open>ndjson_frames = map lit
    [''{"id":"req-1","type":"register","payload":{"key":"***","name":"backend-dev","capabilities":["coordination","content"],"protocol_version":2}}'',
     ''{"id":"req-2","type":"join_room","payload":{"room_id":"build-frontend"}}'',
     ''{"id":"req-3","type":"send_message","payload":{"room_id":"build-frontend","content":"backend content blocks complete"}}'',
     ''{"id":"req-4","type":"create_vote","payload":{"room_id":"build-frontend","title":"Hero headline","options":["Your Agents, Connected.","AI Agents That Talk to Each Other","Coordination for the Agentic Era"]}}'',
     ''{"id":"req-5","type":"cast_vote","payload":{"vote_id":"f6f6194f-46a7-4782-a1fd-7a2da7c9092b","option_index":2}}'',
     ''{"type":"vote_result","payload":{"room_id":"build-frontend","title":"Hero headline","tally":[{"option_text":"Coordination for the Agentic Era","count":2}]}}'']\<close>

definition python_frames :: "jsstr list" where
  \<open>python_frames = map lit
    [''from cowchat import Agent, read_api_key'',
     ''key = read_api_key()'',
     ''agent = Agent(key, "python-dev")'',
     ''agent.join_room("build-frontend")'',
     ''agent.send_message("build-frontend", "Python client connected")'',
     ''for event in agent.listen():'',
     ''    print(event["type"], event["payload"])'']\<close>

definition python_tab :: jsstr where "python_tab = lit ''python''"

definition current_frames :: "jsstr \<Rightarrow> jsstr list" where
  "current_frames tab = (if tab = python_tab then python_frames else ndjson_frames)"

definition current_filename :: "jsstr \<Rightarrow> jsstr" where
  "current_filename tab = (if tab = python_tab then lit ''examples/python/simple_chat.py'' else lit ''protocol.ndjson'')"

text \<open>
  \<open>toLowerCase\<close>, as far as a test for an ASCII prefix can see it: of the units outside ASCII only
  U+0130 and U+212A have a lower case with an ASCII letter.
\<close>

definition lower_unit :: "code_unit \<Rightarrow> jsstr" where
  "lower_unit c = (if 65 \<le> c \<and> c \<le> 90 then [c + 32] else if c = 0x130 then [105, 0x307] else if c = 0x212A then [107] else [c])"

definition to_lower :: "jsstr \<Rightarrow> jsstr" where
  "to_lower s = concat (map lower_unit s)"

text \<open>\<open>s.split(/\s+/)\<close>\<close>

function split_spaces :: "jsstr \<Rightarrow> jsstr list" where
  "split_spaces s =
     (let w = takeWhile (\<lambda>c. \<not> is_space c) s; r = dropWhile (\<lambda>c. \<not> is_space c) s in
      if r = [] then [w] else w # split_spaces (dropWhile is_space r))"
  by pat_completeness auto
termination
proof (relation "measure length")
  fix s w r :: jsstr
  assume r: "r = dropWhile (\<lambda>c. \<not> is_space c) s" "r \<noteq> []"
  then have "is_space (hd r)" using hd_dropWhile by blast
  then have "length (dropWhile is_space r) < length r" using r(2)
    by (cases r) (auto intro: le_imp_less_Suc length_dropWhile_le)
  also have "\<dots> \<le> length s" using r(1) by (simp add: length_dropWhile_le)
  finally show "(dropWhile is_space r, s) \<in> measure length" by simp
qed simp

declare split_spaces.simps [simp del]

definition room_argument :: "jsstr \<Rightarrow> jsstr" where
  "room_argument command =
     (let name = join_with [32] (drop 1 (split_spaces command)) in if name = [] then lit ''lobby'' else name)"

definition empty_response :: jsstr where
  \<open>empty_response = lit ''{"type":"error","payload":{"code":"invalid_payload","message":"empty command"}}''\<close>

definition join_response :: "jsstr \<Rightarrow> jsstr" where
  \<open>join_response room = lit ''{"type":"ok","payload":{"joined":"'' @ room @ lit ''"}}''\<close>

definition send_response :: jsstr where
  \<open>send_response = lit ''{"type":"message_received","payload":{"room_id":"build-frontend","agent_name":"backend-dev"}}''\<close>

definition vote_response :: jsstr where
  \<open>vote_response = lit ''{"type":"ok","payload":{"votes_cast":3,"eligible_voters":3}}''\<close>

definition unknown_response :: jsstr where
  \<open>unknown_response = lit ''{"type":"error","payload":{"code":"unknown_command","message":"try /join, /send, /vote"}}''\<close>

definition shell_response :: "jsstr \<Rightarrow> jsstr" where
  "shell_response command =
     (let normalized = to_lower (js_trim command) in
      if normalized = [] then empty_response
      else if starts_with normalized (lit ''/join'') then join_response (room_argument command)
      else if starts_with normalized (lit ''/send'') then send_response
      else if starts_with normalized (lit ''/vote'') then vote_response
      else unknown_response)"

definition interactive_frames :: "jsstr \<Rightarrow> jsstr \<Rightarrow> jsstr list" where
  "interactive_frames tab command =
     (if tab = python_tab
      then take 4 python_frames @ [lit ''# $ '' @ command,
        lit ''print(\"Use NDJSON tab for shell-style command simulation\")'']
      else take 3 ndjson_frames @ [lit ''$ '' @ command, shell_response command])"

section \<open>State\<close>

text \<open>A waiting \<open>typeFrames\<close>; \<open>awaited\<close>: the \<open>keydown\<close> handler waits for it.\<close>

record run =
  run_number :: nat
  run_loop :: bool
  awaited :: bool

datatype task =
    Next_Char run "jsstr list" "jsstr list"   \<comment> \<open>characters left of the frame, frames left\<close>
  | Next_Frame run "jsstr list"
  | Restart                                   \<comment> \<open>after \<open>sleep(1400)\<close>, or \<open>sleep(1000)\<close> of the handler\<close>

record tab =
  code_tab :: "jsstr option"
  tab_id :: jsstr
  is_active :: bool
  aria_selected :: jsstr

record copy_button =
  copy_target :: "jsstr option"
  copy_label :: jsstr

record reveal =
  visible :: bool
  observed :: bool

record landing =
  reduced_motion :: bool
  has_observer :: bool
  active_tab :: jsstr
  run_id :: nat
  typing_output :: "jsstr option"             \<comment> \<open>\<open>None\<close>: the page has no such element\<close>
  tasks :: "task list"
  tabs :: "tab list"
  panel_label :: "jsstr option option"        \<comment> \<open>of \<open>code-panel\<close>, if there is one\<close>
  file_label :: "jsstr option"
  terminal :: "(jsstr \<times> jsstr) option"        \<comment> \<open>placeholder and value\<close>
  page_texts :: "(jsstr \<times> jsstr) list"        \<comment> \<open>\<open>textContent\<close> by element id\<close>
  buttons :: "copy_button list"
  copying :: "(nat \<times> jsstr) list"             \<comment> \<open>waiting in \<open>copyText\<close>: button and \<open>originalText\<close>\<close>
  restoring :: "(nat \<times> jsstr) list"           \<comment> \<open>armed timers that put \<open>originalText\<close> back\<close>
  reveals :: "reveal list"

section \<open>Typing\<close>

definition cancelled :: "run \<Rightarrow> landing \<Rightarrow> bool" where   \<comment> \<open>\<open>thisRun !== runId\<close>\<close>
  "cancelled r s \<longleftrightarrow> run_number r \<noteq> run_id s"

definition finish_run :: "run \<Rightarrow> landing \<Rightarrow> landing" where   \<comment> \<open>\<open>typeFrames\<close> returns\<close>
  "finish_run r s = (if awaited r then s\<lparr>tasks := tasks s @ [Restart]\<rparr> else s)"

definition type_text :: "jsstr \<Rightarrow> task \<Rightarrow> landing \<Rightarrow> landing" where
  "type_text t next s = s\<lparr>typing_output := map_option (\<lambda>out. out @ t) (typing_output s), tasks := tasks s @ [next]\<rparr>"

definition type_chars :: "run \<Rightarrow> jsstr list \<Rightarrow> jsstr list \<Rightarrow> landing \<Rightarrow> landing" where
  "type_chars r chars frames s =
     (if cancelled r s then finish_run r s
      else case chars of
        ch # rest \<Rightarrow> type_text ch (Next_Char r rest frames) s
      | [] \<Rightarrow> type_text [10] (Next_Frame r frames) s)"

definition type_next :: "run \<Rightarrow> jsstr list \<Rightarrow> landing \<Rightarrow> landing" where   \<comment> \<open>the head of the loop over the frames\<close>
  "type_next r frames s =
     (case frames of
        frame # rest \<Rightarrow> type_chars r (code_points frame) rest s
      | [] \<Rightarrow> if run_loop r \<and> \<not> cancelled r s then s\<lparr>tasks := tasks s @ [Restart]\<rparr> else finish_run r s)"

definition type_frames :: "jsstr list \<Rightarrow> bool \<Rightarrow> bool \<Rightarrow> landing \<Rightarrow> landing" where
  "type_frames frames loop wait s =
     (let s' = s\<lparr>run_id := run_id s + 1\<rparr>; r = \<lparr>run_number = run_id s + 1, run_loop = loop, awaited = wait\<rparr> in
      if typing_output s = None then finish_run r s'
      else if reduced_motion s then finish_run r (s'\<lparr>typing_output := Some (join_with [10] frames)\<rparr>)
      else type_next r frames (s'\<lparr>typing_output := Some []\<rparr>))"

definition type_current :: "landing \<Rightarrow> landing" where   \<comment> \<open>\<open>typeFrames(currentFrames(), { loop: true })\<close>\<close>
  "type_current s = type_frames (current_frames (active_tab s)) True False s"

definition run_task :: "task \<Rightarrow> landing \<Rightarrow> landing" where
  "run_task t s =
     (case t of
        Next_Char r chars frames \<Rightarrow> type_chars r chars frames s
      | Next_Frame r frames \<Rightarrow> type_next r frames s
      | Restart \<Rightarrow> type_current s)"

section \<open>Tabs and terminal\<close>

definition true_false :: "bool \<Rightarrow> jsstr" where
  "true_false b = (if b then lit ''true'' else lit ''false'')"

definition mark_tab :: "jsstr \<Rightarrow> tab \<Rightarrow> tab" where
  "mark_tab active t = t\<lparr>is_active := code_tab t = Some active, aria_selected := true_false (code_tab t = Some active)\<rparr>"

definition label_panel :: "jsstr \<Rightarrow> tab \<Rightarrow> jsstr option \<Rightarrow> jsstr option" where
  "label_panel active t label = (if code_tab t = Some active then Some (tab_id t) else label)"

definition placeholder_for :: "jsstr \<Rightarrow> jsstr" where
  "placeholder_for active = (if active = python_tab then lit ''switch to NDJSON tab for /join, /send, /vote''
     else lit ''type /join build-frontend and press Enter'')"

definition update_tab_ui :: "landing \<Rightarrow> landing" where
  "update_tab_ui s =
     s\<lparr>tabs := map (mark_tab (active_tab s)) (tabs s),
       panel_label := map_option (fold (label_panel (active_tab s)) (tabs s)) (panel_label s),
       file_label := map_option (\<lambda>_. current_filename (active_tab s)) (file_label s),
       terminal := map_option (\<lambda>(_, v). (placeholder_for (active_tab s), v)) (terminal s)\<rparr>"

definition click_tab :: "nat \<Rightarrow> landing \<Rightarrow> landing" where
  "click_tab i s =
     (case code_tab (tabs s ! i) of
        None \<Rightarrow> s
      | Some next \<Rightarrow>
          if next = [] \<or> next = active_tab s then s
          else type_current (update_tab_ui (s\<lparr>active_tab := next\<rparr>)))"

definition click_replay :: "landing \<Rightarrow> landing" where
  "click_replay s = type_current s"

definition key_down :: "jsstr \<Rightarrow> landing \<Rightarrow> landing" where
  "key_down key s =
     (case terminal s of
        None \<Rightarrow> s
      | Some (placeholder, v) \<Rightarrow>
          if key \<noteq> lit ''Enter'' then s
          else let command = js_trim v in
            if command = [] then s
            else type_frames (interactive_frames (active_tab s) command) False True
              (s\<lparr>terminal := Some (placeholder, [])\<rparr>))"

section \<open>Copying and revealing\<close>

definition copy_text_of :: "copy_button \<Rightarrow> landing \<Rightarrow> jsstr" where   \<comment> \<open>\<open>commandNode?.textContent?.trim()\<close>, empty if there is none\<close>
  "copy_text_of b s =
     (case copy_target b of
        None \<Rightarrow> []
      | Some key \<Rightarrow> if key = [] then [] else case map_of (page_texts s) key of None \<Rightarrow> [] | Some t \<Rightarrow> js_trim t)"

definition click_copy :: "nat \<Rightarrow> landing \<Rightarrow> landing" where
  "click_copy i s =
     (if copy_text_of (buttons s ! i) s = [] then s
      else s\<lparr>copying := copying s @ [(i, copy_label (buttons s ! i))]\<rparr>)"

definition set_label :: "nat \<Rightarrow> jsstr \<Rightarrow> landing \<Rightarrow> landing" where
  "set_label i t s = s\<lparr>buttons := (buttons s)[i := (buttons s ! i)\<lparr>copy_label := t\<rparr>]\<rparr>"

definition drop_at :: "nat \<Rightarrow> 'a list \<Rightarrow> 'a list" where
  "drop_at j xs = take j xs @ drop (Suc j) xs"

definition copy_settled :: "nat \<Rightarrow> bool \<Rightarrow> landing \<Rightarrow> landing" where   \<comment> \<open>after \<open>await copyText(text)\<close>\<close>
  "copy_settled j success s =
     (let (i, original) = copying s ! j in
      set_label i (if success then lit ''Copied'' else lit ''Failed'')
        (s\<lparr>copying := drop_at j (copying s), restoring := restoring s @ [(i, original)]\<rparr>))"

definition restore_label :: "nat \<Rightarrow> landing \<Rightarrow> landing" where
  "restore_label j s =
     (let (i, original) = restoring s ! j in set_label i original (s\<lparr>restoring := drop_at j (restoring s)\<rparr>))"

definition activate_reveals :: "landing \<Rightarrow> landing" where
  "activate_reveals s =
     s\<lparr>reveals := map (\<lambda>n. if reduced_motion s \<or> \<not> has_observer s then n\<lparr>visible := True\<rparr> else n\<lparr>observed := True\<rparr>) (reveals s)\<rparr>"

definition reveal_entry :: "nat \<times> bool \<Rightarrow> reveal list \<Rightarrow> reveal list" where
  "reveal_entry entry ns =
     (if snd entry then ns[fst entry := (ns ! fst entry)\<lparr>visible := True, observed := False\<rparr>] else ns)"

definition intersections :: "(nat \<times> bool) list \<Rightarrow> landing \<Rightarrow> landing" where
  "intersections entries s = s\<lparr>reveals := fold reveal_entry entries (reveals s)\<rparr>"

section \<open>The machine\<close>

datatype landing_event =
    Timer nat
  | Click_Tab nat
  | Click_Replay
  | Type_In jsstr                             \<comment> \<open>the visitor edits the terminal line\<close>
  | Key_Down jsstr
  | Click_Copy nat
  | Copy_Settled nat bool
  | Restore nat
  | Intersect "(nat \<times> bool) list"

definition landing_enabled :: "landing_event \<Rightarrow> landing \<Rightarrow> bool" where
  "landing_enabled e s =
     (case e of
        Timer j \<Rightarrow> j < length (tasks s)
      | Click_Tab i \<Rightarrow> i < length (tabs s)
      | Click_Replay \<Rightarrow> True
      | Type_In t \<Rightarrow> terminal s \<noteq> None
      | Key_Down key \<Rightarrow> terminal s \<noteq> None
      | Click_Copy i \<Rightarrow> i < length (buttons s)
      | Copy_Settled j ok \<Rightarrow> j < length (copying s)
      | Restore j \<Rightarrow> j < length (restoring s)
      | Intersect entries \<Rightarrow> \<not> reduced_motion s \<and> has_observer s \<and>
          list_all (\<lambda>(i, _). i < length (reveals s) \<and> observed (reveals s ! i)) entries)"

definition landing_act :: "landing_event \<Rightarrow> landing \<Rightarrow> landing" where
  "landing_act e s =
     (case e of
        Timer j \<Rightarrow> run_task (tasks s ! j) (s\<lparr>tasks := drop_at j (tasks s)\<rparr>)
      | Click_Tab i \<Rightarrow> click_tab i s
      | Click_Replay \<Rightarrow> click_replay s
      | Type_In t \<Rightarrow> s\<lparr>terminal := map_option (\<lambda>(p, _). (p, t)) (terminal s)\<rparr>
      | Key_Down key \<Rightarrow> key_down key s
      | Click_Copy i \<Rightarrow> click_copy i s
      | Copy_Settled j ok \<Rightarrow> copy_settled j ok s
      | Restore j \<Rightarrow> restore_label j s
      | Intersect entries \<Rightarrow> intersections entries s)"

text \<open>The script's own state on a page as it is parsed, and the page after the script has run.\<close>

definition script_state :: "landing \<Rightarrow> landing" where
  "script_state p =
     p\<lparr>active_tab := lit ''ndjson'', run_id := 0, tasks := [], copying := [], restoring := [],
       reveals := map (\<lambda>n. \<lparr>visible = False, observed = False\<rparr>) (reveals p)\<rparr>"

definition load_page :: "landing \<Rightarrow> landing" where
  "load_page p = type_current (update_tab_ui (activate_reveals (script_state p)))"

end
