(* ===== verification/Landing_Properties.thy ===== *)
theory Landing_Properties
  imports Landing "HOL-Library.Sublist"
begin

text \<open>
  The landing page: at most one run types at a time and what it shows is a prefix of its frames,
  the tabs and labels follow the active tab, sections are revealed once, and the copy buttons.
\<close>

section \<open>Typing\<close>

fun task_run :: "task \<Rightarrow> run option" where
  "task_run (Next_Char r _ _) = Some r"
| "task_run (Next_Frame r _) = Some r"
| "task_run Restart = None"

definition live_in :: "nat \<Rightarrow> task \<Rightarrow> bool" where
  "live_in n t \<longleftrightarrow> (case task_run t of Some r \<Rightarrow> run_number r = n | None \<Rightarrow> False)"

definition lives :: "landing \<Rightarrow> task list" where
  "lives s = filter (live_in (run_id s)) (tasks s)"

definition frames_text :: "jsstr list \<Rightarrow> jsstr" where
  "frames_text fs = concat (map (\<lambda>f. f @ [10]) fs)"

text \<open>What a task still types.\<close>

fun task_text :: "task \<Rightarrow> jsstr" where
  "task_text (Next_Char r cs fs) = concat cs @ [10] @ frames_text fs"
| "task_text (Next_Frame r fs) = frames_text fs"
| "task_text Restart = []"

definition planned :: "landing \<Rightarrow> jsstr option" where
  "planned s = map_option (\<lambda>out. out @ concat (map task_text (lives s))) (typing_output s)"

definition started :: "nat \<Rightarrow> task \<Rightarrow> bool" where
  "started n t \<longleftrightarrow> (case task_run t of Some r \<Rightarrow> run_number r \<le> n | None \<Rightarrow> True)"

definition typing_inv :: "landing \<Rightarrow> bool" where
  "typing_inv s \<longleftrightarrow> length (lives s) \<le> 1 \<and> list_all (started (run_id s)) (tasks s)"

lemma live_started: "live_in n t \<Longrightarrow> started n t" "started n t \<Longrightarrow> started (Suc n) t"
  "started n t \<Longrightarrow> \<not> live_in (Suc n) t"
  by (auto simp: live_in_def started_def split: option.splits)

definition type_same :: "landing \<Rightarrow> landing \<Rightarrow> bool" where   \<comment> \<open>what typing depends on is the same\<close>
  "type_same s s' \<longleftrightarrow> run_id s' = run_id s \<and> tasks s' = tasks s \<and> typing_output s' = typing_output s \<and>
     reduced_motion s' = reduced_motion s"

lemma type_sameD:
  "type_same s s' \<Longrightarrow> lives s' = lives s" "type_same s s' \<Longrightarrow> planned s' = planned s"
  "type_same s s' \<Longrightarrow> typing_inv s' = typing_inv s"
  by (simp_all add: type_same_def lives_def planned_def typing_inv_def)

lemma live_Restart [simp]: "\<not> live_in n Restart" "started n Restart"
  by (simp_all add: live_in_def started_def)

lemma lives_finish [simp]: "lives (finish_run r s) = lives s" "typing_output (finish_run r s) = typing_output s"
  "run_id (finish_run r s) = run_id s" "typing_inv (finish_run r s) = typing_inv s"
  by (simp_all add: finish_run_def lives_def typing_inv_def)

lemma planned_finish [simp]: "planned (finish_run r s) = planned s"
  by (simp add: planned_def)

text \<open>A live step: no other task is live, and the text of its task moves to the output.\<close>

lemma type_text_step:
  assumes "lives s = []" and "typing_inv s" and "live_in (run_id s) n"
  shows "typing_inv (type_text t n s) \<and> run_id (type_text t n s) = run_id s \<and> lives (type_text t n s) = [n] \<and>
    planned (type_text t n s) = map_option (\<lambda>out. out @ t @ task_text n) (typing_output s)"
  using assms live_started(1)[OF assms(3)]
  by (simp add: type_text_def lives_def typing_inv_def planned_def option.map_comp comp_def)

lemma type_chars_live:
  assumes "lives s = []" and "typing_inv s" and "run_number r = run_id s"
  shows "typing_inv (type_chars r cs fs s) \<and> run_id (type_chars r cs fs s) = run_id s \<and>
    planned (type_chars r cs fs s) = map_option (\<lambda>out. out @ concat cs @ [10] @ frames_text fs) (typing_output s)"
  using type_text_step[OF assms(1,2), of "Next_Frame r fs" "[10]"]
    type_text_step[OF assms(1,2), of "Next_Char r (tl cs) fs" "hd cs"] assms(3)
  by (cases cs) (simp_all add: type_chars_def cancelled_def live_in_def)

lemma type_next_live:
  assumes "lives s = []" and "typing_inv s" and "run_number r = run_id s"
  shows "typing_inv (type_next r fs s) \<and> run_id (type_next r fs s) = run_id s \<and>
    planned (type_next r fs s) = map_option (\<lambda>out. out @ frames_text fs) (typing_output s)"
proof (cases fs)
  case Nil
  have "typing_inv (s\<lparr>tasks := tasks s @ [Restart]\<rparr>)" "lives (s\<lparr>tasks := tasks s @ [Restart]\<rparr>) = []"
    using assms(1,2) by (simp_all add: typing_inv_def lives_def)
  then show ?thesis using Nil assms by (simp add: type_next_def frames_text_def planned_def)
next
  case (Cons f rest)
  then show ?thesis using type_chars_live[OF assms, of "code_points f" rest]
    by (simp add: type_next_def frames_text_def code_points_concat)
qed

lemma stale_step:
  assumes "run_number r \<noteq> run_id s"
  shows "type_chars r cs fs s = finish_run r s"
    and "typing_inv (type_next r fs s) = typing_inv s" "run_id (type_next r fs s) = run_id s" "planned (type_next r fs s) = planned s"
  using assms by (simp_all add: type_chars_def cancelled_def type_next_def split: list.split)

lemma type_frames_new:
  assumes "typing_inv s"
  shows "typing_inv (type_frames fs loop wait s) \<and> run_id (type_frames fs loop wait s) = Suc (run_id s) \<and>
    (typing_output s \<noteq> None \<longrightarrow> \<not> reduced_motion s \<longrightarrow> planned (type_frames fs loop wait s) = Some (frames_text fs))"
proof -
  let ?s = "\<lambda>out. s\<lparr>run_id := Suc (run_id s), typing_output := out\<rparr>"
  have no: "lives (?s out) = []" "typing_inv (?s out)" for out
  proof -
    have "filter (live_in (Suc (run_id s))) (tasks s) = []"
      using assms live_started(3) by (auto simp: typing_inv_def filter_empty_conv list_all_iff)
    then show "lives (?s out) = []" "typing_inv (?s out)"
      using assms live_started(2) by (auto simp: lives_def typing_inv_def list_all_iff)
  qed
  moreover have "typing_inv (s\<lparr>run_id := Suc (run_id s)\<rparr>)"
    using no(2) by (simp add: typing_inv_def lives_def)
  ultimately show ?thesis
    using type_next_live[OF no, where r = "\<lparr>run_number = Suc (run_id s), run_loop = loop, awaited = wait\<rparr>" and fs = fs]
    by (simp add: type_frames_def Let_def)
qed

lemma take_task:
  assumes "typing_inv s" and "j < length (tasks s)"
  shows "typing_inv (s\<lparr>tasks := drop_at j (tasks s)\<rparr>)"
    and "lives (s\<lparr>tasks := drop_at j (tasks s)\<rparr>) = (if live_in (run_id s) (tasks s ! j) then [] else lives s)"
    and "live_in (run_id s) (tasks s ! j) \<Longrightarrow> lives s = [tasks s ! j]"
proof -
  let ?p = "live_in (run_id s)"
  have split: "tasks s = take j (tasks s) @ tasks s ! j # drop (Suc j) (tasks s)"
    using assms(2) by (simp add: id_take_nth_drop)
  have lives: "lives s = filter ?p (take j (tasks s)) @ filter ?p [tasks s ! j] @ filter ?p (drop (Suc j) (tasks s))"
    unfolding lives_def by (subst split) simp
  have le: "length (lives s) \<le> 1" using assms(1) by (simp add: typing_inv_def)
  show "?p (tasks s ! j) \<Longrightarrow> lives s = [tasks s ! j]" using lives le by simp
  show l: "lives (s\<lparr>tasks := drop_at j (tasks s)\<rparr>) = (if ?p (tasks s ! j) then [] else lives s)"
    using lives le by (auto simp: lives_def drop_at_def)
  have "set (drop_at j (tasks s)) \<subseteq> set (tasks s)" by (auto simp: drop_at_def dest: in_set_takeD in_set_dropD)
  then show "typing_inv (s\<lparr>tasks := drop_at j (tasks s)\<rparr>)"
    using assms(1) le l by (auto simp: typing_inv_def list_all_iff)
qed

lemma type_current_new:
  assumes "typing_inv s"
  shows "typing_inv (type_current s)" "run_id (type_current s) = Suc (run_id s)"
  using type_frames_new[OF assms] by (simp_all add: type_current_def)

lemma timer_step:
  assumes "typing_inv s" and "j < length (tasks s)"
  shows "typing_inv (landing_act (Timer j) s) \<and>
    (run_id (landing_act (Timer j) s) = run_id s \<and> planned (landing_act (Timer j) s) = planned s \<or>
     run_id (landing_act (Timer j) s) = Suc (run_id s))"
proof -
  let ?t = "tasks s ! j" and ?s = "s\<lparr>tasks := drop_at j (tasks s)\<rparr>"
  note take = take_task[OF assms]
  show ?thesis
  proof (cases "live_in (run_id s) ?t")
    case True
    then have p: "planned s = map_option (\<lambda>out. out @ task_text ?t) (typing_output s)" "lives ?s = []"
      using take(2,3) by (simp_all add: planned_def)
    show ?thesis
      using type_chars_live[OF p(2) take(1)] type_next_live[OF p(2) take(1)] True p(1)
      by (cases ?t) (simp_all add: landing_act_def run_task_def live_in_def)
  next
    case False
    then have "planned ?s = planned s" using take(2) by (simp add: planned_def)
    then show ?thesis
      using stale_step[of _ ?s] type_current_new[OF take(1)] take(1) False
      by (cases ?t) (simp_all add: landing_act_def run_task_def live_in_def)
  qed
qed

lemma type_same_updates [simp]:
  "type_same s (update_tab_ui s)" "type_same s (s\<lparr>active_tab := t\<rparr>)" "type_same s (s\<lparr>terminal := v\<rparr>)"
  "type_same s (click_copy i s)" "type_same s (copy_settled j b s)" "type_same s (restore_label j s)"
  "type_same s (intersections es s)" "type_same s (activate_reveals s)" "type_same s s"
  by (auto simp: type_same_def update_tab_ui_def click_copy_def copy_settled_def restore_label_def set_label_def
      intersections_def activate_reveals_def split: prod.split)

lemma typing_event:
  assumes "typing_inv s" and "landing_enabled e s"
  shows "typing_inv (landing_act e s) \<and>
    (run_id (landing_act e s) = run_id s \<and> planned (landing_act e s) = planned s \<or>
     run_id (landing_act e s) = Suc (run_id s))"
proof -
  have same: "typing_inv s' \<and> (run_id s' = run_id s \<and> planned s' = planned s \<or> run_id s' = Suc (run_id s))"
    if "type_same s s'" for s'
    using that type_sameD[OF that] assms(1) by (simp add: type_same_def)
  have new: "typing_inv (type_frames fs b w s') \<and> run_id (type_frames fs b w s') = Suc (run_id s)"
    if "type_same s s'" for fs b w s'
    using that type_frames_new[of s'] type_sameD(3)[OF that] assms(1) by (simp add: type_same_def)
  show ?thesis
  proof (cases e)
    case (Timer j)
    then show ?thesis using timer_step[OF assms(1)] assms(2) by (simp add: landing_enabled_def)
  next
    case (Click_Tab i)
    have "type_same s (update_tab_ui (s\<lparr>active_tab := t\<rparr>))" for t
      by (simp add: type_same_def update_tab_ui_def)
    then show ?thesis using Click_Tab same[of s] new
      by (simp add: landing_act_def click_tab_def type_current_def split: option.split)
  next
    case (Key_Down key)
    then show ?thesis using same[of s] new
      by (simp add: landing_act_def key_down_def Let_def split: option.split)
  next
    case (Type_In t)
    then show ?thesis using same[of "landing_act e s"] by (simp add: landing_act_def)
  next
    case Click_Replay
    then show ?thesis using new[of s] by (simp add: landing_act_def click_replay_def type_current_def)
  qed (simp_all add: landing_act_def same)
qed

section \<open>The page\<close>

definition tabs_follow :: "landing \<Rightarrow> bool" where
  "tabs_follow s \<longleftrightarrow>
     list_all (\<lambda>t. is_active t = (code_tab t = Some (active_tab s)) \<and> aria_selected t = true_false (is_active t)) (tabs s) \<and>
     (\<forall>l. file_label s = Some l \<longrightarrow> l = current_filename (active_tab s)) \<and>
     (\<forall>p v. terminal s = Some (p, v) \<longrightarrow> p = placeholder_for (active_tab s))"

definition revealed_once :: "landing \<Rightarrow> bool" where
  "revealed_once s \<longleftrightarrow> list_all (\<lambda>n. observed n = (\<not> visible n)) (reveals s)"

definition landing_inv :: "landing \<Rightarrow> bool" where
  "landing_inv s \<longleftrightarrow> typing_inv s \<and> tabs_follow s \<and> revealed_once s"

lemma type_frames_page [simp]:
  "tabs (type_frames fs l w s) = tabs s" "active_tab (type_frames fs l w s) = active_tab s"
  "file_label (type_frames fs l w s) = file_label s" "terminal (type_frames fs l w s) = terminal s"
  "reveals (type_frames fs l w s) = reveals s" "buttons (type_frames fs l w s) = buttons s"
  "copying (type_frames fs l w s) = copying s" "restoring (type_frames fs l w s) = restoring s"
  by (simp_all add: type_frames_def type_next_def type_chars_def type_text_def finish_run_def Let_def split: list.split)

lemma run_task_page [simp]:
  "tabs (run_task t s) = tabs s" "active_tab (run_task t s) = active_tab s"
  "file_label (run_task t s) = file_label s" "terminal (run_task t s) = terminal s"
  "reveals (run_task t s) = reveals s" "buttons (run_task t s) = buttons s"
  "copying (run_task t s) = copying s" "restoring (run_task t s) = restoring s"
  by (simp_all add: run_task_def type_current_def type_next_def type_chars_def type_text_def finish_run_def
      split: list.split task.split)

lemma tabs_update: "tabs_follow (update_tab_ui s)"
  by (auto simp: tabs_follow_def update_tab_ui_def mark_tab_def list_all_iff)

lemma tabs_cong:
  "tabs s' = tabs s \<Longrightarrow> active_tab s' = active_tab s \<Longrightarrow> file_label s' = file_label s \<Longrightarrow> terminal s' = terminal s \<Longrightarrow>
    tabs_follow s' = tabs_follow s"
  by (simp add: tabs_follow_def)

lemma reveal_entries:
  "list_all (\<lambda>n. observed n = (\<not> visible n)) ns \<Longrightarrow> list_all (\<lambda>n. observed n = (\<not> visible n)) (fold reveal_entry es ns)"
proof (induction es arbitrary: ns)
  case (Cons e es)
  have "list_all (\<lambda>n. observed n = (\<not> visible n)) (reveal_entry e ns)"
    using Cons.prems by (auto simp: reveal_entry_def list_all_iff dest!: subsetD[OF set_update_subset_insert])
  then show ?case using Cons.IH by simp
qed simp

lemma page_event:
  assumes "tabs_follow s" and "revealed_once s"
  shows "tabs_follow (landing_act e s) \<and> revealed_once (landing_act e s)"
proof (cases e)
  case (Timer j)
  have "tabs_follow (landing_act e s) = tabs_follow s" unfolding Timer landing_act_def by (simp add: tabs_follow_def)
  then show ?thesis using assms Timer by (simp add: landing_act_def revealed_once_def)
next
  case (Click_Tab i)
  have "tabs_follow (type_current (update_tab_ui t)) = tabs_follow (update_tab_ui t)"
    "revealed_once (type_current (update_tab_ui t)) = revealed_once t" for t
    by (simp_all add: tabs_follow_def revealed_once_def type_current_def update_tab_ui_def)
  then show ?thesis using Click_Tab assms tabs_update
    by (simp add: landing_act_def click_tab_def revealed_once_def split: option.split)
next
  case Click_Replay
  then show ?thesis using assms
    by (simp add: landing_act_def click_replay_def type_current_def tabs_follow_def revealed_once_def)
next
  case (Type_In t)
  then show ?thesis using assms by (auto simp: landing_act_def tabs_follow_def revealed_once_def)
next
  case (Key_Down key)
  then show ?thesis using assms
    by (auto simp: landing_act_def key_down_def tabs_follow_def revealed_once_def Let_def split: option.split)
next
  case (Click_Copy i)
  then show ?thesis using assms by (simp add: landing_act_def click_copy_def tabs_follow_def revealed_once_def)
next
  case (Copy_Settled j b)
  then show ?thesis using assms
    by (simp add: landing_act_def copy_settled_def set_label_def tabs_follow_def revealed_once_def split: prod.split)
next
  case (Restore j)
  then show ?thesis using assms
    by (simp add: landing_act_def restore_label_def set_label_def tabs_follow_def revealed_once_def split: prod.split)
next
  case (Intersect es)
  then show ?thesis using assms reveal_entries
    by (simp add: landing_act_def intersections_def tabs_follow_def revealed_once_def)
qed

lemma landing_inv_event: "landing_inv s \<Longrightarrow> landing_enabled e s \<Longrightarrow> landing_inv (landing_act e s)"
  using typing_event page_event by (simp add: landing_inv_def)

lemma landing_inv_load: "landing_inv (load_page p)"
proof -
  let ?s = "update_tab_ui (activate_reveals (script_state p))"
  have t: "typing_inv ?s"
    by (simp add: script_state_def typing_inv_def lives_def update_tab_ui_def activate_reveals_def)
  have "revealed_once ?s"
    by (auto simp: script_state_def revealed_once_def update_tab_ui_def activate_reveals_def list_all_iff)
  then show ?thesis
    using type_current_new(1)[OF t] tabs_update[of "activate_reveals (script_state p)"]
    by (simp add: landing_inv_def load_page_def tabs_follow_def revealed_once_def type_current_def)
qed

interpretation landing: invariant_machine "load_page p" landing_enabled landing_act landing_inv
  for p
  by unfold_locales (rule landing_inv_load, rule landing_inv_event)

abbreviation landing_reachable :: "landing \<Rightarrow> landing \<Rightarrow> bool" where
  "landing_reachable p \<equiv> reachable (load_page p) landing_enabled landing_act"

section \<open>An example page\<close>

definition demo_page :: landing where
  "demo_page =
     \<lparr>reduced_motion = False, has_observer = True, active_tab = [], run_id = 0, typing_output = Some [], tasks = [],
      tabs = [\<lparr>code_tab = Some (lit ''ndjson''), tab_id = lit ''t'', is_active = False, aria_selected = []\<rparr>],
      panel_label = None, file_label = Some [], terminal = None, page_texts = [(lit ''cmd'', lit ''npm i'')],
      buttons = [\<lparr>copy_target = Some (lit ''cmd''), copy_label = lit ''Copy''\<rparr>], copying = [], restoring = [],
      reveals = []\<rparr>"

lemma type_frames_fields [simp]:
  "typing_output (type_frames fs l w s) = None \<longleftrightarrow> typing_output s = None"
  "reduced_motion (type_frames fs l w s) = reduced_motion s"
  by (simp_all add: type_frames_def type_next_def type_chars_def type_text_def finish_run_def Let_def split: list.split)

lemma demo_loaded:
  "typing_output (load_page demo_page) \<noteq> None" "\<not> reduced_motion (load_page demo_page)"
  "active_tab (load_page demo_page) = lit ''ndjson''" "buttons (load_page demo_page) = buttons demo_page"
  by (simp_all add: load_page_def type_current_def update_tab_ui_def activate_reveals_def script_state_def)
    (simp_all add: demo_page_def)

section \<open>What is shown\<close>

lemma run_typing:
  "typing_inv s \<Longrightarrow> run_events landing_enabled landing_act es s = Some s' \<Longrightarrow>
    typing_inv s' \<and> run_id s \<le> run_id s' \<and> (run_id s' = run_id s \<longrightarrow> planned s' = planned s)"
proof (induction es arbitrary: s)
  case (Cons e es)
  then have e: "landing_enabled e s" "run_events landing_enabled landing_act es (landing_act e s) = Some s'"
    by (auto split: if_splits)
  show ?case using typing_event[OF Cons.prems(1) e(1)] Cons.IH[OF _ e(2)] by auto
qed simp

text \<open>C34: At most one run types at a time; until a newer run starts, whatever else happens on the page and in whatever order timers fire, the output is a prefix of the lines of the run's frames, and all of them once no timer of the run is left.\<close>

theorem typing_shows_frames:
  assumes "landing_reachable p s" and "typing_output s \<noteq> None" and "\<not> reduced_motion s"
    and "run_events landing_enabled landing_act es (type_frames fs loop wait s) = Some s'"
    and "run_id s' = Suc (run_id s)"
  shows "length (lives s') \<le> 1 \<and> (\<exists>out. typing_output s' = Some out \<and> prefix out (frames_text fs) \<and>
    (lives s' = [] \<longrightarrow> out = frames_text fs))"
proof -
  have inv: "typing_inv s" using landing.reachable_inv[OF assms(1)] by (simp add: landing_inv_def)
  then have "planned s' = Some (frames_text fs)" "typing_inv s'"
    using type_frames_new[OF inv] run_typing[OF _ assms(4)] assms(2,3,5) by auto
  then show ?thesis by (auto simp: planned_def typing_inv_def intro: prefixI[OF sym])
qed

theorem typing_shows_frames_witness:
  "\<exists>out. typing_output (type_frames [lit ''hi''] False False (load_page demo_page)) = Some out \<and>
    prefix out (frames_text [lit ''hi''])"
proof -
  have "typing_inv (load_page demo_page)" using landing_inv_load by (simp add: landing_inv_def)
  from type_frames_new[OF this]
  have "run_id (type_frames [lit ''hi''] False False (load_page demo_page)) = Suc (run_id (load_page demo_page))" by simp
  then show ?thesis
    using typing_shows_frames[OF reachable_start demo_loaded(1,2), of "[]" "[lit ''hi'']" False False] by auto
qed

text \<open>The number of timers that a task still needs.\<close>

fun frames_size :: "jsstr list \<Rightarrow> nat" where
  "frames_size [] = 1"
| "frames_size (f # fs) = length (code_points f) + 2 + frames_size fs"

fun task_size :: "task \<Rightarrow> nat" where
  "task_size (Next_Char r cs fs) = Suc (length cs + frames_size fs)"
| "task_size (Next_Frame r fs) = frames_size fs"
| "task_size Restart = 0"

lemma type_chars_size:
  assumes "lives s = []" and "run_number r = run_id s"
  shows "\<exists>t. lives (type_chars r cs fs s) = [t] \<and> task_size t < Suc (Suc (length cs + frames_size fs))"
  using assms by (cases cs) (simp_all add: type_chars_def cancelled_def type_text_def lives_def live_in_def)

lemma fire_live:
  assumes "typing_inv s" and "lives s = [t]"
  shows "\<exists>j. landing_enabled (Timer j) s \<and> run_id (landing_act (Timer j) s) = run_id s \<and>
    (\<forall>t'. lives (landing_act (Timer j) s) = [t'] \<longrightarrow> task_size t' < task_size t)"
proof -
  have "t \<in> set (lives s)" using assms(2) by simp
  then obtain j where j: "j < length (tasks s)" "tasks s ! j = t" "live_in (run_id s) t"
    by (auto simp: lives_def in_set_conv_nth)
  let ?s = "s\<lparr>tasks := drop_at j (tasks s)\<rparr>"
  have no: "lives ?s = []" "typing_inv ?s" using take_task[OF assms(1) j(1)] j by simp_all
  have r: "\<And>r. task_run t = Some r \<Longrightarrow> run_number r = run_id ?s" using j(3) by (simp add: live_in_def)
  have "run_id (run_task t ?s) = run_id s \<and> (\<forall>t'. lives (run_task t ?s) = [t'] \<longrightarrow> task_size t' < task_size t)"
  proof (cases t)
    case (Next_Char q cs fs)
    have "run_id (type_chars q cs fs ?s) = run_id s" using type_chars_live[OF no, of q cs fs] r Next_Char by simp
    moreover have "task_size t' < task_size t" if "lives (type_chars q cs fs ?s) = [t']" for t'
      using that r Next_Char no(1)
      by (cases cs) (auto simp: type_chars_def cancelled_def type_text_def lives_def live_in_def)
    ultimately show ?thesis by (simp add: Next_Char run_task_def)
  next
    case (Next_Frame q fs)
    have "run_id (type_next q fs ?s) = run_id s" using type_next_live[OF no, of q fs] r Next_Frame by simp
    moreover have "task_size t' < task_size t" if l: "lives (type_next q fs ?s) = [t']" for t'
    proof (cases fs)
      case Nil
      then show ?thesis using l no(1) r Next_Frame by (auto simp: type_next_def lives_def finish_run_def split: if_splits)
    next
      case (Cons f rest)
      then show ?thesis
        using l type_chars_size[OF no(1), of q "code_points f" rest] r Next_Frame by (auto simp: type_next_def)
    qed
    ultimately show ?thesis by (simp add: Next_Frame run_task_def)
  qed (use j(3) in simp)
  then show ?thesis using j by (auto simp: landing_enabled_def landing_act_def)
qed

lemma fire_all:
  "typing_inv s \<Longrightarrow> \<exists>es s'. run_events landing_enabled landing_act es s = Some s' \<and> run_id s' = run_id s \<and> lives s' = []"
proof (induction "sum_list (map task_size (lives s))" arbitrary: s rule: less_induct)
  case less
  show ?case
  proof (cases "lives s")
    case Nil
    then have "run_events landing_enabled landing_act [] s = Some s \<and> run_id s = run_id s \<and> lives s = []" by simp
    then show ?thesis by blast
  next
    case (Cons t ts)
    then have t: "lives s = [t]" using less.prems by (simp add: typing_inv_def)
    from fire_live[OF less.prems t] obtain j where j: "landing_enabled (Timer j) s"
        "run_id (landing_act (Timer j) s) = run_id s"
        "\<forall>t'. lives (landing_act (Timer j) s) = [t'] \<longrightarrow> task_size t' < task_size t" by blast
    let ?s = "landing_act (Timer j) s"
    have inv: "typing_inv ?s" using typing_event[OF less.prems j(1)] by simp
    have "\<exists>es s'. run_events landing_enabled landing_act es ?s = Some s' \<and> run_id s' = run_id ?s \<and> lives s' = []"
    proof (cases "lives ?s")
      case Nil
      then have "run_events landing_enabled landing_act [] ?s = Some ?s \<and> run_id ?s = run_id ?s \<and> lives ?s = []" by simp
      then show ?thesis by blast
    next
      case (Cons t' ts')
      then have "lives ?s = [t']" using inv by (simp add: typing_inv_def)
      then show ?thesis using less.hyps[OF _ inv] j(3) t by simp
    qed
    then obtain es s' where "run_events landing_enabled landing_act es ?s = Some s'" "run_id s' = run_id ?s" "lives s' = []"
      by blast
    then have "run_events landing_enabled landing_act (Timer j # es) s = Some s' \<and> run_id s' = run_id s \<and> lives s' = []"
      using j by simp
    then show ?thesis by blast
  qed
qed



text \<open>A run of the terminal line that a newer run has cancelled still restarts the demonstration, which cancels the newer run.\<close>

lemma cancelled_command_restarts:
  assumes "typing_inv s" and "j < length (tasks s)" and "tasks s ! j = Next_Char r cs fs"
    and "awaited r" and "run_number r \<noteq> run_id s"
  shows "\<exists>s'. run_events landing_enabled landing_act [Timer j, Timer (length (tasks s) - 1)] s = Some s' \<and>
    run_id s' = Suc (run_id s)"
proof -
  let ?s = "s\<lparr>tasks := drop_at j (tasks s) @ [Restart]\<rparr>"
  have len: "length (drop_at j (tasks s)) = length (tasks s) - 1" using assms(2) by (simp add: drop_at_def)
  have "landing_act (Timer j) s = ?s" using assms
    by (simp add: landing_act_def run_task_def type_chars_def cancelled_def finish_run_def)
  moreover have "tasks ?s ! (length (tasks s) - 1) = Restart" using len by (simp add: nth_append)
  moreover have "typing_inv ?s" using take_task(1)[OF assms(1,2)] by (simp add: typing_inv_def lives_def)
  ultimately show ?thesis
    using assms(2) len take_task(1)[of ?s "length (tasks s) - 1"]
      type_current_new(2)[of "?s\<lparr>tasks := drop_at (length (tasks s) - 1) (tasks ?s)\<rparr>"]
    by (simp add: landing_enabled_def landing_act_def run_task_def)
qed

section \<open>Tabs and sections\<close>

text \<open>C36: After any events a tab is marked active exactly when it is the active one, the file label and the placeholder of the terminal are those of the active tab, and every section is either observed or visible, not both.\<close>

theorem page_follows_tab:
  assumes "landing_reachable p s"
  shows "list_all (\<lambda>t. is_active t = (code_tab t = Some (active_tab s))) (tabs s) \<and>
    file_label s \<in> {None, Some (current_filename (active_tab s))} \<and>
    map_option fst (terminal s) \<in> {None, Some (placeholder_for (active_tab s))} \<and>
    list_all (\<lambda>n. observed n = (\<not> visible n)) (reveals s)"
  using landing.reachable_inv[OF assms]
  by (cases "file_label s"; cases "terminal s")
    (auto simp: landing_inv_def tabs_follow_def revealed_once_def list_all_iff)

theorem page_follows_tab_witness:
  "list_all (\<lambda>t. is_active t = (code_tab t = Some (lit ''ndjson''))) (tabs (load_page demo_page))"
  using page_follows_tab[OF reachable_start, of demo_page] demo_loaded(3) by simp

section \<open>Copy buttons\<close>

text \<open>A click on a copy button whose text is not blank, the end of the copying and the timer give back the page as it was.\<close>

theorem copy_button_restores:
  assumes "i < length (buttons s)" and "copying s = []" and "restoring s = []"
    and "copy_text_of (buttons s ! i) s \<noteq> []"
  shows "\<exists>s'. run_events landing_enabled landing_act [Click_Copy i, Copy_Settled 0 success] s = Some s' \<and>
    copy_label (buttons s' ! i) = (if success then lit ''Copied'' else lit ''Failed'') \<and>
    landing_enabled (Restore 0) s' \<and> landing_act (Restore 0) s' = s"
  using assms
  by (simp add: landing_enabled_def landing_act_def click_copy_def copy_settled_def restore_label_def set_label_def
      drop_at_def)

theorem copy_button_restores_witness:
  "\<exists>s'. run_events landing_enabled landing_act [Click_Copy 0, Copy_Settled 0 True] demo_page = Some s' \<and>
    landing_act (Restore 0) s' = demo_page"
proof -
  have "copy_text_of (buttons demo_page ! 0) demo_page \<noteq> []"
    by (simp add: copy_text_of_def demo_page_def js_trim_empty_iff lit_def is_space_def)
  moreover have "0 < length (buttons demo_page)" "copying demo_page = []" "restoring demo_page = []"
    by (simp_all add: demo_page_def)
  ultimately show ?thesis using copy_button_restores[of 0 demo_page True] by (auto simp del: run_events.simps)
qed

text \<open>A second click before the timer takes the label \<open>Copied\<close> as the original one, for good.\<close>

lemma copy_button_stuck:
  assumes "i < length (buttons s)" and "copying s = []" and "restoring s = []"
    and "copy_text_of (buttons s ! i) s \<noteq> []"
  shows "\<exists>s'. run_events landing_enabled landing_act
      [Click_Copy i, Copy_Settled 0 True, Click_Copy i, Copy_Settled 0 True, Restore 0, Restore 0] s = Some s' \<and>
    copy_label (buttons s' ! i) = lit ''Copied'' \<and> restoring s' = [] \<and> copying s' = []"
  using assms
  by (auto simp: landing_enabled_def landing_act_def click_copy_def copy_settled_def restore_label_def set_label_def
      drop_at_def copy_text_of_def split: option.splits if_splits)

section \<open>The shell line\<close>

lemma json_escape_plain: "list_all (\<lambda>c. escape_unit c = [c]) s \<Longrightarrow> json_escape s = s"
  by (induction s rule: json_escape.induct) auto

lemma join_response_json:
  assumes "list_all (\<lambda>c. escape_unit c = [c]) room"
  shows "join_response room =
    json_text (JObj [(lit ''type'', JStr (lit ''ok'')), (lit ''payload'', JObj [(lit ''joined'', JStr room)])])"
  using assms by (simp add: join_response_def json_str_def json_escape_plain lit_def escape_unit_def is_high_def is_low_def)

text \<open>A command answers with one of five lines; the one of /join is the JSON text of the room when no unit of the room name needs an escape.\<close>

lemma shell_answers:
  "shell_response command \<in> {empty_response, join_response (room_argument command), send_response, vote_response, unknown_response} \<and>
   (list_all (\<lambda>c. escape_unit c = [c]) (room_argument command) \<longrightarrow> join_response (room_argument command) =
      json_text (JObj [(lit ''type'', JStr (lit ''ok'')),
        (lit ''payload'', JObj [(lit ''joined'', JStr (room_argument command))])]))"
  by (simp add: shell_response_def Let_def join_response_json)

text \<open>A quote in the room name leaves the answer to /join without its JSON form.\<close>

lemma join_response_broken:
  "join_response (lit ''a\"b'') \<noteq>
    json_text (JObj [(lit ''type'', JStr (lit ''ok'')), (lit ''payload'', JObj [(lit ''joined'', JStr (lit ''a\"b''))])])"
  by (simp add: join_response_def json_str_def lit_def escape_unit_def is_high_def is_low_def)

end
