(* ===== verification/Chart_Render.thy ===== *)
theory Chart_Render
  imports Js_Compare
begin

text \<open>
  The offline chart renderer (\<open>tools/cowchat-charts\<close>): the check of the source, the local server
  that the page loads from, the page's own entry point (\<open>client.jsx\<close>) and the course of one
  rendering with its cleanup (\<open>render.mjs\<close>). The file system, Playwright and the browser are
  parameters: what they answer is the record \<open>attempt_env\<close>.
\<close>

section \<open>The source\<close>

definition max_source :: nat where "max_source = 65536"
definition max_png :: nat where "max_png = 256 * 1024"
definition max_height :: nat where "max_height = 1800"

definition too_long :: jsstr where "too_long = lit ''Chart source exceeds 64 KiB''"
definition empty_source :: jsstr where "empty_source = lit ''Chart source is empty''"

definition validate_source :: "jsstr \<Rightarrow> jserr + unit" where
  "validate_source source =
     (if max_source < utf8_length source then Inl (Thrown too_long)
      else if js_trim source = [] then Inl (Thrown empty_source) else Inr ())"

section \<open>The server\<close>

record reply =
  code :: nat
  content_type :: jsstr
  policy :: jsstr
  body :: "jsstr option"

definition name_unit :: "code_unit \<Rightarrow> bool" where   \<comment> \<open>\<open>[a-zA-Z0-9_.-]\<close>\<close>
  "name_unit c \<longleftrightarrow> (97 \<le> c \<and> c \<le> 122) \<or> (65 \<le> c \<and> c \<le> 90) \<or> (48 \<le> c \<and> c \<le> 57) \<or> c = 95 \<or> c = 46 \<or> c = 45"

definition allowed_name :: "jsstr \<Rightarrow> bool" where
  "allowed_name file \<longleftrightarrow> file \<noteq> [] \<and> list_all name_unit file"

definition requested_file :: "jsstr \<Rightarrow> jsstr" where
  "requested_file url = (if url = lit ''/'' then lit ''index.html'' else drop 1 url)"

definition type_for :: "jsstr \<Rightarrow> jsstr" where
  "type_for file = (if ends_with file (lit ''.js'') then lit ''text/javascript''
     else if ends_with file (lit ''.css'') then lit ''text/css'' else lit ''text/html'')"

definition chart_policy :: jsstr where
  \<open>chart_policy = lit ''default-src 'none'; script-src 'self' 'wasm-unsafe-eval'; style-src 'self' 'unsafe-inline'; font-src 'self'; img-src data: blob:; connect-src 'none'; frame-src 'none'; object-src '' @ [39] @ lit ''none'' @ [39]\<close>

definition not_found :: reply where
  "not_found = \<lparr>code = 404, content_type = [], policy = [], body = None\<rparr>"

text \<open>\<open>read_file\<close> is the file system: \<open>None\<close> when \<open>readFile\<close> rejects.\<close>

definition serve :: "jsstr \<Rightarrow> (jsstr \<Rightarrow> jsstr option) \<Rightarrow> jsstr \<Rightarrow> reply" where
  "serve root read_file url =
     (let file = requested_file url in
      if \<not> allowed_name file then not_found
      else case read_file (root @ file) of
        Some bytes \<Rightarrow> \<lparr>code = 200, content_type = type_for file, policy = chart_policy, body = Some bytes\<rparr>
      | None \<Rightarrow> not_found)"

text \<open>The filter of the page's own requests: \<open>route.continue()\<close> or \<open>route.abort()\<close>.\<close>

definition route_allowed :: "jsstr \<Rightarrow> jsstr \<Rightarrow> bool" where
  "route_allowed origin url = starts_with url (origin @ lit ''/'')"

section \<open>The page\<close>

definition chart_components :: "jsstr list" where
  "chart_components = map lit [''Stack'', ''TextContent'', ''Card'', ''CardHeader'', ''BarChart'', ''LineChart'',
     ''AreaChart'', ''RadarChart'', ''HorizontalBarChart'', ''Series'', ''PieChart'', ''RadialChart'',
     ''SingleStackedBarChart'', ''Slice'', ''ScatterChart'', ''ScatterSeries'', ''Point'']"

record chart_page =
  boundary_error :: "jsstr option"
  chart_error :: jsv

text \<open>What React and the renderer do with a response: \<open>Inl\<close> an error thrown while rendering (its
  \<open>String(error)\<close>), \<open>Inr\<close> the messages that \<open>onError\<close> gets.\<close>

definition render_page :: "(jsstr \<Rightarrow> jsstr + jsstr list) \<Rightarrow> jsstr \<Rightarrow> chart_page \<Rightarrow> chart_page" where
  "render_page renderer response s =
     (case boundary_error s of
        Some e \<Rightarrow> s\<lparr>chart_error := JStr e\<rparr>     \<comment> \<open>the boundary stays in the root and keeps its error\<close>
      | None \<Rightarrow>
         (case renderer response of
            Inl e \<Rightarrow> s\<lparr>boundary_error := Some e, chart_error := JStr e\<rparr>
          | Inr messages \<Rightarrow> s\<lparr>chart_error :=
              (if messages = [] then JNull else JStr (join_with (lit ''; '') messages))\<rparr>))"

section \<open>One rendering\<close>

text \<open>What each awaited call answers: \<open>Inl\<close> when it rejects.\<close>

record attempt_env =
  build_result :: "jserr + unit"
  listen_result :: "jserr + unit"
  launch_result :: "jserr + unit"
  page_result :: "jserr + unit"          \<comment> \<open>\<open>newPage\<close>, \<open>route\<close>, \<open>goto\<close>, \<open>waitForFunction\<close>, \<open>evaluate\<close> up to the wait for a chart\<close>
  first_error :: "jserr + jsv"           \<comment> \<open>\<open>window.chartError\<close>\<close>
  page_errors :: "jsstr list"            \<comment> \<open>\<open>pageerror\<close> messages by then\<close>
  layout_result :: "jserr + unit"        \<comment> \<open>fonts and two frames\<close>
  chart_box :: "jserr + nat option"      \<comment> \<open>the height of the bounding box, rounded up\<close>
  last_error :: "jserr + jsv"
  png_result :: "jserr + jsstr"
  write_result :: "jserr + unit"
  close_result :: "jserr + unit"         \<comment> \<open>\<open>browser?.close()\<close> in \<open>finally\<close>\<close>

record chart_run =
  server_open :: bool
  browser_open :: bool
  deadline_armed :: bool
  written :: "jsstr option"

definition nothing_open :: chart_run where
  "nothing_open = \<lparr>server_open = False, browser_open = False, deadline_armed = False, written = None\<rparr>"

definition guard_err :: "bool \<Rightarrow> jsstr \<Rightarrow> jserr + unit" where
  "guard_err bad message = (if bad then Inl (Thrown message) else Inr ())"

definition error_text :: "jsv \<Rightarrow> jsstr list \<Rightarrow> jsstr" where   \<comment> \<open>\<open>error || errors.join('; ')\<close>\<close>
  "error_text e es = (if truthy e then to_str e else join_with (lit ''; '') es)"

definition box_message :: jsstr where "box_message = lit ''Chart is empty or exceeds the 1800 px height limit''"
definition png_message :: jsstr where "png_message = lit ''Rendered chart exceeds 256 KiB; simplify the chart''"

text \<open>The checks between the page's answer and the write; \<open>Inr\<close> is the picture.\<close>

definition picture :: "attempt_env \<Rightarrow> jserr + jsstr" where
  "picture env =
     bindE (page_result env) (\<lambda>_.
     bindE (first_error env) (\<lambda>e.
     bindE (guard_err (truthy e \<or> page_errors env \<noteq> []) (error_text e (page_errors env))) (\<lambda>_.
     bindE (layout_result env) (\<lambda>_.
     bindE (chart_box env) (\<lambda>box.
     bindE (guard_err (case box of None \<Rightarrow> True | Some h \<Rightarrow> max_height < h) box_message) (\<lambda>_.
     bindE (last_error env) (\<lambda>e'.
     bindE (guard_err (truthy e') (to_str e')) (\<lambda>_.
     bindE (png_result env) (\<lambda>png.
     bindE (guard_err (max_png < length png) png_message) (\<lambda>_. Inr png))))))))))"

definition with_browser :: "attempt_env \<Rightarrow> (chart_run, unit) jsm" where   \<comment> \<open>the \<open>try\<close> block\<close>
  "with_browser env =
     bind (lift_err (launch_result env)) (\<lambda>_.
     next_do (modify (\<lambda>s. s\<lparr>browser_open := True, deadline_armed := True\<rparr>))
     (bind (lift_err (picture env)) (\<lambda>png.
      bind (lift_err (write_result env)) (\<lambda>_.
        modify (\<lambda>s. s\<lparr>written := Some png\<rparr>)))))"

text \<open>\<open>try { m } finally { f }\<close>: an error of \<open>f\<close> replaces the one of \<open>m\<close>.\<close>

definition finally_do :: "('s, 'a) jsm \<Rightarrow> ('s, unit) jsm \<Rightarrow> ('s, 'a) jsm" where
  "finally_do m f = (\<lambda>s. case m s of (r, s') \<Rightarrow> (case f s' of (Inl e, s'') \<Rightarrow> (Inl e, s'') | (Inr _, s'') \<Rightarrow> (r, s'')))"

definition clean_up :: "attempt_env \<Rightarrow> (chart_run, unit) jsm" where
  "clean_up env =
     next_do (modify (\<lambda>s. s\<lparr>deadline_armed := False\<rparr>))
     (bind (gets browser_open) (\<lambda>launched.
      next_do (if launched then next_do (lift_err (close_result env)) (modify (\<lambda>s. s\<lparr>browser_open := False\<rparr>)) else ret ())
        (modify (\<lambda>s. s\<lparr>server_open := False\<rparr>))))"

definition render_chart :: "attempt_env \<Rightarrow> jsstr \<Rightarrow> (chart_run, unit) jsm" where
  "render_chart env source =
     next_do (lift_err (validate_source source))
     (next_do (lift_err (build_result env))
     (next_do (lift_err (listen_result env))
     (next_do (modify (\<lambda>s. s\<lparr>server_open := True\<rparr>))
       (finally_do (with_browser env) (clean_up env)))))"

text \<open>The command line: \<open>pnpm render chart.openui --out chart.png\<close>; \<open>read\<close> is the file system.\<close>

definition usage :: jsstr where "usage = lit ''Usage: pnpm render chart.openui --out chart.png''"

definition chart_main :: "attempt_env \<Rightarrow> (jsstr \<Rightarrow> jserr + jsstr) \<Rightarrow> jsstr list \<Rightarrow> jsstr option \<Rightarrow> (chart_run, unit) jsm" where
  "chart_main env read positionals out =
     next_do (lift_err (guard_err (length positionals \<noteq> 1 \<or> (case out of None \<Rightarrow> True | Some f \<Rightarrow> \<not> ends_with f (lit ''.png''))) usage))
     (bind (lift_err (read (hd positionals))) (\<lambda>source. render_chart env source))"

section \<open>Properties\<close>

text \<open>C39: The server reads nothing but files directly inside its directory, and answers 404 otherwise: what it reads has no slash or backslash after the directory, whatever the request is.\<close>

theorem chart_server_confined:
  assumes "\<forall>file. file \<noteq> [] \<and> 47 \<notin> set file \<and> 92 \<notin> set file \<longrightarrow> read_a (root @ file) = read_b (root @ file)"
  shows "serve root read_a url = serve root read_b url \<and>
    (code (serve root read_a url) = 200 \<or> serve root read_a url = not_found)"
proof -
  have "allowed_name f \<Longrightarrow> f \<noteq> [] \<and> 47 \<notin> set f \<and> 92 \<notin> set f" for f
    by (auto simp: allowed_name_def list_all_iff name_unit_def)
  then have "allowed_name f \<Longrightarrow> read_a (root @ f) = read_b (root @ f)" for f using assms by blast
  then show ?thesis by (simp add: serve_def Let_def split: option.split)
qed

theorem chart_server_confined_witness:
  "serve (lit ''dist/'') (\<lambda>p. if p = lit ''dist/../secret'' then Some [] else None) (lit ''/../secret'') =
   serve (lit ''dist/'') (\<lambda>p. None) (lit ''/../secret'')"
proof -
  have "\<forall>file. file \<noteq> [] \<and> 47 \<notin> set file \<and> 92 \<notin> set file \<longrightarrow>
      (if lit ''dist/'' @ file = lit ''dist/../secret'' then Some [] else None) = (None :: jsstr option)"
    by (auto simp: lit_def)
  from chart_server_confined[OF this] show ?thesis by blast
qed


definition good_run :: attempt_env where
  "good_run = \<lparr>build_result = Inr (), listen_result = Inr (), launch_result = Inr (), page_result = Inr (),
     first_error = Inr JNull, page_errors = [], layout_result = Inr (), chart_box = Inr (Some 600), last_error = Inr JNull,
     png_result = Inr (lit ''PNG''), write_result = Inr (), close_result = Inr ()\<rparr>"


end
