(* ===== verification/Room_Vectors.thy ===== *)
theory Room_Vectors
  imports Js_Json
begin

text \<open>
  The reference vectors of the hosted rooms (\<open>scripts/hosted-room-vectors.mjs\<close>): UTF-8, unpadded
  base64 and the sealed message. The cipher (Node's \<open>chacha20-poly1305\<close>) is a parameter.
\<close>

type_synonym bytes = "8 word list"

section \<open>Encodings\<close>

text \<open>\<open>Buffer.from(s)\<close>: UTF-8, where a surrogate on its own becomes U+FFFD.\<close>

definition utf8_unit :: "nat \<Rightarrow> bytes" where
  "utf8_unit n =
     map word_of_nat (if n < 0x80 then [n]
       else if n < 0x800 then [0xC0 + n div 64, 0x80 + n mod 64]
       else if n < 0x10000 then [0xE0 + n div 4096, 0x80 + n div 64 mod 64, 0x80 + n mod 64]
       else [0xF0 + n div 262144, 0x80 + n div 4096 mod 64, 0x80 + n div 64 mod 64, 0x80 + n mod 64])"

definition single_unit :: "code_unit \<Rightarrow> bytes" where
  "single_unit c = utf8_unit (if is_high c \<or> is_low c then 0xFFFD else unat c)"

definition pair_code :: "code_unit \<Rightarrow> code_unit \<Rightarrow> nat" where
  "pair_code c d = 0x10000 + (unat c - 0xD800) * 1024 + (unat d - 0xDC00)"

fun utf8 :: "jsstr \<Rightarrow> bytes" where
  "utf8 [] = []"
| "utf8 [c] = single_unit c"
| "utf8 (c # d # s) =
     (if is_high c \<and> is_low d then utf8_unit (pair_code c d) @ utf8 s else single_unit c @ utf8 (d # s))"

definition utf16le :: "jsstr \<Rightarrow> bytes" where
  "utf16le s = concat (map (\<lambda>c. [word_of_nat (unat c mod 256), word_of_nat (unat c div 256)]) s)"

definition base64_digit :: "nat \<Rightarrow> code_unit" where
  "base64_digit n = word_of_nat (if n < 26 then 65 + n else if n < 52 then 71 + n else if n < 62 then n - 4
     else if n = 62 then 43 else 47)"

fun base64 :: "nat list \<Rightarrow> jsstr" where
  "base64 [] = []"
| "base64 [a] = [base64_digit (a div 4), base64_digit (a mod 4 * 16), 61, 61]"
| "base64 [a, b] = [base64_digit (a div 4), base64_digit (a mod 4 * 16 + b div 16), base64_digit (b mod 16 * 4), 61]"
| "base64 (a # b # c # s) =
     [base64_digit (a div 4), base64_digit (a mod 4 * 16 + b div 16), base64_digit (b mod 16 * 4 + c div 64),
      base64_digit (c mod 64)] @ base64 s"

definition unpadded :: "jsstr \<Rightarrow> jsstr" where   \<comment> \<open>\<open>replace(/=+$/, "")\<close>\<close>
  "unpadded s = rev (dropWhile (\<lambda>c. c = 61) (rev s))"

definition hex_bytes :: "bytes \<Rightarrow> jsstr" where   \<comment> \<open>\<open>toString("hex")\<close>\<close>
  "hex_bytes bs = concat (map (\<lambda>b. [hex_digit (unat b div 16), hex_digit (unat b mod 16)]) bs)"

section \<open>Sealing\<close>

type_synonym cipher = "bytes \<Rightarrow> bytes \<Rightarrow> bytes \<Rightarrow> bytes \<times> bytes"   \<comment> \<open>key, nonce, text; encrypted and tag\<close>

definition vector_key :: bytes where "vector_key = map word_of_nat [0..<32]"
definition vector_nonce :: bytes where "vector_nonce = map word_of_nat [0..<12]"
definition domain :: jsstr where "domain = lit ''cowchat-room-message-v1''"

definition seal :: "cipher \<Rightarrow> bytes \<Rightarrow> jsstr" where
  "seal cipher plaintext =
     (case cipher vector_key vector_nonce plaintext of (encrypted, tag) \<Rightarrow>
        lit ''cow1:'' @ unpadded (base64 (map unat (vector_nonce @ encrypted @ tag))))"

definition seal_json :: "cipher \<Rightarrow> jsv \<Rightarrow> jsstr" where
  "seal_json cipher payload = seal cipher (utf8 (json_text payload))"

record room_context =
  room_id :: jsstr
  key_epoch :: jsstr
  message_id :: jsstr
  message_text :: jsstr

definition payload_of :: "room_context \<Rightarrow> jsv" where
  "payload_of c = JArr (map JStr [domain, room_id c, key_epoch c, message_id c, message_text c])"

definition contexts :: "room_context list" where
  "contexts =
     [\<lparr>room_id = lit ''room-test'', key_epoch = lit ''0'', message_id = lit ''message-1'',
       message_text = lit ''Hello '' @ [0xD83D, 0xDC0E] @ lit '' / \"room\"'' @ [10] @ lit ''second line''\<rparr>,
      \<lparr>room_id = lit ''room-test'', key_epoch = lit ''18446744073709551615'', message_id = lit ''message-max'', message_text = []\<rparr>,
      \<lparr>room_id = lit ''room-'' @ [0xE9], key_epoch = lit ''1'', message_id = lit ''message-'' @ [0xE9],
       message_text = lit ''Exact UTF-8 scope''\<rparr>]"

definition vector_of :: "cipher \<Rightarrow> room_context \<Rightarrow> jsv" where
  "vector_of cipher c =
     JObj [(lit ''room_id'', JStr (room_id c)), (lit ''key_epoch'', JStr (key_epoch c)),
       (lit ''message_id'', JStr (message_id c)), (lit ''text'', JStr (message_text c)),
       (lit ''wire'', JStr (seal_json cipher (payload_of c)))]"

definition named_wire :: "string \<Rightarrow> jsstr \<Rightarrow> jsv" where
  "named_wire name wire = JObj [(lit ''name'', JStr (lit name)), (lit ''wire'', JStr wire)]"

definition strings :: "string list \<Rightarrow> jsv list" where
  "strings ss = map (\<lambda>s. JStr (lit s)) ss"

definition plain_payload :: "jsv list \<Rightarrow> jsv" where
  "plain_payload rest = JArr ([JStr domain, JStr (lit ''room-test'')] @ rest)"

definition invalid_payloads :: "(string \<times> jsv) list" where
  "invalid_payloads =
     [(''wrong domain'', JArr (strings [''wrong-domain'', ''room-test'', ''0'', ''message-1'', ''text''])),
      (''numeric epoch'', plain_payload ([JNum (num_of_nat 0)] @ strings [''message-1'', ''text''])),
      (''noncanonical epoch'', plain_payload (strings [''00'', ''message-1'', ''text''])),
      (''missing text'', plain_payload (strings [''0'', ''message-1''])),
      (''extra field'', plain_payload (strings [''0'', ''message-1'', ''text'', ''extra''])),
      (''object payload'', JObj [(lit ''room_id'', JStr (lit ''room-test'')), (lit ''key_epoch'', JStr (lit ''0'')),
         (lit ''message_id'', JStr (lit ''message-1'')), (lit ''text'', JStr (lit ''text''))])]"

definition sample_payload :: jsv where
  "sample_payload = plain_payload (strings [''0'', ''message-1'', ''text''])"

definition invalid_vectors :: "cipher \<Rightarrow> jsv list" where
  "invalid_vectors cipher =
     map (\<lambda>(name, payload). named_wire name (seal_json cipher payload)) invalid_payloads @
     [named_wire ''invalid UTF-8'' (seal cipher [255]),
      named_wire ''UTF-16 JSON'' (seal cipher (utf16le (json_text sample_payload))),
      named_wire ''lone surrogate'' (seal_json cipher
        (plain_payload (strings [''0'', ''message-1''] @ [JStr [0xD800]]))),
      named_wire ''UTF-8 BOM'' (seal cipher ([239, 187, 191] @ utf8 (json_text sample_payload)))]"

definition vectors_document :: "cipher \<Rightarrow> jsv" where   \<comment> \<open>what \<open>console.log\<close> prints as JSON\<close>
  "vectors_document cipher =
     JObj [(lit ''profile'', JStr domain), (lit ''key_hex'', JStr (hex_bytes vector_key)),
       (lit ''nonce_hex'', JStr (hex_bytes vector_nonce)), (lit ''vectors'', JArr (map (vector_of cipher) contexts)),
       (lit ''invalid'', JArr (invalid_vectors cipher))]"

section \<open>Reading base64 back\<close>

definition base64_value :: "code_unit \<Rightarrow> nat option" where
  "base64_value c =
     (if 65 \<le> c \<and> c \<le> 90 then Some (unat c - 65) else if 97 \<le> c \<and> c \<le> 122 then Some (unat c - 71)
      else if 48 \<le> c \<and> c \<le> 57 then Some (unat c + 4) else if c = 43 then Some 62 else if c = 47 then Some 63 else None)"

text \<open>The values of the digits, four to three bytes; the last group may be short.\<close>

fun join_digits :: "nat list \<Rightarrow> nat list" where
  "join_digits (p # q # r # s # rest) =
     [p * 4 + q div 16, q mod 16 * 16 + r div 4, r mod 4 * 64 + s] @ join_digits rest"
| "join_digits [p, q, r] = [p * 4 + q div 16, q mod 16 * 16 + r div 4]"
| "join_digits [p, q] = [p * 4 + q div 16]"
| "join_digits _ = []"

definition read_base64 :: "jsstr \<Rightarrow> bytes option" where
  "read_base64 s =
     (if list_all (\<lambda>c. base64_value c \<noteq> None) s
      then Some (map word_of_nat (join_digits (map (\<lambda>c. the (base64_value c)) s))) else None)"

lemma base64_digits: "list_all (\<lambda>n. base64_value (base64_digit n) = Some n \<and> base64_digit n \<noteq> 61) [0..<64]"
  by code_simp

lemma base64_digit_value: "n < 64 \<Longrightarrow> base64_value (base64_digit n) = Some n" "n < 64 \<Longrightarrow> base64_digit n \<noteq> 61"
  using base64_digits by (simp_all add: list_all_iff)

text \<open>The digits without the padding.\<close>

fun digits64 :: "nat list \<Rightarrow> nat list" where
  "digits64 [] = []"
| "digits64 [a] = [a div 4, a mod 4 * 16]"
| "digits64 [a, b] = [a div 4, a mod 4 * 16 + b div 16, b mod 16 * 4]"
| "digits64 (a # b # c # s) = [a div 4, a mod 4 * 16 + b div 16, b mod 16 * 4 + c div 64, c mod 64] @ digits64 s"

lemma digits64_bound: "list_all (\<lambda>n. n < 256) bs \<Longrightarrow> list_all (\<lambda>n. n < 64) (digits64 bs)"
  by (induction bs rule: digits64.induct) (auto simp: less_mult_imp_div_less)

lemma base64_padding: "\<exists>k. base64 bs = map base64_digit (digits64 bs) @ replicate k 61"
proof (induction bs rule: digits64.induct)
  case 1
  then show ?case by simp
next
  case (2 a)
  show ?case by (rule exI[of _ 2]) (simp add: numeral_2_eq_2)
next
  case (3 a b)
  show ?case by (rule exI[of _ 1]) simp
qed auto

lemma unpadded_digits:
  assumes "list_all (\<lambda>n. n < 64) ns"
  shows "unpadded (map base64_digit ns @ replicate k 61) = map base64_digit ns"
proof -
  have "dropWhile (\<lambda>c. c = 61) (rev (map base64_digit ns)) = rev (map base64_digit ns)"
    using assms base64_digit_value(2) by (cases ns rule: rev_cases) auto
  moreover have "dropWhile (\<lambda>c. c = 61) (replicate k 61 @ xs) = dropWhile (\<lambda>c. c = (61 :: code_unit)) xs" for xs
    by (induction k) auto
  ultimately show ?thesis by (simp add: unpadded_def)
qed

lemma join_digits64: "list_all (\<lambda>n. n < 256) bs \<Longrightarrow> join_digits (digits64 bs) = bs"
proof (induction bs rule: digits64.induct)
  case (2 a)
  then show ?case by (simp add: div_mult2_eq[symmetric])
next
  case (3 a b)
  then have "b div 16 < 16" by (simp add: less_mult_imp_div_less)
  then show ?case by simp
next
  case (4 a b c s)
  then have "b div 16 < 16" "c div 64 < 4" by (simp_all add: less_mult_imp_div_less)
  then show ?case using 4 by simp
qed simp

lemma read_unpadded:
  assumes "list_all (\<lambda>n. n < 256) bs"
  shows "read_base64 (unpadded (base64 bs)) = Some (map word_of_nat bs)"
proof -
  obtain k where "base64 bs = map base64_digit (digits64 bs) @ replicate k 61" using base64_padding by blast
  then have u: "unpadded (base64 bs) = map base64_digit (digits64 bs)"
    using unpadded_digits digits64_bound[OF assms] by simp
  have "map (\<lambda>c. the (base64_value c)) (map base64_digit (digits64 bs)) = digits64 bs"
    using digits64_bound[OF assms] base64_digit_value(1) by (auto simp: list_all_iff intro: map_idI)
  then show ?thesis
    using digits64_bound[OF assms] base64_digit_value(1)
    by (auto simp: read_base64_def u join_digits64[OF assms] list_all_iff)
qed

text \<open>A sealed message is cow1: and the unpadded base64 of nonce, ciphertext and tag, which is read back from it, whatever the cipher returns.\<close>

theorem seal_round_trip:
  "\<exists>wire. seal cipher plaintext = lit ''cow1:'' @ wire \<and> 61 \<notin> set wire \<and>
    read_base64 wire = Some (vector_nonce @ fst (cipher vector_key vector_nonce plaintext) @
      snd (cipher vector_key vector_nonce plaintext))"
proof -
  obtain encrypted tag where c: "cipher vector_key vector_nonce plaintext = (encrypted, tag)" by fastforce
  let ?bs = "vector_nonce @ encrypted @ tag"
  have "unat b < 256" for b :: "8 word" using unsigned_less[of b] by simp
  then have "list_all (\<lambda>n. n < 256) (map unat ?bs)" by (auto simp: list_all_iff)
  then have "read_base64 (unpadded (base64 (map unat ?bs))) = Some (map word_of_nat (map unat ?bs))" by (rule read_unpadded)
  then have r: "read_base64 (unpadded (base64 (map unat ?bs))) = Some ?bs" by (simp add: comp_def)
  then have "61 \<notin> set (unpadded (base64 (map unat ?bs)))"
    by (auto simp: read_base64_def list_all_iff base64_value_def split: if_splits)
  then show ?thesis using r c by (simp add: seal_def)
qed

text \<open>The encoding has as many bytes as the limits of the other programs count.\<close>

lemma utf8_unit_length: "length (utf8_unit n) = (if n < 0x80 then 1 else if n < 0x800 then 2 else if n < 0x10000 then 3 else 4)"
  by (simp add: utf8_unit_def)

lemma single_unit_length: "length (single_unit c) = unit_bytes c"
proof -
  have "unat c < 0x10000" using unsigned_less[of c] by simp
  then show ?thesis
    by (auto simp: single_unit_def utf8_unit_length unit_bytes_def is_high_def is_low_def word_less_nat_alt word_le_nat_alt)
qed

lemma utf8_bytes: "length (utf8 s) = utf8_length s"
  by (induction s rule: utf8.induct) (auto simp: single_unit_length utf8_unit_length pair_code_def)

end
