(* ===== verification/Site_Copy.thy ===== *)
theory Site_Copy
  imports Markup Event_Machine
begin

text \<open>
  The two copy buttons of the site (\<open>site/app/copy-button.tsx\<close> and \<open>copy-code.tsx\<close>): a click asks
  the clipboard, a success shows \<open>Copied\<close> for a while, a refusal changes nothing.
\<close>

datatype button_kind = Copy_Button | Copy_Code

record copy_state =
  kind :: button_kind
  snippet :: jsstr
  copied :: bool
  writes :: "jsstr list"      \<comment> \<open>texts the clipboard was asked for and has not answered\<close>
  resets :: nat               \<comment> \<open>armed \<open>setTimeout(() => setCopied(false), 1500)\<close>\<close>

definition copy_start :: "button_kind \<Rightarrow> jsstr \<Rightarrow> copy_state" where
  "copy_start k t = \<lparr>kind = k, snippet = t, copied = False, writes = [], resets = 0\<rparr>"

definition copied_text :: "copy_state \<Rightarrow> jsstr" where   \<comment> \<open>the button trims its text, the snippet does not\<close>
  "copied_text s = (case kind s of Copy_Button \<Rightarrow> js_trim (snippet s) | Copy_Code \<Rightarrow> snippet s)"

definition on_copy_click :: "copy_state \<Rightarrow> copy_state" where
  "on_copy_click s = s\<lparr>writes := writes s @ [copied_text s]\<rparr>"

definition on_written :: "nat \<Rightarrow> bool \<Rightarrow> copy_state \<Rightarrow> copy_state" where
  "on_written j success s =
     (let s' = s\<lparr>writes := take j (writes s) @ drop (Suc j) (writes s)\<rparr> in
      if success then s'\<lparr>copied := True, resets := resets s + 1\<rparr> else s')"

definition on_reset :: "copy_state \<Rightarrow> copy_state" where
  "on_reset s = s\<lparr>copied := False, resets := resets s - 1\<rparr>"

definition button_label :: "copy_state \<Rightarrow> jsstr" where
  "button_label s = (if copied s then lit ''Copied'' else lit ''Copy'')"

definition copy_button_view :: "copy_state \<Rightarrow> element" where
  "copy_button_view s =
     Elem (lit ''button'')
       [(lit ''className'', lit ''btn-primary-glow absolute bottom-3 right-3 cursor-pointer rounded-lg bg-button-primary-default '' @
           lit ''px-3 py-1.5 type-body-s-strong text-button-primary-text-default hover:bg-button-primary-hover '' @
           lit ''active:bg-button-primary-pressed''),
        (lit ''type'', lit ''button''), (lit ''aria-live'', lit ''polite'')]
       [Txt (button_label s)]"

definition code_label :: "copy_state \<Rightarrow> jsstr" where
  "code_label s = lit ''Copy '' @ [8220] @ snippet s @ [8221] @ lit '' to the clipboard''"

definition copy_code_view :: "copy_state \<Rightarrow> element" where
  "copy_code_view s =
     Elem (lit ''button'')
       [(lit ''className'', lit ''relative inline cursor-pointer rounded-md px-0.5 underline decoration-border-hover '' @
           lit ''decoration-dotted underline-offset-4 hover:bg-surface-600 hover:decoration-border-pressed''),
        (lit ''type'', lit ''button''), (lit ''aria-live'', lit ''polite''), (lit ''aria-label'', code_label s),
        (lit ''title'', lit ''Click to copy'')]
       ([Elem (lit ''code'') [(lit ''className'', lit ''type-code-sm'')] [Txt (snippet s)]] @
        (if copied s
         then [Elem (lit ''span'')
           [(lit ''className'', lit ''absolute -top-7 left-1/2 -translate-x-1/2 whitespace-nowrap rounded-md bg-text-primary px-2 '' @
               lit ''py-0.5 type-caption text-surface-500'')]
           [Txt (lit ''Copied'')]]
         else []))"

datatype copy_event = Copy_Click | Written nat bool | Reset

definition copy_enabled :: "copy_event \<Rightarrow> copy_state \<Rightarrow> bool" where
  "copy_enabled e s =
     (case e of Copy_Click \<Rightarrow> True | Written j success \<Rightarrow> j < length (writes s) | Reset \<Rightarrow> 0 < resets s)"

definition copy_act :: "copy_event \<Rightarrow> copy_state \<Rightarrow> copy_state" where
  "copy_act e s =
     (case e of Copy_Click \<Rightarrow> on_copy_click s | Written j success \<Rightarrow> on_written j success s | Reset \<Rightarrow> on_reset s)"

text \<open>What is shown as copied will be reset, and only the button's own text is written.\<close>

definition copy_inv :: "copy_state \<Rightarrow> bool" where
  "copy_inv s \<longleftrightarrow> (copied s \<longrightarrow> 0 < resets s) \<and> list_all (\<lambda>t. t = copied_text s) (writes s)"

lemma copied_text_frames [simp]:
  "copied_text (s\<lparr>writes := w\<rparr>) = copied_text s" "copied_text (s\<lparr>copied := b\<rparr>) = copied_text s"
  "copied_text (s\<lparr>resets := n\<rparr>) = copied_text s"
  by (simp_all add: copied_text_def split: button_kind.split)

lemma copy_inv_event: "copy_inv s \<Longrightarrow> copy_enabled e s \<Longrightarrow> copy_inv (copy_act e s)"
  by (cases e) (auto simp: copy_inv_def copy_act_def on_copy_click_def on_written_def on_reset_def Let_def
      list_all_iff dest: in_set_takeD in_set_dropD)

interpretation copy: invariant_machine "copy_start k t" copy_enabled copy_act copy_inv
  for k t
  by unfold_locales (simp_all add: copy_inv_event, simp add: copy_inv_def copy_start_def)

lemma copied_resets:
  assumes "reachable (copy_start k t) copy_enabled copy_act s" and "copied s"
  shows "copy_enabled Reset s \<and> \<not> copied (copy_act Reset s)"
  using copy.reachable_inv[OF assms(1)] assms(2)
  by (simp add: copy_inv_def copy_enabled_def copy_act_def on_reset_def)

end
