(* ===== verification/Build_Scripts.thy ===== *)
theory Build_Scripts
  imports Landing
begin

text \<open>
  The build scripts of the two web tools: \<open>tools/cowchat-artifacts/build.mjs\<close>,
  \<open>tools/cowchat-charts/build.mjs\<close> and \<open>bundle-mac.mjs\<close>. A script changes a file system, here a
  map from paths of the repository to contents. esbuild and Tailwind are parameters.
\<close>

type_synonym files = "jsstr \<rightharpoonup> jsstr"

text \<open>esbuild gives the files it writes, Tailwind a function of the candidate class names.\<close>

type_synonym esbuild = "files \<Rightarrow> jserr + (jsstr \<times> jsstr) list"
type_synonym tailwind = "jsstr \<Rightarrow> jserr + (jsstr list \<Rightarrow> jsstr)"

definition read_file :: "files \<Rightarrow> jsstr \<Rightarrow> jserr + jsstr" where
  "read_file fs p = (case fs p of Some c \<Rightarrow> Inr c | None \<Rightarrow> Inl (Thrown (lit ''ENOENT'')))"

definition put_files :: "(jsstr \<times> jsstr) list \<Rightarrow> files \<Rightarrow> files" where
  "put_files outs fs = fold (\<lambda>(p, c) m. m(p \<mapsto> c)) outs fs"

section \<open>The artifact renderer\<close>

definition is_quote :: "code_unit \<Rightarrow> bool" where
  "is_quote c \<longleftrightarrow> c = 34 \<or> c = 39 \<or> c = 96"

text \<open>The captures of \<open>/["'`]([^"'`]+)["'`]/g\<close>, a regular expression that resumes after a match.\<close>

function quoted :: "jsstr \<Rightarrow> jsstr list" where
  "quoted [] = []"
| "quoted (c # s) =
     (if is_quote c
      then let w = takeWhile (\<lambda>d. \<not> is_quote d) s; r = dropWhile (\<lambda>d. \<not> is_quote d) s in
        if w \<noteq> [] \<and> r \<noteq> [] then w # quoted (tl r) else quoted s
      else quoted s)"
  by pat_completeness auto
termination
  by (relation "measure length") (auto intro: le_imp_less_Suc order_trans[OF diff_le_self length_dropWhile_le])

definition candidates :: "jsstr \<Rightarrow> jsstr list" where
  "candidates source = concat (map split_spaces (quoted source))"

definition line_end :: "code_unit \<Rightarrow> bool" where
  "line_end c \<longleftrightarrow> c = 10 \<or> c = 13 \<or> c = 0x2028 \<or> c = 0x2029"

definition drop_blank :: "code_unit \<Rightarrow> jsstr \<Rightarrow> jsstr" where
  "drop_blank c rest = (if (c = 32 \<or> c = 9) \<and> (rest = [] \<or> line_end (hd rest)) then rest else c # rest)"

definition strip_line_ends :: "jsstr \<Rightarrow> jsstr" where   \<comment> \<open>\<open>replace(/[ \t]+$/gm, '')\<close>\<close>
  "strip_line_ends s = foldr drop_blank s []"

definition artifact_html :: jsstr where
  \<open>artifact_html = lit ''<!doctype html><html lang="en"><head><meta charset="utf-8"><meta name="viewport" content="width=device-width,initial-scale=1"><meta name="robots" content="noindex,nofollow"><meta name="referrer" content="no-referrer"><meta http-equiv="Content-Security-Policy" content="default-src 'none'; script-src 'self'; style-src 'self' 'unsafe-inline'; font-src data:; img-src data:; connect-src 'self'; base-uri 'none'; form-action 'none'"><title>Cowchat artifact</title><link rel="stylesheet" href="../artifact.css"></head><body><div id="artifact"></div><script src="../artifact.js"></script></body></html>''\<close>

definition tool :: "string \<Rightarrow> jsstr" where "tool s = lit ''tools/cowchat-artifacts/'' @ lit s"
definition web :: "string \<Rightarrow> jsstr" where "web s = lit ''crates/cowchat-server/web/'' @ lit s"

definition build_artifacts :: "esbuild \<Rightarrow> tailwind \<Rightarrow> files \<Rightarrow> jserr + files" where
  "build_artifacts bundle compile fs =
     bindE (read_file fs (tool ''tailwind.css'')) (\<lambda>css.
     bindE (compile css) (\<lambda>styles.
     bindE (read_file fs (tool ''node_modules/@cowboyinc/gallop-components/dist/index.mjs'')) (\<lambda>source.
     (let fs1 = fs(tool ''.gallop.generated.css'' \<mapsto> styles (candidates source)) in
     bindE (bundle fs1) (\<lambda>outs.
     (let fs2 = put_files outs fs1 in
     bindE (read_file fs2 (tool ''dist/client.js'')) (\<lambda>js.
     bindE (read_file fs2 (tool ''dist/.gallop.generated.css'')) (\<lambda>gallop.
     bindE (read_file fs2 (tool ''dist/client.css'')) (\<lambda>client.
       Inr ((fs2(web ''artifact.js'' \<mapsto> strip_line_ends js, web ''artifact.css'' \<mapsto> gallop @ [10] @ client,
         web ''artifact.html'' \<mapsto> artifact_html))(tool ''.gallop.generated.css'' := None)))))))))))"

section \<open>The chart renderer\<close>

definition chart_html :: jsstr where
  \<open>chart_html = lit ''<!doctype html><meta charset="utf-8"><meta http-equiv="Content-Security-Policy" content="default-src 'none'; script-src 'self'; style-src 'self' 'unsafe-inline'; img-src data:; font-src 'self'; connect-src 'none'; base-uri 'none'; form-action 'none'"><title>Cowchat chart</title><link rel="stylesheet" href="client.css"><div id="chart"></div><script src="client.js"></script>''\<close>

definition dist :: "jsstr \<Rightarrow> jsstr" where "dist file = lit ''tools/cowchat-charts/dist/'' @ file"

definition build_charts :: "esbuild \<Rightarrow> files \<Rightarrow> jserr + files" where
  "build_charts bundle fs =
     bindE (bundle fs) (\<lambda>outs. Inr ((put_files outs fs)(dist (lit ''index.html'') \<mapsto> chart_html)))"

definition bundled :: "jsstr \<Rightarrow> jsstr" where
  "bundled file = lit ''apps/CowchatMac/Sources/CowchatMac/Bundled/Charts/'' @ file"

definition bundle_files :: "jsstr list" where
  "bundle_files = map lit [''index.html'', ''client.js'', ''client.css'']"

fun copy_files :: "jsstr list \<Rightarrow> files \<Rightarrow> jserr + files" where
  "copy_files [] fs = Inr fs"
| "copy_files (f # rest) fs = bindE (read_file fs (dist f)) (\<lambda>c. copy_files rest (fs(bundled f \<mapsto> c)))"

definition bundle_mac :: "esbuild \<Rightarrow> files \<Rightarrow> jserr + files" where
  "bundle_mac bundle fs = bindE (build_charts bundle fs) (copy_files bundle_files)"

section \<open>What the scripts leave\<close>

fun no_blank_end :: "jsstr \<Rightarrow> bool" where
  "no_blank_end [] = True"
| "no_blank_end [c] = (c \<noteq> 32 \<and> c \<noteq> 9)"
| "no_blank_end (c # d # s) = ((c = 32 \<or> c = 9 \<longrightarrow> \<not> line_end d) \<and> no_blank_end (d # s))"

lemma strip_line_ends_none: "no_blank_end (strip_line_ends s)"
proof (induction s)
  case (Cons c s)
  have "strip_line_ends (c # s) = drop_blank c (strip_line_ends s)" by (simp add: strip_line_ends_def)
  then show ?case using Cons by (cases "strip_line_ends s") (auto simp: drop_blank_def)
qed (simp add: strip_line_ends_def)

lemma dist_not_bundled: "dist f \<noteq> bundled g"
  by (simp add: dist_def bundled_def lit_def)

lemma bundled_inj: "bundled f = bundled g \<longleftrightarrow> f = g"
  by (simp add: bundled_def)

lemma copy_files_copies:
  assumes "copy_files names fs = Inr fs'"
  shows "(\<forall>f. fs' (dist f) = fs (dist f)) \<and> (\<forall>f \<in> set names. fs' (bundled f) = fs (dist f) \<and> fs (dist f) \<noteq> None) \<and>
    (\<forall>f. f \<notin> set names \<longrightarrow> fs' (bundled f) = fs (bundled f))"
  using assms
proof (induction names arbitrary: fs)
  case (Cons n names)
  then obtain c where c: "fs (dist n) = Some c" "copy_files names (fs(bundled n \<mapsto> c)) = Inr fs'"
    by (auto simp: bindE_Inr_iff read_file_def split: option.splits)
  have d: "(fs(bundled n \<mapsto> c)) (dist f) = fs (dist f)" for f using dist_not_bundled[of f n] by simp
  have b: "(fs(bundled n \<mapsto> c)) (bundled f) = (if f = n then Some c else fs (bundled f))" for f
    by (simp add: bundled_inj)
  show ?case using Cons.IH[OF c(2)] c(1) unfolding d b by (cases "n \<in> set names") auto
qed simp

text \<open>What the Mac app bundles is what the build left in \<open>dist\<close>.\<close>

lemma bundle_mac_copies:
  assumes "bundle_mac bundle fs = Inr fs'"
  shows "\<exists>built. build_charts bundle fs = Inr built \<and>
    (\<forall>f \<in> set bundle_files. fs' (bundled f) = built (dist f) \<and> built (dist f) \<noteq> None) \<and>
    fs' (bundled (lit ''index.html'')) = Some chart_html"
proof -
  obtain built where b: "build_charts bundle fs = Inr built" "copy_files bundle_files built = Inr fs'"
    using assms by (auto simp: bundle_mac_def bindE_Inr_iff)
  moreover have "built (dist (lit ''index.html'')) = Some chart_html"
    using b(1) by (auto simp: build_charts_def bindE_Inr_iff)
  moreover have "lit ''index.html'' \<in> set bundle_files" by (simp add: bundle_files_def)
  ultimately show ?thesis using copy_files_copies[OF b(2)] by auto
qed

end
