(* ===== verification/Lang_Schema.thy ===== *)
theory Lang_Schema
  imports Lang_Syntax Js_Compare
begin

text \<open>
  Values of the renderer of OpenUI's \<open>lang-core\<close> and the check of a value against a JSON Schema,
  read from the bundle \<open>web/artifact.js\<close>: \<open>yi\<close>, \<open>vc\<close>, \<open>V3\<close>, \<open>RT\<close> and \<open>lh\<close> with its parts. The schemas
  are what zod prints for the properties of the components; they stay JSON documents (\<open>jsv\<close>), and
  where JSON Schema has a list the model reads anything else as the empty list.
\<close>

section \<open>Values\<close>

text \<open>
  A syntax tree after references are resolved: a call may have got its arguments by name
  (\<open>mappedProps\<close>), and \<open>NRuntime\<close> says whether it refers to a mutation.
\<close>

datatype rnode =
    NComp jsstr "rnode list" "(jsstr \<times> rnode) list option" bool
  | NStr jsstr
  | NNum jsnum
  | NBool bool
  | NNull
  | NArr "rnode list"
  | NObj "(jsstr \<times> rnode) list"
  | NRef jsstr
  | NPh jsstr
  | NState jsstr
  | NRuntime jsstr bool
  | NBin jsstr rnode rnode
  | NUn jsstr rnode
  | NTern rnode rnode rnode
  | NMember rnode jsstr
  | NIndex rnode rnode
  | NAssign jsstr rnode

datatype rval =
    VUndef
  | VNull
  | VBool bool
  | VNum jsnum
  | VStr jsstr
  | VArr "rval list"
  | VObj "(jsstr \<times> rval) list"
  | VElem jsstr "(jsstr \<times> rval) list" bool bool "jsstr option"
      \<comment> \<open>\<open>typeName\<close>, \<open>props\<close>, \<open>partial\<close>, \<open>hasDynamicProps\<close>, \<open>statementId\<close>\<close>
  | VNode rnode

text \<open>The tree as the parser gives it.\<close>

fun raw_node :: "node \<Rightarrow> rnode" where
  "raw_node (Comp name args fn) = NComp name (map raw_node args) None fn"
| "raw_node (Str s) = NStr s"
| "raw_node (Num x) = NNum x"
| "raw_node (Bool b) = NBool b"
| "raw_node Null = NNull"
| "raw_node (Arr els) = NArr (map raw_node els)"
| "raw_node (Obj es) = NObj (map (map_prod id raw_node) es)"
| "raw_node (Ref x) = NRef x"
| "raw_node (Ph x) = NPh x"
| "raw_node (StateRef x) = NState x"
| "raw_node (RuntimeRef x t) = NRuntime x (t = lit ''mutation'')"
| "raw_node (BinOp op a b) = NBin op (raw_node a) (raw_node b)"
| "raw_node (UnaryOp op a) = NUn op (raw_node a)"
| "raw_node (Ternary a b c) = NTern (raw_node a) (raw_node b) (raw_node c)"
| "raw_node (Member a f) = NMember (raw_node a) f"
| "raw_node (Index a b) = NIndex (raw_node a) (raw_node b)"
| "raw_node (Assign x a) = NAssign x (raw_node a)"

fun of_json :: "jsv \<Rightarrow> rval" where
  "of_json JUndef = VUndef"
| "of_json JNull = VNull"
| "of_json (JBool b) = VBool b"
| "of_json (JNum x) = VNum x"
| "of_json (JStr s) = VStr s"
| "of_json (JArr xs) = VArr (map of_json xs)"
| "of_json (JObj kvs) = VObj (map (map_prod id of_json) kvs)"

fun absent :: "rval \<Rightarrow> bool" where   \<comment> \<open>\<open>v == null\<close>\<close>
  "absent VUndef = True"
| "absent VNull = True"
| "absent v = False"

fun put_field :: "(jsstr \<times> 'v) list \<Rightarrow> jsstr \<Rightarrow> 'v \<Rightarrow> (jsstr \<times> 'v) list" where   \<comment> \<open>\<open>o[k] = v\<close>\<close>
  "put_field [] k v = [(k, v)]"
| "put_field (e # kvs) k v = (if fst e = k then (k, v) # kvs else e # put_field kvs k v)"

definition drop_field :: "(jsstr \<times> 'v) list \<Rightarrow> jsstr \<Rightarrow> (jsstr \<times> 'v) list" where   \<comment> \<open>\<open>delete o[k]\<close>\<close>
  "drop_field kvs k = filter (\<lambda>e. fst e \<noteq> k) kvs"

definition put_all :: "(jsstr \<times> 'v) list \<Rightarrow> (jsstr \<times> 'v) list" where
  "put_all kvs = foldl (\<lambda>acc e. put_field acc (fst e) (snd e)) [] kvs"

text \<open>\<open>vc\<close>: an object that passes for a syntax tree, and \<open>yi\<close>: one that passes for an element.\<close>

definition node_kinds :: "jsstr list" where
  "node_kinds = [lit ''Comp'', lit ''Ref'', lit ''StateRef'', lit ''RuntimeRef'', lit ''BinOp'', lit ''UnaryOp'',
     lit ''Ternary'', lit ''Member'', lit ''Index'', lit ''Assign'', lit ''Str'', lit ''Num'', lit ''Bool'', lit ''Null'',
     lit ''Arr'', lit ''Obj'', lit ''Ph'']"

definition kind_of :: "(jsstr \<times> rval) list \<Rightarrow> bool" where
  "kind_of kvs \<longleftrightarrow> (case map_of kvs (lit ''k'') of Some (VStr s) \<Rightarrow> s \<in> set node_kinds | _ \<Rightarrow> False)"

fun is_node :: "rval \<Rightarrow> bool" where
  "is_node (VNode _) = True"
| "is_node (VObj kvs) = kind_of kvs"
| "is_node _ = False"

fun object_like :: "rval \<Rightarrow> bool" where   \<comment> \<open>\<open>typeof v === "object" && v !== null\<close>\<close>
  "object_like (VArr _) = True"
| "object_like (VObj _) = True"
| "object_like (VElem _ _ _ _ _) = True"
| "object_like (VNode _) = True"
| "object_like _ = False"

definition element_object :: "(jsstr \<times> rval) list \<Rightarrow> bool" where
  "element_object kvs \<longleftrightarrow> map_of kvs (lit ''type'') = Some (VStr (lit ''element'')) \<and>
     (case map_of kvs (lit ''typeName'') of Some (VStr _) \<Rightarrow> True | _ \<Rightarrow> False) \<and>
     (case map_of kvs (lit ''props'') of Some p \<Rightarrow> object_like p | None \<Rightarrow> False) \<and>
     (case map_of kvs (lit ''partial'') of Some (VBool _) \<Rightarrow> True | _ \<Rightarrow> False)"

fun is_element :: "rval \<Rightarrow> bool" where
  "is_element (VElem _ _ _ _ _) = True"
| "is_element (VObj kvs) = element_object kvs"
| "is_element _ = False"

fun type_name :: "rval \<Rightarrow> jsstr" where   \<comment> \<open>\<open>typeName\<close> of an element\<close>
  "type_name (VElem n _ _ _ _) = n"
| "type_name (VObj kvs) = (case map_of kvs (lit ''typeName'') of Some (VStr n) \<Rightarrow> n | _ \<Rightarrow> [])"
| "type_name _ = []"

text \<open>\<open>RT\<close>: the value of a literal; and \<open>V3\<close>: the literal of a value, which holds no element.\<close>

fun those_fields :: "(jsstr \<times> 'v option) list \<Rightarrow> (jsstr \<times> 'v) list option" where
  "those_fields [] = Some []"
| "those_fields (e # es) = (case (snd e, those_fields es) of (Some v, Some r) \<Rightarrow> Some ((fst e, v) # r) | _ \<Rightarrow> None)"

fun literal_value :: "rnode \<Rightarrow> rval option" where
  "literal_value (NStr s) = Some (VStr s)"
| "literal_value (NNum x) = Some (VNum x)"
| "literal_value (NBool b) = Some (VBool b)"
| "literal_value NNull = Some VNull"
| "literal_value (NArr els) = map_option VArr (those (map literal_value els))"
| "literal_value (NObj es) =
     map_option (VObj \<circ> put_all) (those_fields (map (map_prod id literal_value) es))"
| "literal_value _ = None"

fun literal_node :: "rval \<Rightarrow> rnode" where
  "literal_node (VStr s) = NStr s"
| "literal_node (VNum x) = NNum x"
| "literal_node (VBool b) = NBool b"
| "literal_node (VArr xs) = NArr (map literal_node xs)"
| "literal_node (VObj kvs) = NObj (map (map_prod id literal_node) kvs)"
| "literal_node _ = NNull"

section \<open>Issues\<close>

datatype issue_code =
    TypeMismatch jsstr jsstr            \<comment> \<open>expected, actual\<close>
  | MissingRequired "jsstr option"      \<comment> \<open>signature\<close>
  | NullRequired "jsstr option"
  | UnknownComponent "jsstr list"       \<comment> \<open>available\<close>
  | InlineReserved
  | ExcessArgs nat nat                  \<comment> \<open>declared, got\<close>
  | UnknownFunction
  | NoRoot jsstr                        \<comment> \<open>reason\<close>

record issue =
  i_code :: issue_code
  i_component :: jsstr
  i_path :: jsstr
  i_statement :: "jsstr option"

definition em_dash :: jsstr where
  "em_dash = lit '' '' @ [0x2014] @ lit '' ''"

definition signature_text :: "jsstr option \<Rightarrow> jsstr" where
  "signature_text s = (case s of Some t \<Rightarrow> if t = [] then [] else em_dash @ lit ''signature: '' @ t | None \<Rightarrow> [])"

fun issue_text :: "jsstr \<Rightarrow> jsstr \<Rightarrow> issue_code \<Rightarrow> jsstr" where   \<comment> \<open>\<open>Iqt\<close>\<close>
  "issue_text e t (TypeMismatch expected actual) =
     lit ''field '' @ [34] @ t @ [34] @ lit '' expects '' @ expected @ lit '' but got '' @ actual"
| "issue_text e t (MissingRequired s) = lit ''missing required field '' @ [34] @ t @ [34] @ signature_text s"
| "issue_text e t (NullRequired s) = lit ''required field '' @ [34] @ t @ [34] @ lit '' cannot be null'' @ signature_text s"
| "issue_text e t (UnknownComponent av) =
     lit ''Unknown component '' @ [34] @ e @ [34] @ em_dash @ lit ''not found in catalog or builtins'' @
     (if av = [] then [] else lit ''. Available components: '' @ join_with (lit '', '') av)"
| "issue_text e t InlineReserved =
     e @ lit ''() must be declared as a top-level statement, not used inline as a value''"
| "issue_text e t (ExcessArgs declared got) =
     e @ lit '' takes '' @ nat_str declared @ lit '' arg(s), got '' @ nat_str got @ lit '' ('' @ nat_str (got - declared) @
     lit '' excess dropped)''"
| "issue_text e t UnknownFunction =
     lit ''Unknown function '' @ [34] @ lit ''@'' @ e @ [34] @
     lit '': not a built-in or action step. The call evaluates to null''"
| "issue_text e t (NoRoot reason) =
     (if reason = lit ''not-component'' then lit ''root does not evaluate to a component''
      else if reason = lit ''fallback''
      then lit ''No root statement. Rendering the first statement that calls the root component '' @ e
      else if e \<noteq> [] then lit ''No root statement, and no statement calls the root component '' @ e
      else lit ''No root statement'')"

section \<open>Schemas\<close>

definition elems :: "jsv \<Rightarrow> jsv list" where
  "elems v = (case v of JArr xs \<Rightarrow> xs | _ \<Rightarrow> [])"

definition has_key :: "jsv \<Rightarrow> jsstr \<Rightarrow> bool" where   \<comment> \<open>\<open>k in v\<close>\<close>
  "has_key v k \<longleftrightarrow> own_prop v k \<noteq> None"

definition plain_object :: "jsv \<Rightarrow> bool" where
  "plain_object v \<longleftrightarrow> (case v of JObj _ \<Rightarrow> True | _ \<Rightarrow> False)"

fun after_slash :: "jsstr \<Rightarrow> jsstr \<Rightarrow> jsstr" where   \<comment> \<open>\<open>split("/").pop()\<close>\<close>
  "after_slash acc [] = rev acc"
| "after_slash acc (c # s) = (if c = 47 then after_slash [] s else after_slash (c # acc) s)"

definition ref_name :: "jsv \<Rightarrow> jsstr option" where   \<comment> \<open>\<open>wae\<close>\<close>
  "ref_name t = (case prop_or_undef t (lit ''$ref'') of JStr s \<Rightarrow> Some (after_slash [] s) | _ \<Rightarrow> None)"

definition is_union :: "jsv \<Rightarrow> bool" where   \<comment> \<open>\<open>Sae\<close>\<close>
  "is_union t \<longleftrightarrow> has_key t (lit ''$ref'') \<or> has_key t (lit ''anyOf'') \<or> has_key t (lit ''oneOf'') \<or> has_key t (lit ''allOf'')"

definition enum_values :: "jsv \<Rightarrow> jsv list option" where   \<comment> \<open>\<open>_ae\<close>\<close>
  "enum_values t =
     (case prop_or_undef t (lit ''enum'') of JArr xs \<Rightarrow> Some xs
      | _ \<Rightarrow> if has_key t (lit ''const'') then Some [prop_or_undef t (lit ''const'')] else None)"

definition expected_type :: "jsv \<Rightarrow> jsstr option" where
  "expected_type t =
     (let ty = prop_or_undef t (lit ''type'') in
      if enum_values t \<noteq> None then None
      else if ty = JStr (lit ''string'') then Some (lit ''string'')
      else if ty = JStr (lit ''number'') \<or> ty = JStr (lit ''integer'') then Some (lit ''number'')
      else if ty = JStr (lit ''boolean'') then Some (lit ''boolean'') else None)"

definition default_of :: "jsv \<Rightarrow> jsv" where   \<comment> \<open>\<open>Z3\<close>\<close>
  "default_of t = (if plain_object t then prop_or_undef t (lit ''default'') else JUndef)"

definition parts_of :: "jsv \<Rightarrow> jsstr option list" where   \<comment> \<open>\<open>Iae\<close>\<close>
  "parts_of t =
     map ref_name (if \<not> nullish (prop_or_undef t (lit ''anyOf'')) then elems (prop_or_undef t (lit ''anyOf''))
       else if \<not> nullish (prop_or_undef t (lit ''oneOf'')) then elems (prop_or_undef t (lit ''oneOf'')) else [t])"

fun json_like :: "rval \<Rightarrow> jsv" where   \<comment> \<open>a string, Number or boolean as the JSON value it is\<close>
  "json_like (VStr s) = JStr s"
| "json_like (VNum x) = JNum x"
| "json_like (VBool b) = JBool b"
| "json_like _ = JUndef"

fun type_of :: "rval \<Rightarrow> jsstr" where
  "type_of VUndef = lit ''undefined''"
| "type_of (VBool _) = lit ''boolean''"
| "type_of (VNum _) = lit ''number''"
| "type_of (VStr _) = lit ''string''"
| "type_of _ = lit ''object''"

definition kind_text :: "rval \<Rightarrow> jsstr" where   \<comment> \<open>\<open>WT\<close>\<close>
  "kind_text v = (case v of VArr _ \<Rightarrow> lit ''array'' | _ \<Rightarrow> type_of v)"

text \<open>\<open>_qt\<close> and \<open>Cae\<close>: the signature of a component in messages.\<close>

definition type_label :: "jsv \<Rightarrow> jsstr option" where
  "type_label t =
     (if \<not> plain_object t then None
      else if ref_name t \<noteq> None \<and> ref_name t \<noteq> Some [] then ref_name t
      else case enum_values t of Some xs \<Rightarrow> Some (join_with [124] (map json_text xs))
        | None \<Rightarrow> (case expected_type t of Some e \<Rightarrow> Some e
           | None \<Rightarrow> (case prop_or_undef t (lit ''type'') of JStr s \<Rightarrow> Some s | _ \<Rightarrow> None)))"

record param =
  p_name :: jsstr
  p_required :: bool
  p_default :: jsv   \<comment> \<open>\<open>JUndef\<close> without one\<close>
  p_schema :: jsv

definition param_text :: "param \<Rightarrow> jsstr" where
  "param_text p =
     (let n = p_name p @ (if p_required p then lit ''*'' else []) in
      case type_label (p_schema p) of Some a \<Rightarrow> if a \<noteq> [] then n @ lit '': '' @ a else n | None \<Rightarrow> n)"

definition signature_of :: "jsstr \<Rightarrow> param list \<Rightarrow> jsstr" where
  "signature_of e ps = e @ lit ''('' @ join_with (lit '', '') (map param_text ps) @ lit '')''"

end
