(* ===== verification/Lang_Check.thy ===== *)
theory Lang_Check
  imports Lang_Schema
begin

text \<open>
  The check of a value against a JSON Schema: \<open>lh\<close> with \<open>Eqt\<close> (objects), \<open>Aqt\<close> (arrays),
  \<open>Tqt\<close> and \<open>Cqt\<close> (scalars), \<open>Mqt\<close> (elements) and \<open>Lqt\<close> (unions) of the bundle
  \<open>web/artifact.js\<close>. A value that does not pass is \<open>None\<close> (the symbol \<open>invalid\<close>); the code's
  list of errors is returned beside it. \<open>conforms\<close> is the specification: what passes conforms.
\<close>

section \<open>Parts\<close>

record scope =
  c_component :: jsstr
  c_statement :: "jsstr option"
  c_partial :: bool
  c_known :: "jsstr list"   \<comment> \<open>the components of the catalog\<close>

definition issue_at :: "scope \<Rightarrow> jsstr \<Rightarrow> issue_code \<Rightarrow> issue" where   \<comment> \<open>\<open>Ma\<close>\<close>
  "issue_at sc path code =
     \<lparr>i_code = code, i_component = c_component sc, i_path = path, i_statement = c_statement sc\<rparr>"

definition settle :: "bool \<Rightarrow> jsv \<Rightarrow> rval option" where   \<comment> \<open>\<open>ZT\<close>\<close>
  "settle required d = (if d \<noteq> JUndef then Some (of_json d) else if required then None else Some VUndef)"

definition wants_literal :: "jsv \<Rightarrow> bool" where
  "wants_literal t \<longleftrightarrow> is_str (prop_or_undef t (lit ''type'')) \<or> enum_values t \<noteq> None"

definition element_issue :: "jsv \<Rightarrow> rval \<Rightarrow> issue_code option" where
  "element_issue t v =
     (if \<not> is_union t \<and> wants_literal t
      then Some (TypeMismatch (case prop_or_undef t (lit ''type'') of JStr s \<Rightarrow> s | _ \<Rightarrow> lit ''a literal value'')
        (lit ''component '' @ [34] @ type_name v @ [34]))
      else None)"

definition only_components :: "scope \<Rightarrow> jsv \<Rightarrow> bool" where
  "only_components sc t \<longleftrightarrow> parts_of t \<noteq> [] \<and>
     list_all (\<lambda>r. case r of Some n \<Rightarrow> n \<in> set (c_known sc) | None \<Rightarrow> False) (parts_of t)"

definition union_issue :: "jsv \<Rightarrow> rval \<Rightarrow> issue_code" where
  "union_issue t v = TypeMismatch
     (join_with (lit '' | '') (map (\<lambda>r. case r of Some n \<Rightarrow> n | None \<Rightarrow> []) (parts_of t)))
     (case v of VArr _ \<Rightarrow> lit ''array'' | VObj _ \<Rightarrow> lit ''plain object'' | _ \<Rightarrow> type_of v)"

fun same_zero :: "jsv \<Rightarrow> jsv \<Rightarrow> bool" where   \<comment> \<open>how \<open>includes\<close> compares\<close>
  "same_zero (JNum a) (JNum b) = (num_same a b \<or> a = NaN \<and> b = NaN)"
| "same_zero a b = (a = b)"

definition literal_types :: "jsstr list" where
  "literal_types = [lit ''string'', lit ''number'', lit ''boolean'']"

definition literal_issue :: "scope \<Rightarrow> jsv \<Rightarrow> rval \<Rightarrow> issue_code option" where
  "literal_issue sc t v =
     (case enum_values t of
        Some xs \<Rightarrow>
          if c_partial sc \<or> type_of v \<notin> set literal_types \<or> list_ex (same_zero (json_like v)) xs then None
          else Some (TypeMismatch (lit ''one of ['' @ join_with (lit '', '') (map json_text xs) @ lit '']'')
            (json_text (json_like v)))
      | None \<Rightarrow>
          (case expected_type t of
             Some e \<Rightarrow> if e \<noteq> type_of v then Some (TypeMismatch e (kind_text v)) else None
           | None \<Rightarrow> None))"

definition schema_props :: "jsv \<Rightarrow> (jsstr \<times> jsv) list" where
  "schema_props t =
     (let p = prop_or_undef t (lit ''properties'') in if is_object p then entries_of p else [])"

definition required_keys :: "jsv \<Rightarrow> jsstr list" where
  "required_keys t = map to_str (elems (prop_or_undef t (lit ''required'')))"

definition prop_schema :: "(jsstr \<times> jsv) list \<Rightarrow> jsstr \<Rightarrow> jsv" where
  "prop_schema props d = (case map_of props d of Some s \<Rightarrow> s | None \<Rightarrow> JUndef)"

definition sub_path :: "jsstr \<Rightarrow> jsstr \<Rightarrow> jsstr" where
  "sub_path path k = path @ [47] @ k"

definition lacks :: "(jsstr \<times> rval) list \<Rightarrow> jsstr \<Rightarrow> bool" where
  "lacks kvs d \<longleftrightarrow> (case map_of kvs d of None \<Rightarrow> True | Some v \<Rightarrow> absent v)"

text \<open>The required properties that are absent: their defaults, or an issue.\<close>

fun fill_required :: "scope \<Rightarrow> (jsstr \<times> jsv) list \<Rightarrow> jsstr \<Rightarrow> (jsstr \<times> rval) list \<Rightarrow> jsstr list \<Rightarrow>
    (jsstr \<times> rval) list \<Rightarrow> bool \<times> (jsstr \<times> rval) list \<times> issue list" where
  "fill_required sc props path old [] cur = (False, cur, [])"
| "fill_required sc props path old (d # ds) cur =
     (if lacks old d then
        (if default_of (prop_schema props d) \<noteq> JUndef
         then fill_required sc props path old ds (put_field cur d (of_json (default_of (prop_schema props d))))
         else (case fill_required sc props path old ds cur of (bad, cur', is) \<Rightarrow>
           (True, cur', issue_at sc (sub_path path d)
              (if map_of old d \<noteq> None then NullRequired None else MissingRequired None) # is)))
      else fill_required sc props path old ds cur)"

section \<open>The check\<close>

type_synonym fields = "(jsstr \<times> rval) list"

text \<open>The fields after the check of one property turned its value \<open>x\<close> into \<open>m\<close>.\<close>

definition step_fields :: "fields \<Rightarrow> jsstr \<Rightarrow> rval \<Rightarrow> rval \<Rightarrow> fields" where
  "step_fields cur d x m = (if m = x then cur else if m = VUndef then drop_field cur d else put_field cur d m)"

definition fields_size :: "fields \<Rightarrow> nat" where
  "fields_size kvs = size_list (size_prod (\<lambda>_. 0) size) kvs"

lemma field_size: "map_of kvs d = Some x \<Longrightarrow> size x < fields_size kvs"
proof -
  assume "map_of kvs d = Some x"
  then have "(d, x) \<in> set kvs" by (rule map_of_SomeD)
  then show ?thesis unfolding fields_size_def
    by (induction kvs) auto
qed

lemma member_size: "e \<in> set kvs \<Longrightarrow> size (snd e) < fields_size kvs" for kvs :: fields
  unfolding fields_size_def by (induction kvs) auto

lemma item_size: "x \<in> set xs \<Longrightarrow> size x < size (VArr xs)"
  by (induction xs) auto

function (sequential) check_value :: "scope \<Rightarrow> jsv \<Rightarrow> rval \<Rightarrow> jsstr \<Rightarrow> rval option \<times> issue list"
and check_keys :: "scope \<Rightarrow> jsstr list \<Rightarrow> (jsstr \<times> jsv) list \<Rightarrow> jsstr \<Rightarrow> fields \<Rightarrow> jsstr list \<Rightarrow> fields \<Rightarrow>
    bool \<times> fields \<times> issue list"
and check_items :: "scope \<Rightarrow> jsv \<Rightarrow> jsstr \<Rightarrow> nat \<Rightarrow> rval list \<Rightarrow> rval list \<times> issue list"
where
  "check_value sc t v path =
     (if \<not> plain_object t \<or> absent v \<or> is_node v then (Some v, [])
      else if is_element v then
        (case element_issue t v of Some c \<Rightarrow> (None, [issue_at sc path c]) | None \<Rightarrow> (Some v, []))
      else if is_union t then
        (if only_components sc t then (None, [issue_at sc path (union_issue t v)]) else (Some v, []))
      else if prop_or_undef t (lit ''type'') = JStr (lit ''object'') then
        (case v of
           VObj kvs \<Rightarrow>
             (case fill_required sc (schema_props t) path kvs (if c_partial sc then [] else required_keys t) kvs of
                (bad1, cur, is1) \<Rightarrow>
                  (case check_keys sc (required_keys t) (schema_props t) path kvs (map fst (schema_props t)) cur of
                     (bad2, cur', is2) \<Rightarrow> (if bad1 \<or> bad2 then None else Some (VObj cur'), is1 @ is2)))
         | _ \<Rightarrow> (None, [issue_at sc path (TypeMismatch (lit ''object'') (kind_text v))]))
      else if prop_or_undef t (lit ''type'') = JStr (lit ''array'') then
        (case v of
           VArr xs \<Rightarrow>
             if plain_object (prop_or_undef t (lit ''items''))
             then (case check_items sc (prop_or_undef t (lit ''items'')) path 0 xs of (ys, is) \<Rightarrow> (Some (VArr ys), is))
             else (Some v, [])
         | _ \<Rightarrow> (None, [issue_at sc path (TypeMismatch (lit ''array'') (kind_text v))]))
      else (case literal_issue sc t v of Some c \<Rightarrow> (None, [issue_at sc path c]) | None \<Rightarrow> (Some v, [])))"
| "check_keys sc req props path kvs [] cur = (False, cur, [])"
| "check_keys sc req props path kvs (d # ds) cur =
     (case map_of kvs d of
        None \<Rightarrow> check_keys sc req props path kvs ds cur
      | Some x \<Rightarrow>
          (case check_value sc (prop_schema props d) x (sub_path path d) of
             (r, is) \<Rightarrow>
               (case (case r of Some m \<Rightarrow> Some m | None \<Rightarrow> settle (d \<in> set req) (default_of (prop_schema props d))) of
                  None \<Rightarrow> (case check_keys sc req props path kvs ds cur of (bad, cur', is') \<Rightarrow> (True, cur', is @ is'))
                | Some m \<Rightarrow>
                    (case check_keys sc req props path kvs ds (step_fields cur d x m) of
                       (bad, cur', is') \<Rightarrow> (bad, cur', is @ is')))))"
| "check_items sc t path l [] = ([], [])"
| "check_items sc t path l (x # xs) =
     (case check_value sc t x (sub_path path (nat_str l)) of
        (r, is) \<Rightarrow> (case check_items sc t path (l + 1) xs of
           (ys, is') \<Rightarrow> ((case r of Some y \<Rightarrow> y # ys | None \<Rightarrow> ys), is @ is')))"
  by pat_completeness auto
termination
  by (relation "measures
       [\<lambda>x. case x of Inl (sc, t, v, path) \<Rightarrow> size v
          | Inr (Inl (sc, req, props, path, kvs, ds, cur)) \<Rightarrow> fields_size kvs
          | Inr (Inr (sc, t, path, l, xs)) \<Rightarrow> size_list size xs,
        \<lambda>x. case x of Inr (Inl (sc, req, props, path, kvs, ds, cur)) \<Rightarrow> length ds | _ \<Rightarrow> 0]")
    (auto simp: field_size, auto simp: fields_size_def)

declare check_value.simps [simp del]

section \<open>Conforming values\<close>

text \<open>
  What a value that passes is. References and expressions pass everywhere, since they are
  evaluated later; a property may also be the default of its schema, which is not checked.
\<close>

function conforms :: "scope \<Rightarrow> jsv \<Rightarrow> rval \<Rightarrow> bool" where
  "conforms sc t v \<longleftrightarrow>
     \<not> plain_object t \<or> absent v \<or> is_node v \<or> is_element v \<and> element_issue t v = None \<or>
     (if is_union t then \<not> only_components sc t
      else if prop_or_undef t (lit ''type'') = JStr (lit ''object'') then
        (case v of
           VObj kvs \<Rightarrow>
             (c_partial sc \<or> (\<forall>d \<in> set (required_keys t). \<not> lacks kvs d \<or> default_of (prop_schema (schema_props t) d) \<noteq> JUndef)) \<and>
             (\<forall>e \<in> set kvs. map_of kvs (fst e) = Some (snd e) \<longrightarrow>
               default_of (prop_schema (schema_props t) (fst e)) \<noteq> JUndef \<and>
                 snd e = of_json (default_of (prop_schema (schema_props t) (fst e))) \<or>
               conforms sc (prop_schema (schema_props t) (fst e)) (snd e))
         | _ \<Rightarrow> False)
      else if prop_or_undef t (lit ''type'') = JStr (lit ''array'') then
        (case v of
           VArr xs \<Rightarrow> plain_object (prop_or_undef t (lit ''items'')) \<longrightarrow>
             (\<forall>x \<in> set xs. conforms sc (prop_or_undef t (lit ''items'')) x)
         | _ \<Rightarrow> False)
      else literal_issue sc t v = None)"
  by pat_completeness auto
termination
proof (relation "measure (\<lambda>(sc, t, v). size v)", goal_cases)
  case (2 sc t v kvs e)
  then show ?case using member_size[of e kvs] by (simp add: fields_size_def)
next
  case (3 sc t v xs x)
  then show ?case using item_size[of x xs] by simp
qed simp

declare conforms.simps [simp del]

definition field_ok :: "scope \<Rightarrow> jsv \<Rightarrow> rval \<Rightarrow> bool" where
  "field_ok sc s v \<longleftrightarrow> default_of s \<noteq> JUndef \<and> v = of_json (default_of s) \<or> conforms sc s v"

definition field_fits :: "scope \<Rightarrow> (jsstr \<times> jsv) list \<Rightarrow> fields \<Rightarrow> jsstr \<Rightarrow> bool" where
  "field_fits sc props kvs d \<longleftrightarrow> (\<forall>x. map_of kvs d = Some x \<longrightarrow> field_ok sc (prop_schema props d) x)"

lemma map_of_put [simp]: "map_of (put_field kvs k v) = (map_of kvs)(k \<mapsto> v)"
  by (induction kvs) (auto simp: fun_eq_iff)

lemma map_of_drop [simp]: "map_of (drop_field kvs k) = (map_of kvs)(k := None)"
  by (induction kvs) (auto simp: fun_eq_iff drop_field_def)

lemma conforms_object:
  assumes "c_partial sc \<or> (\<forall>d \<in> set (required_keys t). \<not> lacks kvs d \<or> default_of (prop_schema (schema_props t) d) \<noteq> JUndef)"
    and "\<And>d. field_fits sc (schema_props t) kvs d"
    and "prop_or_undef t (lit ''type'') = JStr (lit ''object'')" "\<not> is_union t"
  shows "conforms sc t (VObj kvs)"
proof -
  have "\<forall>e \<in> set kvs. map_of kvs (fst e) = Some (snd e) \<longrightarrow> field_ok sc (prop_schema (schema_props t) (fst e)) (snd e)"
    using assms(2) by (simp add: field_fits_def)
  then show ?thesis
    using assms(1,3-4) by (subst conforms.simps) (simp add: field_ok_def, blast?)
qed

lemma conforms_free: "\<not> plain_object t \<or> absent v \<or> is_node v \<Longrightarrow> conforms sc t v"
  by (subst conforms.simps) blast

lemma fill_required_facts:
  "fill_required sc props path old ds cur = (bad, cur', is) \<Longrightarrow>
    (\<not> bad \<longrightarrow> (\<forall>d \<in> set ds. lacks old d \<longrightarrow> default_of (prop_schema props d) \<noteq> JUndef)) \<and>
    (\<forall>d. map_of cur' d = map_of cur d \<or>
       default_of (prop_schema props d) \<noteq> JUndef \<and> map_of cur' d = Some (of_json (default_of (prop_schema props d))))"
proof (induction ds arbitrary: cur bad cur' "is")
  case (Cons d ds)
  show ?case
  proof (cases "lacks old d \<and> default_of (prop_schema props d) = JUndef")
    case True
    then obtain bad' is' where "fill_required sc props path old ds cur = (bad', cur', is')" and "bad"
      using Cons.prems by (auto split: prod.splits)
    then show ?thesis using Cons.IH by blast
  next
    case False
    let ?c = "if lacks old d then put_field cur d (of_json (default_of (prop_schema props d))) else cur"
    have "fill_required sc props path old ds ?c = (bad, cur', is)"
      using Cons.prems False by (auto split: if_splits)
    from Cons.IH[OF this] show ?thesis
      using False by (auto split: if_splits)
  qed
qed simp

lemma conforms_array:
  assumes "plain_object (prop_or_undef t (lit ''items'')) \<Longrightarrow> \<forall>x \<in> set xs. conforms sc (prop_or_undef t (lit ''items'')) x"
    and "prop_or_undef t (lit ''type'') = JStr (lit ''array'')" "\<not> is_union t"
  shows "conforms sc t (VArr xs)"
proof -
  have "lit ''array'' \<noteq> lit ''object''" by (simp add: lit_def)
  then show ?thesis using assms by (subst conforms.simps) simp
qed

lemma conforms_other:
  "is_element v \<Longrightarrow> element_issue t v = None \<Longrightarrow> conforms sc t v"
  "is_union t \<Longrightarrow> \<not> only_components sc t \<Longrightarrow> conforms sc t v"
  "prop_or_undef t (lit ''type'') \<noteq> JStr (lit ''object'') \<Longrightarrow> prop_or_undef t (lit ''type'') \<noteq> JStr (lit ''array'') \<Longrightarrow>
   \<not> is_union t \<Longrightarrow> literal_issue sc t v = None \<Longrightarrow> conforms sc t v"
  by (subst conforms.simps; simp)+

definition pass_ok :: "scope \<Rightarrow> jsv \<Rightarrow> rval \<Rightarrow> rval option \<times> issue list \<Rightarrow> bool" where
  "pass_ok sc t v r \<longleftrightarrow> (\<forall>v'. fst r = Some v' \<longrightarrow> conforms sc t v' \<and> (v' = v \<or> \<not> absent v'))"

definition keys_ok :: "scope \<Rightarrow> jsstr list \<Rightarrow> (jsstr \<times> jsv) list \<Rightarrow> fields \<Rightarrow> jsstr list \<Rightarrow> fields \<Rightarrow>
    bool \<times> fields \<times> issue list \<Rightarrow> bool" where
  "keys_ok sc req props kvs ds cur r \<longleftrightarrow>
     \<not> fst r \<longrightarrow> (\<forall>d \<in> set ds. map_of cur d = map_of kvs d \<or> field_fits sc props cur d) \<longrightarrow>
     (\<forall>d. d \<in> set ds \<or> field_fits sc props cur d \<longrightarrow> field_fits sc props (fst (snd r)) d) \<and>
     (\<forall>d. d \<in> set req \<longrightarrow> default_of (prop_schema props d) = JUndef \<longrightarrow> \<not> lacks cur d \<longrightarrow> \<not> lacks (fst (snd r)) d)"

lemma step_fields_fit:
  assumes m: "m = x \<and> conforms sc (prop_schema props d) x \<or> m \<noteq> x \<and> m \<noteq> VUndef \<and> \<not> absent m \<and> conforms sc (prop_schema props d) m \<or>
      default_of (prop_schema props d) \<noteq> JUndef \<and> m = of_json (default_of (prop_schema props d)) \<or> m = VUndef \<and> d \<notin> set req"
    and cur: "map_of kvs d = Some x" "map_of cur d = map_of kvs d \<or> field_fits sc props cur d"
  shows "field_fits sc props (step_fields cur d x m) d"
    and "d' \<noteq> d \<Longrightarrow> map_of (step_fields cur d x m) d' = map_of cur d'"
    and "d \<in> set req \<Longrightarrow> default_of (prop_schema props d) = JUndef \<Longrightarrow> \<not> lacks cur d \<Longrightarrow> \<not> lacks (step_fields cur d x m) d"
proof -
  show "field_fits sc props (step_fields cur d x m) d"
    using m cur conforms_free[of "prop_schema props d" VUndef sc] by (auto simp: step_fields_def field_fits_def field_ok_def)
  show "d' \<noteq> d \<Longrightarrow> map_of (step_fields cur d x m) d' = map_of cur d'"
    by (simp add: step_fields_def)
  show "d \<in> set req \<Longrightarrow> default_of (prop_schema props d) = JUndef \<Longrightarrow> \<not> lacks cur d \<Longrightarrow> \<not> lacks (step_fields cur d x m) d"
    using m by (auto simp: step_fields_def lacks_def)
qed

lemma keys_ok_none: "map_of kvs d = None \<Longrightarrow> keys_ok sc req props kvs ds cur r \<Longrightarrow> keys_ok sc req props kvs (d # ds) cur r"
proof -
  assume "map_of kvs d = None" and r: "keys_ok sc req props kvs ds cur r"
  then have "map_of cur d = map_of kvs d \<or> field_fits sc props cur d \<longleftrightarrow> field_fits sc props cur d"
    by (auto simp: field_fits_def)
  then show ?thesis using r unfolding keys_ok_def by (metis list.set_intros(2) set_ConsD)
qed

lemma keys_ok_step:
  assumes step: "field_fits sc props cur' d" "\<And>d'. d' \<noteq> d \<Longrightarrow> map_of cur' d' = map_of cur d'"
      "d \<in> set req \<Longrightarrow> default_of (prop_schema props d) = JUndef \<Longrightarrow> \<not> lacks cur d \<Longrightarrow> \<not> lacks cur' d"
    and rest: "keys_ok sc req props kvs ds cur' r"
  shows "keys_ok sc req props kvs (d # ds) cur r"
  unfolding keys_ok_def
proof (intro impI)
  assume r: "\<not> fst r" and cur: "\<forall>d' \<in> set (d # ds). map_of cur d' = map_of kvs d' \<or> field_fits sc props cur d'"
  have keep: "field_fits sc props cur' d' \<longleftrightarrow> field_fits sc props cur d'" if "d' \<noteq> d" for d'
    using step(2)[OF that] by (simp add: field_fits_def)
  have "\<forall>d' \<in> set ds. map_of cur' d' = map_of kvs d' \<or> field_fits sc props cur' d'"
  proof
    fix d' assume "d' \<in> set ds"
    then show "map_of cur' d' = map_of kvs d' \<or> field_fits sc props cur' d'"
      using cur step(1) step(2)[of d'] keep[of d'] by (cases "d' = d") auto
  qed
  with rest r have fits: "\<And>d'. d' \<in> set ds \<or> field_fits sc props cur' d' \<Longrightarrow> field_fits sc props (fst (snd r)) d'"
    and kept: "\<And>d'. d' \<in> set req \<Longrightarrow> default_of (prop_schema props d') = JUndef \<Longrightarrow> \<not> lacks cur' d' \<Longrightarrow> \<not> lacks (fst (snd r)) d'"
    by (auto simp: keys_ok_def)
  have "field_fits sc props (fst (snd r)) d'" if "d' \<in> set (d # ds) \<or> field_fits sc props cur d'" for d'
    using that fits[of d'] step(1) keep[of d'] by (cases "d' = d") auto
  moreover have "\<not> lacks cur' d'" if "d' \<in> set req" "default_of (prop_schema props d') = JUndef" "\<not> lacks cur d'" for d'
    using that step(3) step(2)[of d'] by (cases "d' = d") (auto simp: lacks_def)
  ultimately show "(\<forall>d'. d' \<in> set (d # ds) \<or> field_fits sc props cur d' \<longrightarrow> field_fits sc props (fst (snd r)) d') \<and>
     (\<forall>d'. d' \<in> set req \<longrightarrow> default_of (prop_schema props d') = JUndef \<longrightarrow> \<not> lacks cur d' \<longrightarrow> \<not> lacks (fst (snd r)) d')"
    using kept by blast
qed

lemma keys_ok_bad: "fst r \<Longrightarrow> keys_ok sc req props kvs ds cur r"
  by (simp add: keys_ok_def)

lemma keys_ok_issues: "keys_ok sc req props kvs ds cur (b, c, is) \<Longrightarrow> keys_ok sc req props kvs ds cur (b, c, is')"
  by (simp add: keys_ok_def)

lemma check_keys_Some:
  assumes "map_of kvs d = Some x"
  shows "check_keys sc req props path kvs (d # ds) cur =
    (case check_value sc (prop_schema props d) x (sub_path path d) of
       (r, is) \<Rightarrow>
         (case (case r of Some m \<Rightarrow> Some m | None \<Rightarrow> settle (d \<in> set req) (default_of (prop_schema props d))) of
            None \<Rightarrow> (case check_keys sc req props path kvs ds cur of (bad, cur', is') \<Rightarrow> (True, cur', is @ is'))
          | Some m \<Rightarrow>
              (case check_keys sc req props path kvs ds (step_fields cur d x m) of
                 (bad, cur', is') \<Rightarrow> (bad, cur', is @ is'))))"
  by (simp only: check_keys.simps assms option.case)

lemma check_keys_step:
  assumes x: "map_of kvs d = Some x"
    and v: "pass_ok sc (prop_schema props d) x (check_value sc (prop_schema props d) x (sub_path path d))"
    and rest: "\<And>cur. keys_ok sc req props kvs ds cur (check_keys sc req props path kvs ds cur)"
  shows "keys_ok sc req props kvs (d # ds) cur (check_keys sc req props path kvs (d # ds) cur)"
proof (cases "map_of cur d = map_of kvs d \<or> field_fits sc props cur d")
  case cur: True
  obtain r "is" where r: "check_value sc (prop_schema props d) x (sub_path path d) = (r, is)" by fastforce
  let ?m = "case r of Some m \<Rightarrow> Some m | None \<Rightarrow> settle (d \<in> set req) (default_of (prop_schema props d))"
  show ?thesis
  proof (cases ?m)
    case None
    then show ?thesis
      by (simp only: check_keys_Some[OF x] r prod.case option.case) (auto intro!: keys_ok_bad split: prod.split)
  next
    case (Some m)
    have "m = x \<and> conforms sc (prop_schema props d) x \<or> m \<noteq> x \<and> m \<noteq> VUndef \<and> \<not> absent m \<and> conforms sc (prop_schema props d) m \<or>
      default_of (prop_schema props d) \<noteq> JUndef \<and> m = of_json (default_of (prop_schema props d)) \<or> m = VUndef \<and> d \<notin> set req"
      using Some v r by (cases r) (auto simp: pass_ok_def settle_def split: if_splits)
    note step = step_fields_fit[OF this x cur]
    have "keys_ok sc req props kvs (d # ds) cur (check_keys sc req props path kvs ds (step_fields cur d x m))"
      by (rule keys_ok_step[OF step(1,2,3) rest])
    then show ?thesis
      by (simp only: check_keys_Some[OF x] r prod.case Some option.case) (auto intro: keys_ok_issues split: prod.split)
  qed
next
  case False
  then show ?thesis by (auto simp: keys_ok_def)
qed

lemma pass_None [simp]: "pass_ok sc t v (None, is)"
  by (simp add: pass_ok_def)

lemma pass_same: "conforms sc t v \<Longrightarrow> pass_ok sc t v (Some v, is)"
  by (simp add: pass_ok_def)

lemma check_object_ok:
  assumes "prop_or_undef t (lit ''type'') = JStr (lit ''object'')" "\<not> is_union t"
    and keys: "\<And>cur. keys_ok sc (required_keys t) (schema_props t) kvs (map fst (schema_props t)) cur
      (check_keys sc (required_keys t) (schema_props t) path kvs (map fst (schema_props t)) cur)"
    and fill: "fill_required sc (schema_props t) path kvs (if c_partial sc then [] else required_keys t) kvs = (False, cur, is1)"
    and run: "check_keys sc (required_keys t) (schema_props t) path kvs (map fst (schema_props t)) cur = (False, cur', is2)"
  shows "conforms sc t (VObj cur')"
proof (rule conforms_object[OF _ _ assms(1,2)])
  let ?props = "schema_props t"
  note facts = fill_required_facts[OF fill]
  have start: "map_of cur d = map_of kvs d \<or> field_fits sc ?props cur d" for d
    using facts by (auto simp: field_fits_def field_ok_def)
  have out: "\<forall>d. d \<in> set (map fst ?props) \<or> field_fits sc ?props cur d \<longrightarrow> field_fits sc ?props cur' d"
    "\<forall>d. d \<in> set (required_keys t) \<longrightarrow> default_of (prop_schema ?props d) = JUndef \<longrightarrow> \<not> lacks cur d \<longrightarrow> \<not> lacks cur' d"
    using keys[of cur] start run unfolding keys_ok_def by simp_all
  show "field_fits sc ?props cur' d" for d
  proof (cases "d \<in> set (map fst ?props)")
    case False
    then have "prop_schema ?props d = JUndef" by (simp add: prop_schema_def map_of_eq_None_iff[THEN iffD2])
    then show ?thesis using conforms_free[of JUndef] by (simp add: field_fits_def field_ok_def plain_object_def)
  qed (use out in blast)
  show "c_partial sc \<or> (\<forall>d \<in> set (required_keys t). \<not> lacks cur' d \<or> default_of (prop_schema ?props d) \<noteq> JUndef)"
  proof (cases "c_partial sc")
    case False
    have "\<not> lacks cur d" if "d \<in> set (required_keys t)" "default_of (prop_schema ?props d) = JUndef" for d
    proof -
      have "map_of cur d = map_of kvs d" using facts that by blast
      then show ?thesis using facts that False by (auto simp: lacks_def)
    qed
    then show ?thesis using out(2) by blast
  qed simp
qed

lemma check_value_cases:
  assumes object: "\<And>kvs cur. v = VObj kvs \<Longrightarrow>
      keys_ok sc (required_keys t) (schema_props t) kvs (map fst (schema_props t)) cur
        (check_keys sc (required_keys t) (schema_props t) path kvs (map fst (schema_props t)) cur)"
    and array: "\<And>xs. v = VArr xs \<Longrightarrow> plain_object (prop_or_undef t (lit ''items'')) \<Longrightarrow>
      \<forall>y \<in> set (fst (check_items sc (prop_or_undef t (lit ''items'')) path 0 xs)). conforms sc (prop_or_undef t (lit ''items'')) y"
  shows "pass_ok sc t v (check_value sc t v path)"
proof -
  note step = check_value.simps[of sc t v path]
  consider (free) "\<not> plain_object t \<or> absent v \<or> is_node v"
    | (elem) "plain_object t" "\<not> absent v" "\<not> is_node v" "is_element v"
    | (union) "plain_object t" "\<not> absent v" "\<not> is_node v" "\<not> is_element v" "is_union t"
    | (object) "plain_object t" "\<not> absent v" "\<not> is_node v" "\<not> is_element v" "\<not> is_union t"
        "prop_or_undef t (lit ''type'') = JStr (lit ''object'')"
    | (array) "plain_object t" "\<not> absent v" "\<not> is_node v" "\<not> is_element v" "\<not> is_union t"
        "prop_or_undef t (lit ''type'') \<noteq> JStr (lit ''object'')" "prop_or_undef t (lit ''type'') = JStr (lit ''array'')"
    | (scalar) "plain_object t" "\<not> absent v" "\<not> is_node v" "\<not> is_element v" "\<not> is_union t"
        "prop_or_undef t (lit ''type'') \<noteq> JStr (lit ''object'')" "prop_or_undef t (lit ''type'') \<noteq> JStr (lit ''array'')"
    by blast
  then show ?thesis
  proof cases
    case free
    then have "check_value sc t v path = (Some v, [])" using step by (simp only: if_True)
    then show ?thesis using conforms_free[OF free] by (simp add: pass_same)
  next
    case elem
    then show ?thesis using step conforms_other(1)[of v t sc] by (simp add: pass_same split: option.split)
  next
    case union
    then show ?thesis using step conforms_other(2)[of t sc v] by (simp add: pass_same)
  next
    case object
    show ?thesis
    proof (cases "\<exists>kvs. v = VObj kvs")
      case True
      then obtain kvs where v: "v = VObj kvs" by blast
      obtain bad1 cur is1 where fill: "fill_required sc (schema_props t) path kvs
          (if c_partial sc then [] else required_keys t) kvs = (bad1, cur, is1)" by (cases rule: prod_cases3) blast
      obtain bad2 cur' is2 where run: "check_keys sc (required_keys t) (schema_props t) path kvs
          (map fst (schema_props t)) cur = (bad2, cur', is2)" by (cases rule: prod_cases3) blast
      have "check_value sc t v path = (if bad1 \<or> bad2 then None else Some (VObj cur'), is1 @ is2)"
        using step object v fill run by simp
      moreover have "conforms sc t (VObj cur')" if "\<not> (bad1 \<or> bad2)"
        using check_object_ok[OF object(6,5) assms(1)[OF v], of cur is1 cur' is2] fill run that by simp
      ultimately show ?thesis by (simp add: pass_ok_def)
    next
      case False
      then show ?thesis using step object by (simp split: rval.split)
    qed
  next
    case array
    have "lit ''array'' \<noteq> lit ''object''" by (simp add: lit_def)
    then show ?thesis
      using step array assms(2) conforms_array[of t _ sc] array(7)
      by (cases v) (auto simp: pass_ok_def split: prod.splits)
  next
    case scalar
    then show ?thesis using step conforms_other(3)[of t sc v] by (simp add: pass_same split: option.split)
  qed
qed

lemma check_keys_ok:
  assumes "\<And>d x s p. map_of kvs d = Some x \<Longrightarrow> pass_ok sc s x (check_value sc s x p)"
  shows "keys_ok sc req props kvs ds cur (check_keys sc req props path kvs ds cur)"
proof (induction ds arbitrary: cur)
  case Nil
  then show ?case by (simp add: keys_ok_def)
next
  case (Cons d ds)
  show ?case
  proof (cases "map_of kvs d")
    case None
    then show ?thesis using keys_ok_none[OF None Cons.IH] by simp
  next
    case (Some x)
    show ?thesis by (rule check_keys_step[OF Some assms[OF Some] Cons.IH])
  qed
qed

lemma check_items_ok:
  "(\<And>x p. x \<in> set xs \<Longrightarrow> pass_ok sc t x (check_value sc t x p)) \<Longrightarrow>
    \<forall>y \<in> set (fst (check_items sc t path l xs)). conforms sc t y"
proof (induction xs arbitrary: l)
  case (Cons x xs)
  then have "pass_ok sc t x (check_value sc t x (sub_path path (nat_str l)))"
    and "\<forall>y \<in> set (fst (check_items sc t path (l + 1) xs)). conforms sc t y" by simp_all
  then show ?case by (auto simp: pass_ok_def split: prod.splits option.splits)
qed simp

lemma check_passes: "pass_ok sc t v (check_value sc t v path)"
proof (induction v arbitrary: t path rule: measure_induct_rule[of size])
  case (less v)
  show ?case
  proof (rule check_value_cases)
    fix kvs cur assume v: "v = VObj kvs"
    show "keys_ok sc (required_keys t) (schema_props t) kvs (map fst (schema_props t)) cur
        (check_keys sc (required_keys t) (schema_props t) path kvs (map fst (schema_props t)) cur)"
      by (rule check_keys_ok) (use less field_size v in \<open>fastforce simp: fields_size_def\<close>)
  next
    fix xs assume "v = VArr xs"
    then show "\<forall>y \<in> set (fst (check_items sc (prop_or_undef t (lit ''items'')) path 0 xs)). conforms sc (prop_or_undef t (lit ''items'')) y"
      by (intro check_items_ok) (use less item_size in blast)
  qed
qed

theorem check_sound: "fst (check_value sc t v path) = Some v' \<Longrightarrow> conforms sc t v'"
  using check_passes[of sc t v path] by (simp add: pass_ok_def)

end
