(* ===== verification/Lang_Cleanup.thy ===== *)
theory Lang_Cleanup
  imports Lang_Tokens
begin

text \<open>
  What \<open>lang-core\<close> does to a program's text before it is tokenized, read from the bundle
  \<open>web/artifact.js\<close>: code fences (\<open>Pqt\<close>, with \<open>rae\<close> for strings) and comments (\<open>Fqt\<close>) go,
  the completed lines are cut off at top-level newlines (the \<open>u\<close> of \<open>Bqt\<close>), and an unfinished
  rest gets its closing quotes and brackets (\<open>Nqt\<close>). A position in the text is the rest of the
  text from there. The last section shows that none of this touches a \<open>tidy\<close> text.
\<close>

section \<open>Code fences\<close>

text \<open>The rest after the closing quote of a double-quoted string, from after its opening quote.\<close>

fun after_string :: "jsstr \<Rightarrow> jsstr" where
  "after_string [] = []"
| "after_string (c # s) =
     (if c = 92 then (case s of [] \<Rightarrow> [] | d # s' \<Rightarrow> after_string s')
      else if c = 34 then s else after_string s)"

lemma after_string_length: "length (after_string s) \<le> length s"
proof (induction s rule: after_string.induct)
  case (2 c s)
  then show ?case by (cases "c = 92"; cases s) fastforce+
qed simp

definition fence :: jsstr where
  "fence = [96, 96, 96]"

text \<open>The text from the first fence outside a string on.\<close>

function find_fence :: "jsstr \<Rightarrow> jsstr option" where
  "find_fence [] = None"
| "find_fence (c # s) =
     (if c = 34 then find_fence (after_string s)
      else if starts_with (c # s) fence then Some (c # s) else find_fence s)"
  by pat_completeness auto
termination
  by (relation "measure length") (auto simp: less_Suc_eq_le after_string_length)

lemma find_fence_length: "find_fence s = Some t \<Longrightarrow> length t \<le> length s"
proof (induction s rule: find_fence.induct)
  case (2 c s)
  then show ?case using after_string_length[of s] by (auto split: if_splits)
qed simp

text \<open>
  The contents of the fenced blocks. The line of a fence is dropped; a fence on the last line
  gives an empty block, and a block that is not closed goes to the end.
\<close>

function fenced :: "jsstr \<Rightarrow> jsstr list" where
  "fenced s =
     (case find_fence s of None \<Rightarrow> []
      | Some at \<Rightarrow>
          (case dropWhile (\<lambda>c. c \<noteq> 10) (drop 3 at) of
             [] \<Rightarrow> [[]]
           | nl # block \<Rightarrow>
               (case find_fence block of
                  None \<Rightarrow> [block]
                | Some close \<Rightarrow> take (length block - length close) block # fenced (drop 3 close))))"
  by pat_completeness auto
termination
proof (relation "measure length", goal_cases)
  case (2 s at nl block close)
  have "length (dropWhile (\<lambda>c. c \<noteq> 10) (drop 3 at)) \<le> length at"
    by (rule order_trans[OF length_dropWhile_le]) simp
  then show ?case
    using 2 find_fence_length[OF 2(1)] find_fence_length[OF 2(3)] by simp
qed simp

declare fenced.simps [simp del]

text \<open>
  After the search the code asks again whether the text starts with a fence; by \<open>fence_found\<close>
  the search has then found that one, so that this branch is never taken.
\<close>

definition strip_fences :: "jsstr \<Rightarrow> jsstr" where
  "strip_fences e = (if fenced e \<noteq> [] then join_with [10] (fenced e) else e)"

lemma fence_found: "fenced (fence @ s) \<noteq> []"
proof -
  have "find_fence (fence @ s) = Some (fence @ s)" by (simp add: fence_def starts_with_def)
  then show ?thesis by (subst fenced.simps) (simp split: list.split option.split)
qed

section \<open>Comments\<close>

text \<open>
  One line: the code in front of a comment, whether there was a comment, and the quote that is
  open at its end. A backslash at the end of a line does not escape.
\<close>

definition keep :: "code_unit \<Rightarrow> (jsstr \<times> bool) \<times> 'q \<Rightarrow> (jsstr \<times> bool) \<times> 'q" where
  "keep c r = (case r of ((code, commented), q) \<Rightarrow> ((c # code, commented), q))"

fun line_code :: "code_unit option \<Rightarrow> jsstr \<Rightarrow> (jsstr \<times> bool) \<times> code_unit option" where
  "line_code q [] = (([], False), q)"
| "line_code (Some d) (c # s) =
     (if c = 92 \<and> s \<noteq> [] then (case s of e # s' \<Rightarrow> keep c (keep e (line_code (Some d) s')) | [] \<Rightarrow> (([c], False), Some d))
      else keep c (line_code (if c = d then None else Some d) s))"
| "line_code None (c # s) =
     (if c = 34 \<or> c = 39 then keep c (line_code (Some c) s)
      else if (c = 47 \<and> s \<noteq> [] \<and> hd s = 47) \<or> c = 35 then (([], True), None)
      else keep c (line_code None s))"

fun strip_lines :: "code_unit option \<Rightarrow> jsstr list \<Rightarrow> jsstr list" where
  "strip_lines q [] = []"
| "strip_lines q (l # ls) =
     (case line_code q l of ((code, commented), q') \<Rightarrow> (if commented then trim_end code else code) # strip_lines q' ls)"

function lines_of :: "jsstr \<Rightarrow> jsstr list" where   \<comment> \<open>\<open>split("\n")\<close>\<close>
  "lines_of s =
     (case dropWhile (\<lambda>c. c \<noteq> 10) s of [] \<Rightarrow> [s]
      | nl # rest \<Rightarrow> takeWhile (\<lambda>c. c \<noteq> 10) s # lines_of rest)"
  by pat_completeness auto
termination
proof (relation "measure length", goal_cases)
  case (2 s nl rest)
  then show ?case using length_dropWhile_le[of "\<lambda>c. c \<noteq> 10" s] by simp
qed simp

declare lines_of.simps [simp del]

definition strip_comments :: "jsstr \<Rightarrow> jsstr" where
  "strip_comments s = join_with [10] (strip_lines None (lines_of s))"

definition cleaned :: "jsstr \<Rightarrow> jsstr" where
  "cleaned s = js_trim (strip_comments (strip_fences (js_trim s)))"

section \<open>Completed statements\<close>

text \<open>
  \<open>m\<close> open brackets, \<open>h\<close> open conditionals, the open quote and whether the next code unit is
  escaped. A newline outside of all of them ends a segment, unless the next line goes on with
  a conditional. The result is the ended segments and the rest.
\<close>

definition is_blank :: "code_unit \<Rightarrow> bool" where
  "is_blank c \<longleftrightarrow> c = 32 \<or> c = 9 \<or> c = 13 \<or> c = 10"

definition goes_on :: "nat \<Rightarrow> jsstr \<Rightarrow> bool" where
  "goes_on h s =
     (case dropWhile is_blank s of [] \<Rightarrow> False | c # _ \<Rightarrow> c = 63 \<or> c = 58 \<and> 0 < h)"

fun segments :: "nat \<Rightarrow> nat \<Rightarrow> code_unit option \<Rightarrow> bool \<Rightarrow> jsstr \<Rightarrow> jsstr \<Rightarrow> jsstr list \<times> jsstr" where
  "segments m h q esc seg [] = ([], rev seg)"
| "segments m h q esc seg (w # s) =
     (if esc then segments m h q False (w # seg) s
      else case q of
        Some d \<Rightarrow>
          if w = 92 then segments m h q True (w # seg) s
          else segments m h (if w = d then None else q) False (w # seg) s
      | None \<Rightarrow>
          if w = 34 \<or> w = 39 then segments m h (Some w) False (w # seg) s
          else if w \<in> {40, 91, 123} then segments (m + 1) h None False (w # seg) s
          else if w \<in> {41, 93, 125} then segments (m - 1) h None False (w # seg) s
          else if w = 63 \<and> m = 0 then segments m (h + 1) None False (w # seg) s
          else if w = 58 \<and> m = 0 \<and> 0 < h then segments m (h - 1) None False (w # seg) s
          else if w = 10 \<and> m = 0 \<and> h = 0 \<and> \<not> goes_on h s then
            apfst ((#) (rev seg)) (segments m h None False [] s)
          else segments m h None False (w # seg) s)"

section \<open>The unfinished rest\<close>

definition opens_group :: "code_unit \<Rightarrow> bool" where
  "opens_group c \<longleftrightarrow> c \<in> {40, 91, 123}"

definition closer :: "code_unit \<Rightarrow> code_unit" where
  "closer c = (if c = 40 then 41 else if c = 91 then 93 else 125)"

definition track :: "jsstr \<Rightarrow> code_unit \<Rightarrow> jsstr" where   \<comment> \<open>the innermost open bracket first\<close>
  "track st c =
     (if opens_group c then c # st
      else case st of b # st' \<Rightarrow> if c = closer b then st' else st | [] \<Rightarrow> st)"

fun close_scan :: "jsstr \<Rightarrow> code_unit option \<Rightarrow> bool \<Rightarrow> jsstr \<Rightarrow> jsstr \<times> code_unit option \<times> bool" where
  "close_scan st q esc [] = (st, q, esc)"
| "close_scan st q esc (c # s) =
     (if esc then close_scan st q False s
      else case q of
        Some d \<Rightarrow> if c = 92 then close_scan st q True s
                  else close_scan st (if c = d then None else q) False s
      | None \<Rightarrow> if c = 34 \<or> c = 39 then close_scan st (Some c) False s
                else close_scan (track st c) None False s)"

text \<open>The completed text and whether it was incomplete.\<close>

definition autoclose :: "jsstr \<Rightarrow> jsstr \<times> bool" where
  "autoclose e =
     (case close_scan [] None False e of
        (st, q, esc) \<Rightarrow>
          if q = None \<and> st = [] then (e, False)
          else (e @ (case q of None \<Rightarrow> [] | Some d \<Rightarrow> (if esc then [92] else []) @ [d]) @ map closer st, True))"

section \<open>Tidy texts\<close>

text \<open>
  A tidy text is made of closed double-quoted strings without newlines and of code units
  outside of strings that are no quote, comment mark, backtick, question mark, greater-than sign
  or newline. All
  of the above leaves it alone.
\<close>

definition plain_unit :: "code_unit \<Rightarrow> bool" where
  "plain_unit c \<longleftrightarrow> c \<notin> {34, 39, 35, 47, 96, 63, 62, 10, 92}"

fun string_body :: "jsstr \<Rightarrow> bool" where   \<comment> \<open>escapes are complete, no bare quote, no newline\<close>
  "string_body [] = True"
| "string_body (c # s) =
     (if c = 92 then (case s of [] \<Rightarrow> False | d # s' \<Rightarrow> d \<noteq> 10 \<and> string_body s')
      else c \<noteq> 34 \<and> c \<noteq> 10 \<and> string_body s)"

inductive tidy :: "jsstr \<Rightarrow> bool" where
  tidy_Nil: "tidy []"
| tidy_unit: "plain_unit c \<Longrightarrow> tidy s \<Longrightarrow> tidy (c # s)"
| tidy_string: "string_body b \<Longrightarrow> tidy s \<Longrightarrow> tidy (34 # b @ 34 # s)"

lemma tidy_append: "tidy s \<Longrightarrow> tidy t \<Longrightarrow> tidy (s @ t)"
proof (induction rule: tidy.induct)
  case (tidy_string b s)
  then show ?case using tidy.tidy_string[of b "s @ t"] by simp
qed (auto intro: tidy.intros)

lemma tidy_units: "list_all plain_unit s \<Longrightarrow> tidy s"
  by (induction s) (auto intro: tidy.intros)

lemma tidy_quoted: "string_body b \<Longrightarrow> tidy (34 # b @ [34])"
  using tidy_string[OF _ tidy_Nil] by simp

lemma body_append: "string_body a \<Longrightarrow> string_body b \<Longrightarrow> string_body (a @ b)"
  by (induction a rule: string_body.induct) (auto split: if_splits list.splits)

lemma tidy_no_newline: "tidy s \<Longrightarrow> 10 \<notin> set s"
proof (induction rule: tidy.induct)
  case (tidy_string b s)
  have "10 \<notin> set b" using tidy_string(1) by (induction b rule: string_body.induct) (auto split: if_splits list.splits)
  then show ?case using tidy_string by simp
qed (auto simp: plain_unit_def)

lemma after_body: "string_body b \<Longrightarrow> after_string (b @ 34 # s) = s"
  by (induction b rule: string_body.induct) (auto split: if_splits list.splits)

lemma tidy_fence: "tidy s \<Longrightarrow> find_fence s = None"
proof (induction rule: tidy.induct)
  case (tidy_string b s)
  then show ?case by (simp add: after_body)
qed (auto simp: plain_unit_def starts_with_def fence_def)

lemma tidy_strip_fences: "tidy s \<Longrightarrow> strip_fences s = s"
  using tidy_fence[of s] by (simp add: strip_fences_def fenced.simps)

lemma line_body: "string_body b \<Longrightarrow> line_code (Some 34) (b @ 34 # s) =
    (case line_code None s of ((code, commented), q) \<Rightarrow> ((b @ 34 # code, commented), q))"
proof (induction b rule: string_body.induct)
  case (2 c b)
  then show ?case
    by (cases "c = 92") (auto simp: keep_def split: list.splits prod.splits)
qed (simp add: keep_def split: prod.split)

lemma tidy_line: "tidy s \<Longrightarrow> line_code None s = ((s, False), None)"
proof (induction rule: tidy.induct)
  case (tidy_string b s)
  then show ?case by (simp add: line_body keep_def)
qed (auto simp: plain_unit_def keep_def)

lemma tidy_strip_comments:
  assumes "tidy s"
  shows "strip_comments s = s"
proof -
  have "dropWhile (\<lambda>c. c \<noteq> 10) s = []" using tidy_no_newline[OF assms] by (simp add: dropWhile_eq_Nil_conv) blast
  then have "lines_of s = [s]" by (subst lines_of.simps) (simp only: list.case)
  then show ?thesis using tidy_line[OF assms] by (simp add: strip_comments_def)
qed

lemma segments_body:
  "string_body b \<Longrightarrow> segments m h (Some 34) False seg (b @ 34 # s) = segments m h None False (34 # rev b @ seg) s"
proof (induction b arbitrary: seg rule: string_body.induct)
  case (2 c b)
  then show ?case by (cases "c = 92") (auto split: list.splits)
qed simp

lemma tidy_segments: "tidy s \<Longrightarrow> segments m 0 None False seg s = ([], rev seg @ s)"
proof (induction arbitrary: m seg rule: tidy.induct)
  case (tidy_string b s)
  then show ?case by (simp add: segments_body)
qed (auto simp: plain_unit_def)

lemma close_scan_append:
  "close_scan st q esc (s @ t) = (case close_scan st q esc s of (st', q', esc') \<Rightarrow> close_scan st' q' esc' t)"
  by (induction st q esc s rule: close_scan.induct) (auto split: option.split)

lemma close_scan_body: "string_body b \<Longrightarrow> close_scan st (Some 34) False b = (st, Some 34, False)"
proof (induction b rule: string_body.induct)
  case (2 c b)
  then show ?case by (cases "c = 92") (auto split: list.splits)
qed simp

lemma close_scan_string: "string_body b \<Longrightarrow> close_scan st None False (34 # b @ 34 # s) = close_scan st None False s"
  by (simp add: close_scan_append close_scan_body)

lemma close_scan_units:
  "\<forall>c \<in> set s. plain_unit c \<and> \<not> opens_group c \<and> c \<notin> {41, 93, 125} \<Longrightarrow> close_scan st None False (s @ t) = close_scan st None False t"
  by (induction s) (auto simp: plain_unit_def track_def closer_def split: list.split)

end
