(* ===== verification/Lang_Build.thy ===== *)
theory Lang_Build
  imports Lang_Check Lang_Cleanup
begin

text \<open>
  How the renderer builds a program, read from the bundle \<open>web/artifact.js\<close>: \<open>Ka\<close> resolves the
  references of an expression that is evaluated later, \<open>Rf\<close> computes a value and checks the
  properties of each element (with \<open>Mae\<close>, \<open>Lae\<close>, \<open>Eae\<close>, \<open>Aae\<close>), \<open>AT\<close> builds the whole
  program and \<open>Bqt\<close> splits the text into statements. The catalog of components that \<open>Hqt\<close> makes
  of the library's JSON Schema is a parameter. What the code keeps in an object (errors,
  unresolved and unreached names) is the state of a \<open>jsm\<close>; \<open>visited\<close> and
  \<open>currentStatementId\<close>, which it restores on return, are arguments. The fuel is the call stack.
\<close>

section \<open>Catalog\<close>

record call_def =
  d_action :: bool
  d_params :: "param list"
  d_builtin :: bool
  d_lazy :: bool

record catalog =
  k_comps :: "(jsstr \<times> param list) list"
  k_custom :: "(jsstr \<times> call_def) list"   \<comment> \<open>functions and actions of the library\<close>

definition builtin_call :: "bool \<Rightarrow> bool \<Rightarrow> bool \<Rightarrow> string list \<Rightarrow> call_def" where   \<comment> \<open>\<open>qre\<close>\<close>
  "builtin_call action required lazy names =
     \<lparr>d_action = action, d_params = map (\<lambda>n. \<lparr>p_name = lit n, p_required = required, p_default = JUndef, p_schema = JUndef\<rparr>) names,
      d_builtin = True, d_lazy = lazy\<rparr>"

definition builtin_calls :: "(jsstr \<times> call_def) list" where   \<comment> \<open>\<open>oh\<close>\<close>
  "builtin_calls =
     map (\<lambda>n. (lit n, builtin_call False False False [''array''])) [''Count'', ''First'', ''Last''] @
     map (\<lambda>n. (lit n, builtin_call False False False [''numbers''])) [''Sum'', ''Avg'', ''Min'', ''Max''] @
     [(lit ''Sort'', builtin_call False False False [''array'', ''field'', ''direction'']),
      (lit ''Filter'', builtin_call False False False [''array'', ''field'', ''operator'', ''value'']),
      (lit ''Round'', builtin_call False False False [''number'', ''decimals''])] @
     map (\<lambda>n. (lit n, builtin_call False False False [''number''])) [''Abs'', ''Floor'', ''Ceil''] @
     [(lit ''Each'', builtin_call False False True [''array'', ''varName'', ''template'']),
      (lit ''Run'', builtin_call True False True [''ref'']),
      (lit ''ToAssistant'', builtin_call True False False [''message'', ''context'']),
      (lit ''OpenUrl'', builtin_call True False False [''url'']),
      (lit ''Set'', builtin_call True False True [''variable'', ''value'']),
      (lit ''Reset'', builtin_call True False True [''variable'']),
      (lit ''Action'', builtin_call True True True [''steps''])]"

definition call_of :: "catalog \<Rightarrow> jsstr \<Rightarrow> call_def option" where   \<comment> \<open>\<open>e6(cat).get(name)\<close>\<close>
  "call_of cat n = (case map_of (k_custom cat) n of Some d \<Rightarrow> Some d | None \<Rightarrow> map_of builtin_calls n)"

text \<open>\<open>ih\<close>: \<open>name in {Query, Mutation}\<close>, which the members of \<open>Object.prototype\<close> are too.\<close>

definition reserved_names :: "jsstr list" where
  "reserved_names = [lit ''Query'', lit ''Mutation'', lit ''constructor'', lit ''__defineGetter__'', lit ''__defineSetter__'',
     lit ''hasOwnProperty'', lit ''__lookupGetter__'', lit ''__lookupSetter__'', lit ''isPrototypeOf'',
     lit ''propertyIsEnumerable'', lit ''toString'', lit ''valueOf'', lit ''__proto__'', lit ''toLocaleString'']"

definition reserved :: "jsstr \<Rightarrow> bool" where
  "reserved n \<longleftrightarrow> n \<in> set reserved_names"

definition is_call :: "catalog \<Rightarrow> jsstr \<Rightarrow> bool" where   \<comment> \<open>\<open>Y3\<close>\<close>
  "is_call cat n \<longleftrightarrow> call_of cat n \<noteq> None \<or> reserved n"

section \<open>State\<close>

record build =
  b_issues :: "issue list"
  b_unresolved :: "jsstr list"
  b_unreached :: "jsstr list"

record build_context =
  x_syms :: "(jsstr \<times> rnode) list"
  x_cat :: catalog
  x_partial :: bool

record place =
  visited :: "jsstr list"
  statement_id :: "jsstr option"

definition place_scope :: "build_context \<Rightarrow> place \<Rightarrow> jsstr \<Rightarrow> scope" where
  "place_scope c pl name = \<lparr>c_component = name, c_statement = statement_id pl, c_partial = x_partial c,
     c_known = map fst (k_comps (x_cat c))\<rparr>"

definition push_issues :: "issue list \<Rightarrow> (build, unit) jsm" where
  "push_issues is = modify (\<lambda>b. b\<lparr>b_issues := b_issues b @ is\<rparr>)"

definition push_issue :: "build_context \<Rightarrow> place \<Rightarrow> jsstr \<Rightarrow> jsstr \<Rightarrow> issue_code \<Rightarrow> (build, unit) jsm" where
  "push_issue c pl name path code = push_issues [issue_at (place_scope c pl name) path code]"

definition check_prop :: "build_context \<Rightarrow> place \<Rightarrow> jsstr \<Rightarrow> param \<Rightarrow> rval \<Rightarrow> (build, rval option) jsm" where
  "check_prop c pl name p v =
     (case check_value (place_scope c pl name) (p_schema p) v (47 # p_name p) of
        (r, is) \<Rightarrow> next_do (push_issues is) (ret r))"

fun traverse :: "('a \<Rightarrow> ('s, 'b) jsm) \<Rightarrow> 'a list \<Rightarrow> ('s, 'b list) jsm" where
  "traverse f [] = ret []"
| "traverse f (x # xs) = bind (f x) (\<lambda>y. bind (traverse f xs) (\<lambda>ys. ret (y # ys)))"

definition traverse_fields :: "('a \<Rightarrow> ('s, 'b) jsm) \<Rightarrow> ('k \<times> 'a) list \<Rightarrow> ('s, ('k \<times> 'b) list) jsm" where
  "traverse_fields f es = bind (traverse f (map snd es)) (\<lambda>ys. ret (zip (map fst es) ys))"

definition by_name :: "'v list \<Rightarrow> param list \<Rightarrow> (jsstr \<times> 'v) list" where   \<comment> \<open>\<open>r6\<close>\<close>
  "by_name es ps = put_all (zip (map p_name ps) es)"

section \<open>References\<close>

text \<open>
  \<open>Mae\<close>: a name that is unknown or being resolved is recorded as unresolved. \<open>missing\<close> and
  \<open>late\<close> make the result of an unresolved name and of a query or mutation.
\<close>

definition resolve_name :: "build_context \<Rightarrow> place \<Rightarrow> jsstr \<Rightarrow> 'a \<Rightarrow> (rnode \<Rightarrow> 'a) \<Rightarrow>
    (place \<Rightarrow> rnode \<Rightarrow> (build, 'a) jsm) \<Rightarrow> (build, 'a) jsm" where
  "resolve_name c pl x missing late f =
     (case if x \<in> set (visited pl) then None else map_of (x_syms c) x of
        None \<Rightarrow> next_do (modify (\<lambda>b. b\<lparr>b_unresolved := b_unresolved b @ [x]\<rparr>)) (ret missing)
      | Some a \<Rightarrow>
          next_do (modify (\<lambda>b. b\<lparr>b_unreached := filter ((\<noteq>) x) (b_unreached b)\<rparr>))
            (case a of
               NComp n _ _ _ \<Rightarrow>
                 if reserved n then ret (late (NRuntime x (n = lit ''Mutation'')))
                 else f \<lparr>visited = x # visited pl, statement_id = Some x\<rparr> a
             | _ \<Rightarrow> f \<lparr>visited = x # visited pl, statement_id = Some x\<rparr> a))"

section \<open>Calls\<close>

text \<open>\<open>Lae\<close>: the literal arguments of a function or action of the library are checked at once.\<close>

fun check_args :: "build_context \<Rightarrow> place \<Rightarrow> jsstr \<Rightarrow> param list \<Rightarrow> param list \<Rightarrow> (jsstr \<times> rnode) list \<Rightarrow> bool \<Rightarrow>
    (build, bool \<times> (jsstr \<times> rnode) list) jsm" where
  "check_args c pl e ps [] o' bad = ret (bad, o')"
| "check_args c pl e ps (p # rest) o' bad =
     (case (case map_of o' (p_name p) of None \<Rightarrow> Some VUndef | Some u \<Rightarrow> literal_value u) of
        None \<Rightarrow> check_args c pl e ps rest o' bad
      | Some v \<Rightarrow>
          if absent v then
            (if \<not> p_required p \<or> p_default p \<noteq> JUndef then check_args c pl e ps rest o' bad
             else next_do (push_issue c pl e (47 # p_name p)
                 ((if map_of o' (p_name p) \<noteq> None then NullRequired else MissingRequired) (Some (signature_of e ps))))
               (check_args c pl e ps rest o' True))
          else bind (check_prop c pl e p v) (\<lambda>r.
            case (case r of Some f \<Rightarrow> Some f | None \<Rightarrow> settle (p_required p) (p_default p)) of
              None \<Rightarrow> check_args c pl e ps rest o' True
            | Some f \<Rightarrow> check_args c pl e ps rest
                (if f = VUndef then drop_field o' (p_name p) else if f = v then o'
                 else put_field o' (p_name p) (literal_node f)) bad))"

definition map_args :: "build_context \<Rightarrow> place \<Rightarrow> jsstr \<Rightarrow> rnode list \<Rightarrow> call_def \<Rightarrow>
    (build, (jsstr \<times> rnode) list option) jsm" where
  "map_args c pl e args d =
     next_do (if length args > length (d_params d)
              then push_issue c pl e [] (ExcessArgs (length (d_params d)) (length args)) else ret ())
       (bind (gets (\<lambda>b. length (b_issues b))) (\<lambda>l.
        bind (check_args c pl e (d_params d) (d_params d) (by_name args (d_params d)) False) (\<lambda>r.
        bind (gets (\<lambda>b. length (b_issues b))) (\<lambda>l'.
          ret (if fst r \<or> d_action d \<and> l' > l then None else Some (snd r))))))"

text \<open>\<open>Eae\<close>, with its arguments already resolved.\<close>

definition call_node :: "build_context \<Rightarrow> place \<Rightarrow> jsstr \<Rightarrow> rnode list \<Rightarrow> (jsstr \<times> rnode) list option \<Rightarrow> bool \<Rightarrow>
    (build, rnode) jsm" where
  "call_node c pl e args m fn =
     (case call_of (x_cat c) e of
        None \<Rightarrow> ret (NComp e args m fn)
      | Some d \<Rightarrow>
          if d_lazy d then ret (NComp e args m fn)
          else bind (if d_builtin d then ret (Some (by_name args (d_params d))) else map_args c pl e args d) (\<lambda>r.
            ret (case r of Some o' \<Rightarrow> NComp e args (Some o') fn
              | None \<Rightarrow> if d_action d then NComp (lit ''Action'') [NArr []] None False else NNull)))"

text \<open>\<open>Aae\<close>: the variable of a loop, which its body may refer to.\<close>

definition loop_var :: "build_context \<Rightarrow> jsstr \<Rightarrow> rnode list \<Rightarrow> jsstr option" where
  "loop_var c e args =
     (case call_of (x_cat c) e of
        Some d \<Rightarrow>
          if \<not> d_action d \<and> d_lazy d \<and> 3 \<le> length args then
            (case args ! 1 of NRef x \<Rightarrow> if x \<noteq> [] then Some x else None
             | NStr x \<Rightarrow> if x \<noteq> [] then Some x else None | _ \<Rightarrow> None)
          else None
      | None \<Rightarrow> None)"

definition loop_node :: "(rnode \<Rightarrow> (build, rnode) jsm) \<Rightarrow> jsstr \<Rightarrow> rnode list \<Rightarrow> (jsstr \<times> rnode) list option \<Rightarrow> bool \<Rightarrow>
    (build, rnode) jsm" where
  "loop_node f e args m fn =
     bind (f (hd args)) (\<lambda>a. bind (traverse f (drop 2 args)) (\<lambda>as. ret (NComp e (a # args ! 1 # as) m fn)))"

section \<open>Expressions\<close>

type_synonym resolver = "place \<Rightarrow> jsstr list \<Rightarrow> rnode \<Rightarrow> (build, rnode) jsm"
type_synonym valuer = "place \<Rightarrow> rnode \<Rightarrow> (build, rval) jsm"

definition resolve_comp :: "build_context \<Rightarrow> resolver \<Rightarrow> place \<Rightarrow> jsstr list \<Rightarrow> jsstr \<Rightarrow> rnode list \<Rightarrow>
    (jsstr \<times> rnode) list option \<Rightarrow> bool \<Rightarrow> (build, rnode) jsm" where
  "resolve_comp c r pl bound e args m fn =
     (if fn \<and> \<not> is_call (x_cat c) e then next_do (push_issue c pl e [] UnknownFunction) (ret NNull)
      else case loop_var c e args of
        Some x \<Rightarrow> loop_node (r pl (x # bound)) e args m fn
      | None \<Rightarrow>
          bind (traverse (r pl bound) args) (\<lambda>as.
            if is_call (x_cat c) e then call_node c pl e as m fn
            else case map_of (k_comps (x_cat c)) e of
              Some ps \<Rightarrow> ret (NComp e as (Some (by_name as ps)) fn)
            | None \<Rightarrow>
                next_do (push_issue c pl e [] (UnknownComponent (map fst (k_comps (x_cat c)))))
                  (ret (NComp e as m fn))))"

fun resolve_step :: "build_context \<Rightarrow> resolver \<Rightarrow> resolver" where   \<comment> \<open>\<open>Ka\<close>\<close>
  "resolve_step c r pl bound (NRef x) =
     (if x \<in> set bound then ret (NRef x)
      else resolve_name c pl x (NPh x) (\<lambda>n. n) (\<lambda>pl' a. r pl' [] a))"
| "resolve_step c r pl bound (NComp e args m fn) = resolve_comp c r pl bound e args m fn"
| "resolve_step c r pl bound (NArr els) = bind (traverse (r pl bound) els) (\<lambda>ns. ret (NArr ns))"
| "resolve_step c r pl bound (NObj es) = bind (traverse_fields (r pl bound) es) (\<lambda>ns. ret (NObj ns))"
| "resolve_step c r pl bound (NBin op a b) =
     bind (r pl bound a) (\<lambda>a'. bind (r pl bound b) (\<lambda>b'. ret (NBin op a' b')))"
| "resolve_step c r pl bound (NUn op a) = bind (r pl bound a) (\<lambda>a'. ret (NUn op a'))"
| "resolve_step c r pl bound (NTern a b d) =
     bind (r pl bound a) (\<lambda>a'. bind (r pl bound b) (\<lambda>b'. bind (r pl bound d) (\<lambda>d'. ret (NTern a' b' d'))))"
| "resolve_step c r pl bound (NMember a f) = bind (r pl bound a) (\<lambda>a'. ret (NMember a' f))"
| "resolve_step c r pl bound (NIndex a b) =
     bind (r pl bound a) (\<lambda>a'. bind (r pl bound b) (\<lambda>b'. ret (NIndex a' b')))"
| "resolve_step c r pl bound (NAssign x a) = bind (r pl bound a) (\<lambda>a'. ret (NAssign x a'))"
| "resolve_step c r pl bound n = ret n"

primrec resolve :: "nat \<Rightarrow> build_context \<Rightarrow> resolver" where
  "resolve 0 c = (\<lambda>pl bound n. throw RangeError)"
| "resolve (Suc k) c = resolve_step c (resolve k c)"

section \<open>Values\<close>

text \<open>\<open>F3\<close>: whether a value holds an expression, and whether the fields of a tree hold a tree.\<close>

fun holds_tree :: "rnode \<Rightarrow> bool" where
  "holds_tree (NComp _ args m _) \<longleftrightarrow> args \<noteq> [] \<or> (case m of Some o' \<Rightarrow> o' \<noteq> [] | None \<Rightarrow> False)"
| "holds_tree (NArr els) \<longleftrightarrow> els \<noteq> []"
| "holds_tree (NObj es) \<longleftrightarrow> es \<noteq> []"
| "holds_tree (NBin _ _ _) = True"
| "holds_tree (NUn _ _) = True"
| "holds_tree (NTern _ _ _) = True"
| "holds_tree (NMember _ _) = True"
| "holds_tree (NIndex _ _) = True"
| "holds_tree (NAssign _ _) = True"
| "holds_tree _ = False"

fun is_list :: "rval \<Rightarrow> bool" where
  "is_list (VArr _) = True"
| "is_list _ = False"

fun dynamic :: "rval \<Rightarrow> bool"
and dynamic_fields :: "rval \<Rightarrow> bool" where
  "dynamic (VNode _) = True"
| "dynamic (VArr xs) = list_ex dynamic xs"
| "dynamic (VElem _ ps _ _ _) = list_ex (\<lambda>e. dynamic (snd e)) ps"
| "dynamic (VObj kvs) =
     (kind_of kvs \<or>
      (if element_object kvs then list_ex (\<lambda>e. fst e = lit ''props'' \<and> dynamic_fields (snd e)) kvs
       else list_ex (\<lambda>e. fst e = lit ''steps'' \<and> is_list (snd e)) kvs \<or> list_ex (\<lambda>e. dynamic (snd e)) kvs))"
| "dynamic _ = False"
| "dynamic_fields (VArr xs) = list_ex dynamic xs"
| "dynamic_fields (VObj kvs) = list_ex (\<lambda>e. dynamic (snd e)) kvs"
| "dynamic_fields (VElem _ ps _ _ _) = list_ex (\<lambda>e. dynamic (snd e)) ps"
| "dynamic_fields (VNode n) = holds_tree n"
| "dynamic_fields _ = False"

definition set_statement :: "jsstr \<Rightarrow> rval \<Rightarrow> rval" where
  "set_statement x v =
     (case v of
        VElem n ps partial dyn st \<Rightarrow> VElem n ps partial dyn (Some x)
      | VObj kvs \<Rightarrow> if element_object kvs then VObj (put_field kvs (lit ''statementId'') (VStr x)) else v
      | _ \<Rightarrow> v)"

text \<open>One argument of a component: its value, checked against the schema of its parameter.\<close>

definition take_prop :: "build_context \<Rightarrow> place \<Rightarrow> jsstr \<Rightarrow> param \<Rightarrow> rval \<Rightarrow> fields \<times> bool \<Rightarrow> (build, fields \<times> bool) jsm" where
  "take_prop c pl e p f st =
     (case st of (props, bad) \<Rightarrow>
        let props' = put_field props (p_name p) f in
        if p_schema p = JUndef then ret (props', bad)
        else bind (check_prop c pl e p f) (\<lambda>r.
          case r of
            Some m \<Rightarrow> ret (if m = VUndef then props' else put_field props' (p_name p) m, bad)
          | None \<Rightarrow>
              (case settle (p_required p) (p_default p) of
                 None \<Rightarrow> ret (props', True)
               | Some m \<Rightarrow> ret (if m = VUndef then drop_field props' (p_name p) else put_field props' (p_name p) m, bad))))"

fun take_props :: "build_context \<Rightarrow> valuer \<Rightarrow> place \<Rightarrow> jsstr \<Rightarrow> param list \<Rightarrow> rnode list \<Rightarrow> fields \<times> bool \<Rightarrow>
    (build, fields \<times> bool) jsm" where
  "take_props c v pl e (p # ps) (a # as) st =
     bind (v pl a) (\<lambda>f. bind (take_prop c pl e p f st) (\<lambda>st'. take_props c v pl e ps as st'))"
| "take_props c v pl e _ _ st = ret st"

definition null_prop :: "fields \<Rightarrow> param \<Rightarrow> bool" where
  "null_prop props p \<longleftrightarrow> (case map_of props (p_name p) of None \<Rightarrow> True | Some v \<Rightarrow> v = VNull)"

definition with_defaults :: "param list \<Rightarrow> fields \<Rightarrow> fields" where
  "with_defaults ps props =
     foldl (\<lambda>acc p. put_field acc (p_name p) (of_json (p_default p))) props
       (filter (\<lambda>p. p_required p \<and> null_prop props p \<and> p_default p \<noteq> JUndef) ps)"

definition missing_props :: "param list \<Rightarrow> fields \<Rightarrow> param list" where
  "missing_props ps props = filter (\<lambda>p. p_required p \<and> null_prop props p \<and> p_default p = JUndef) ps"

definition missing_issue :: "build_context \<Rightarrow> place \<Rightarrow> jsstr \<Rightarrow> param list \<Rightarrow> fields \<Rightarrow> param \<Rightarrow> issue" where
  "missing_issue c pl e ps props p =
     issue_at (place_scope c pl e) (47 # p_name p)
       ((if map_of props (p_name p) \<noteq> None then NullRequired else MissingRequired) (Some (signature_of e ps)))"

definition element_value :: "build_context \<Rightarrow> valuer \<Rightarrow> place \<Rightarrow> jsstr \<Rightarrow> param list \<Rightarrow> rnode list \<Rightarrow> (build, rval) jsm" where
  "element_value c v pl e ps args =
     bind (take_props c v pl e ps args ([], False)) (\<lambda>st.
       case st of (props, bad) \<Rightarrow>
         next_do (if length args > length ps then push_issue c pl e [] (ExcessArgs (length ps) (length args)) else ret ())
           (if missing_props ps props \<noteq> [] then
              next_do (push_issues (map (missing_issue c pl e ps (with_defaults ps props)) (missing_props ps props))) (ret VNull)
            else if bad then ret VNull
            else ret (VElem e (with_defaults ps props) (x_partial c)
              (list_ex (\<lambda>f. dynamic (snd f)) (with_defaults ps props)) None)))"

definition comp_value :: "build_context \<Rightarrow> resolver \<Rightarrow> valuer \<Rightarrow> place \<Rightarrow> jsstr \<Rightarrow> rnode list \<Rightarrow>
    (jsstr \<times> rnode) list option \<Rightarrow> bool \<Rightarrow> (build, rval) jsm" where
  "comp_value c r v pl e args m fn =
     (if fn \<and> \<not> is_call (x_cat c) e then next_do (push_issue c pl e [] UnknownFunction) (ret VNull)
      else if reserved e then next_do (push_issue c pl e [] InlineReserved) (ret VNull)
      else if is_call (x_cat c) e then
        (case loop_var c e args of
           Some x \<Rightarrow> bind (loop_node (r pl [x]) e args m fn) (\<lambda>n. ret (VNode n))
         | None \<Rightarrow> bind (traverse (r pl []) args) (\<lambda>as. bind (call_node c pl e as m fn) (\<lambda>n. ret (VNode n))))
      else case map_of (k_comps (x_cat c)) e of
        Some ps \<Rightarrow> element_value c v pl e ps args
      | None \<Rightarrow> next_do (push_issue c pl e [] (UnknownComponent (map fst (k_comps (x_cat c))))) (ret VNull))"

text \<open>The elements of an array: placeholders go, and so do calls and references without a value.\<close>

fun droppable :: "rnode \<Rightarrow> bool" where
  "droppable (NComp _ _ _ _) = True"
| "droppable (NRef _) = True"
| "droppable _ = False"

fun array_values :: "(rnode \<Rightarrow> (build, rval) jsm) \<Rightarrow> rnode list \<Rightarrow> (build, rval list) jsm" where
  "array_values f [] = ret []"
| "array_values f (a # as) =
     (case a of
        NPh _ \<Rightarrow> array_values f as
      | _ \<Rightarrow> bind (f a) (\<lambda>v. bind (array_values f as) (\<lambda>vs. ret (if v = VNull \<and> droppable a then vs else v # vs))))"

fun valuate_step :: "build_context \<Rightarrow> resolver \<Rightarrow> valuer \<Rightarrow> valuer" where   \<comment> \<open>\<open>Rf\<close>\<close>
  "valuate_step c r v pl (NRef x) =
     resolve_name c pl x VNull VNode (\<lambda>pl' a. bind (v pl' a) (\<lambda>w. ret (set_statement x w)))"
| "valuate_step c r v pl (NStr s) = ret (VStr s)"
| "valuate_step c r v pl (NNum x) = ret (VNum x)"
| "valuate_step c r v pl (NBool b) = ret (VBool b)"
| "valuate_step c r v pl NNull = ret VNull"
| "valuate_step c r v pl (NPh x) = ret VNull"
| "valuate_step c r v pl (NArr els) = bind (array_values (v pl) els) (\<lambda>vs. ret (VArr vs))"
| "valuate_step c r v pl (NObj es) = bind (traverse_fields (v pl) es) (\<lambda>kvs. ret (VObj (put_all kvs)))"
| "valuate_step c r v pl (NComp e args m fn) = comp_value c r v pl e args m fn"
| "valuate_step c r v pl n = bind (r pl [] n) (\<lambda>n'. ret (VNode n'))"

primrec valuate :: "nat \<Rightarrow> build_context \<Rightarrow> valuer" where
  "valuate 0 c = (\<lambda>pl n. throw RangeError)"
| "valuate (Suc k) c = valuate_step c (resolve k c) (valuate k c)"

end
