(* ===== verification/Lang_Program.thy ===== *)
theory Lang_Program
  imports Lang_Build
begin

text \<open>
  A program as the renderer parses it, read from the bundle \<open>web/artifact.js\<close>: the kinds of
  statements (\<open>eae\<close>), the build of the root with its report (\<open>AT\<close>, \<open>Rqt\<close>, \<open>Oqt\<close>, \<open>zqt\<close>) and the
  parser object \<open>Bqt\<close> on a new text that is complete, which is how the page calls it. The last
  section proves that the build returns: the fuel, the sum of the sizes of all definitions,
  is enough whatever they refer to.
\<close>

section \<open>Trees\<close>

text \<open>\<open>GT\<close>: a tree and the trees below it, outer ones first.\<close>

fun subtrees :: "rnode \<Rightarrow> rnode list" where
  "subtrees (NComp e args m fn) = NComp e args m fn # concat (map subtrees args) @
     (case m of Some o' \<Rightarrow> concat (map (\<lambda>f. subtrees (snd f)) o') | None \<Rightarrow> [])"
| "subtrees (NArr els) = NArr els # concat (map subtrees els)"
| "subtrees (NObj es) = NObj es # concat (map (\<lambda>e. subtrees (snd e)) es)"
| "subtrees (NBin op a b) = NBin op a b # subtrees a @ subtrees b"
| "subtrees (NUn op a) = NUn op a # subtrees a"
| "subtrees (NTern a b d) = NTern a b d # subtrees a @ subtrees b @ subtrees d"
| "subtrees (NMember a f) = NMember a f # subtrees a"
| "subtrees (NIndex a b) = NIndex a b # subtrees a @ subtrees b"
| "subtrees (NAssign x a) = NAssign x a # subtrees a"
| "subtrees n = [n]"

fun state_name_of :: "rnode \<Rightarrow> jsstr list" where
  "state_name_of (NState x) = [x]"
| "state_name_of _ = []"

definition keep_first :: "'a list \<Rightarrow> 'a list" where   \<comment> \<open>\<open>[...new Set(xs)]\<close>\<close>
  "keep_first xs = rev (remdups (rev xs))"

definition state_refs :: "rnode option \<Rightarrow> jsstr list" where   \<comment> \<open>\<open>Tae\<close>\<close>
  "state_refs n = (case n of None \<Rightarrow> [] | Some a \<Rightarrow> keep_first (concat (map state_name_of (subtrees a))))"

fun component_call :: "rnode \<Rightarrow> bool" where   \<comment> \<open>\<open>YT\<close>\<close>
  "component_call (NComp e args m fn) \<longleftrightarrow> \<not> fn \<and> \<not> is_builtin e \<and> \<not> reserved e"
| "component_call _ = False"

section \<open>Statements\<close>

datatype entry =
    ValueEntry rnode
  | StateEntry rnode
  | QueryEntry "rnode list" rnode "jsstr list"   \<comment> \<open>arguments, expression, state it depends on\<close>
  | MutationEntry "rnode list" rnode

definition entry_of :: "nat \<Rightarrow> rnode \<Rightarrow> entry" where   \<comment> \<open>\<open>eae\<close>\<close>
  "entry_of token_type t =
     (case t of
        NComp e args m fn \<Rightarrow>
          if e = lit ''Query'' then QueryEntry args t (state_refs (if 1 < length args then Some (args ! 1) else None))
          else if e = lit ''Mutation'' then MutationEntry args t
          else if token_type = 18 then StateEntry t else ValueEntry t
      | _ \<Rightarrow> if token_type = 18 then StateEntry t else ValueEntry t)"

fun entry_tree :: "entry \<Rightarrow> rnode" where   \<comment> \<open>\<open>init\<close> or \<open>expr\<close>\<close>
  "entry_tree (ValueEntry t) = t"
| "entry_tree (StateEntry t) = t"
| "entry_tree (QueryEntry _ t _) = t"
| "entry_tree (MutationEntry _ t) = t"

type_synonym entries = "(jsstr \<times> entry) list"

section \<open>The build\<close>

definition find_root :: "entries \<Rightarrow> jsstr \<Rightarrow> (jsstr \<times> bool) option" where   \<comment> \<open>\<open>Oqt\<close>: its name, and whether it is the fallback\<close>
  "find_root es root =
     (if lit ''root'' \<in> fst ` set es then Some (lit ''root'', False)
      else map_option (\<lambda>e. (fst e, True)) (find (\<lambda>e. case snd e of
        ValueEntry (NComp n args m fn) \<Rightarrow> component_call (NComp n args m fn) \<and> n = root | _ \<Rightarrow> False) es))"

text \<open>\<open>zqt\<close>: whether a chain of references ends at a component.\<close>

function names_component :: "(jsstr \<times> rnode) list \<Rightarrow> jsstr list \<Rightarrow> rnode \<Rightarrow> bool" where
  "names_component syms seen n =
     (case n of
        NRef x \<Rightarrow>
          if x \<in> set seen then False
          else (case map_of syms x of None \<Rightarrow> False | Some a \<Rightarrow> names_component syms (x # seen) a)
      | _ \<Rightarrow> component_call n)"
  by pat_completeness auto
termination
proof (relation "measure (\<lambda>(syms, seen, n). card (fst ` set syms - set seen))", goal_cases)
  case (2 syms seen n x a)
  then have "x \<in> fst ` set syms - set seen" by (force dest: map_of_SomeD)
  then have "fst ` set syms - set (x # seen) \<subset> fst ` set syms - set seen" by auto
  then show ?case by (simp add: psubset_card_mono)
qed simp

declare names_component.simps [simp del]

record query_statement =
  q_id :: jsstr
  q_args :: "rnode list"   \<comment> \<open>tool, arguments and for a query defaults and refresh\<close>
  q_deps :: "jsstr list"

record program_result =
  r_root :: rval           \<comment> \<open>\<open>VNull\<close> without one\<close>
  r_expr :: "rnode option"
  r_incomplete :: bool
  r_unresolved :: "jsstr list"
  r_orphaned :: "jsstr list"
  r_count :: nat
  r_issues :: "issue list"
  r_state :: fields
  r_queries :: "query_statement list"
  r_mutations :: "query_statement list"

text \<open>
  \<open>Qre\<close>: the calls in the arguments of a query get their arguments by name, in place. Every
  call is met once, outer ones first (\<open>name_calls\<close>); the arguments by name are those of the
  call, changed themselves, or new literals, which hold no call (\<open>named_tree\<close>).
\<close>

definition name_args :: "build_context \<Rightarrow> place \<Rightarrow> jsstr \<Rightarrow> rnode list \<Rightarrow> (jsstr \<times> rnode) list option \<Rightarrow>
    (build, (jsstr \<times> rnode) list option) jsm" where
  "name_args c pl e args m =
     (case call_of (x_cat c) e of
        None \<Rightarrow> ret m
      | Some d \<Rightarrow>
          if d_lazy d then ret m
          else bind (if d_builtin d then ret None else map_args c pl e args d) (\<lambda>r.
            ret (Some (case r of Some o' \<Rightarrow> o' | None \<Rightarrow> by_name args (d_params d)))))"

definition name_call :: "build_context \<Rightarrow> place \<Rightarrow> rnode \<Rightarrow> (build, unit) jsm" where
  "name_call c pl a = (case a of NComp e args m fn \<Rightarrow> bind (name_args c pl e args m) (\<lambda>_. ret ()) | _ \<Rightarrow> ret ())"

definition name_calls :: "build_context \<Rightarrow> place \<Rightarrow> rnode list \<Rightarrow> (build, unit) jsm" where
  "name_calls c pl ns = bind (traverse (name_call c pl) (concat (map subtrees ns))) (\<lambda>_. ret ())"

definition args_by_name :: "build_context \<Rightarrow> place \<Rightarrow> jsstr \<Rightarrow> rnode list \<Rightarrow> (jsstr \<times> rnode) list option \<Rightarrow>
    (jsstr \<times> rnode) list option" where
  "args_by_name c pl e args m =
     (case fst (name_args c pl e args m \<lparr>b_issues = [], b_unresolved = [], b_unreached = []\<rparr>) of Inr o' \<Rightarrow> o' | Inl _ \<Rightarrow> m)"

fun named_tree :: "build_context \<Rightarrow> place \<Rightarrow> rnode \<Rightarrow> rnode" where
  "named_tree c pl (NComp e args m fn) =
     (let args' = map (named_tree c pl) args; same = map_of (zip args args') in
      NComp e args'
        (map_option (map (\<lambda>f. (fst f, case same (snd f) of Some v \<Rightarrow> v | None \<Rightarrow> snd f))) (args_by_name c pl e args m)) fn)"
| "named_tree c pl (NArr els) = NArr (map (named_tree c pl) els)"
| "named_tree c pl (NObj es) = NObj (map (map_prod id (named_tree c pl)) es)"
| "named_tree c pl (NBin op a b) = NBin op (named_tree c pl a) (named_tree c pl b)"
| "named_tree c pl (NUn op a) = NUn op (named_tree c pl a)"
| "named_tree c pl (NTern a b d) = NTern (named_tree c pl a) (named_tree c pl b) (named_tree c pl d)"
| "named_tree c pl (NMember a f) = NMember (named_tree c pl a) f"
| "named_tree c pl (NIndex a b) = NIndex (named_tree c pl a) (named_tree c pl b)"
| "named_tree c pl (NAssign x a) = NAssign x (named_tree c pl a)"
| "named_tree c pl n = n"

text \<open>\<open>Rqt\<close>: the initial state, and the state that is referred to but not declared.\<close>

fun declare_states :: "(rnode \<Rightarrow> (build, rval) jsm) \<Rightarrow> (jsstr \<Rightarrow> rnode list \<Rightarrow> (build, unit) jsm) \<Rightarrow> entries \<Rightarrow> fields \<Rightarrow>
    (build, fields) jsm" where
  "declare_states f q [] st = ret st"
| "declare_states f q ((x, e) # es) st =
     (case e of
        StateEntry t \<Rightarrow> bind (f t) (\<lambda>v. declare_states f q es (put_field st x v))
      | QueryEntry args t deps \<Rightarrow> next_do (q x args) (declare_states f q es st)
      | MutationEntry args t \<Rightarrow> next_do (q x args) (declare_states f q es st)
      | ValueEntry t \<Rightarrow> declare_states f q es st)"

fun entry_trees :: "entry \<Rightarrow> rnode list" where
  "entry_trees (ValueEntry t) = [t]"
| "entry_trees (StateEntry t) = [t]"
| "entry_trees (QueryEntry args _ _) = args"
| "entry_trees (MutationEntry args _) = args"

definition undeclared :: "entries \<Rightarrow> fields \<Rightarrow> fields" where
  "undeclared es st =
     foldl (\<lambda>acc x. if x \<in> fst ` set acc then acc else acc @ [(x, VNull)]) st
       (concat (map (\<lambda>e. concat (map (\<lambda>t. state_refs (Some t)) (entry_trees (snd e)))) es))"

definition statement_args :: "build_context \<Rightarrow> jsstr \<Rightarrow> rnode list \<Rightarrow> rnode list" where
  "statement_args c x args = map (named_tree c \<lparr>visited = [], statement_id = Some x\<rparr>) args"

definition query_of :: "build_context \<Rightarrow> jsstr \<times> entry \<Rightarrow> query_statement list" where
  "query_of c e = (case snd e of
     QueryEntry args t deps \<Rightarrow> [\<lparr>q_id = fst e, q_args = take 4 (statement_args c (fst e) args), q_deps = deps\<rparr>] | _ \<Rightarrow> [])"

definition mutation_of :: "build_context \<Rightarrow> jsstr \<times> entry \<Rightarrow> query_statement list" where
  "mutation_of c e = (case snd e of
     MutationEntry args t \<Rightarrow> [\<lparr>q_id = fst e, q_args = take 2 (statement_args c (fst e) args), q_deps = []\<rparr>] | _ \<Rightarrow> [])"

definition is_value :: "entry \<Rightarrow> bool" where
  "is_value e \<longleftrightarrow> (case e of ValueEntry _ \<Rightarrow> True | _ \<Rightarrow> False)"

definition build_fuel :: "(jsstr \<times> rnode) list \<Rightarrow> nat" where
  "build_fuel syms = Suc (2 * sum_list (map (\<lambda>e. Suc (size (snd e))) syms))"

definition no_root :: "place \<Rightarrow> jsstr \<Rightarrow> string \<Rightarrow> (build, unit) jsm" where
  "no_root pl root reason = push_issues
     [\<lparr>i_code = NoRoot (lit reason), i_component = root, i_path = [], i_statement = statement_id pl\<rparr>]"

text \<open>
  The root is an element, or a tree that is evaluated later and has a component in it. An object
  literal that only passes for a tree counts as no root here.
\<close>

definition root_element :: "(jsstr \<times> bool) option \<Rightarrow> rval \<Rightarrow> rval" where
  "root_element start v =
     (case start of Some l \<Rightarrow> if is_element v then set_statement (fst l) v else VNull | None \<Rightarrow> VNull)"

definition root_tree :: "rval \<Rightarrow> rnode option" where
  "root_tree v = (case v of VNode n \<Rightarrow> if list_ex component_call (subtrees n) then Some n else None | _ \<Rightarrow> None)"

definition report_root :: "(jsstr \<times> rnode) list \<Rightarrow> jsstr \<Rightarrow> (jsstr \<times> bool) option \<Rightarrow> rnode option \<Rightarrow> rval \<Rightarrow>
    (build, unit) jsm" where
  "report_root syms root start tree v =
     (let pl = \<lparr>visited = [], statement_id = map_option fst start\<rparr> in
      case start of
        None \<Rightarrow> no_root pl root ''missing''
      | Some l \<Rightarrow>
          if root_element start v = VNull \<and> root_tree v = None \<and>
             \<not> (case tree of Some t \<Rightarrow> names_component syms [] t | None \<Rightarrow> False)
          then no_root pl root ''not-component''
          else if snd l then no_root pl root (if root_element start v \<noteq> VNull then ''fallback'' else ''missing'')
          else ret ())"

definition build_root :: "build_context \<Rightarrow> entries \<Rightarrow> jsstr \<Rightarrow> (build, rval \<times> rnode option \<times> fields) jsm" where   \<comment> \<open>\<open>AT\<close>\<close>
  "build_root c es root =
     (let value = valuate (build_fuel (x_syms c)) c; start = find_root es root;
          pl = \<lparr>visited = [], statement_id = map_option fst start\<rparr>;
          tree = Option.bind start (\<lambda>l. map_of (x_syms c) (fst l)) in
      bind (case tree of Some t \<Rightarrow> value pl t | None \<Rightarrow> ret VNull) (\<lambda>v.
      bind (declare_states (value pl) (\<lambda>x args. name_calls c (pl\<lparr>statement_id := Some x\<rparr>) args) es []) (\<lambda>st.
        next_do (report_root (x_syms c) root start tree v)
          (ret (root_element start v, root_tree v, undeclared es st)))))"

definition build_program :: "catalog \<Rightarrow> jsstr \<Rightarrow> entries \<Rightarrow> bool \<Rightarrow> nat \<Rightarrow> jserr + program_result" where
  "build_program cat root es partial count =
     (let c = \<lparr>x_syms = map (map_prod id entry_tree) es, x_cat = cat, x_partial = partial\<rparr>;
          start = find_root es root;
          unreached = map fst (filter (\<lambda>e. is_value (snd e) \<and> Some (fst e) \<noteq> map_option fst start) es)
      in case build_root c es root \<lparr>b_issues = [], b_unresolved = [], b_unreached = unreached\<rparr> of
        (Inl e, b) \<Rightarrow> Inl e
      | (Inr (h, expr, st), b) \<Rightarrow> Inr
          \<lparr>r_root = h, r_expr = expr, r_incomplete = partial, r_unresolved = b_unresolved b,
           r_orphaned = (if start \<noteq> None then b_unreached b else []), r_count = count, r_issues = b_issues b,
           r_state = st, r_queries = concat (map (query_of c) es), r_mutations = concat (map (mutation_of c) es)\<rparr>)"

section \<open>The parser object\<close>

definition empty_program :: "bool \<Rightarrow> program_result" where   \<comment> \<open>\<open>Jre\<close>\<close>
  "empty_program incomplete =
     \<lparr>r_root = VNull, r_expr = None, r_incomplete = incomplete, r_unresolved = [], r_orphaned = [], r_count = 0,
      r_issues = [], r_state = [], r_queries = [], r_mutations = []\<rparr>"

definition add_statement :: "entries \<Rightarrow> statement \<Rightarrow> entries" where
  "add_statement es s = put_field es (st_id s) (entry_of (st_type s) (raw_node (parse_expression (st_tokens s))))"

definition add_segment :: "entries \<times> nat \<Rightarrow> jsstr \<Rightarrow> entries \<times> nat" where   \<comment> \<open>the \<open>l\<close> of \<open>Bqt\<close>\<close>
  "add_segment en seg =
     (if js_trim seg = [] then en
      else foldl (\<lambda>(es, i) s. (add_statement es s, Suc i)) en (split_statements (tokenize (js_trim seg))))"

definition parse_program :: "catalog \<Rightarrow> jsstr \<Rightarrow> jsstr \<Rightarrow> jserr + program_result" where
  "parse_program cat root text =
     (let a = cleaned text; parts = segments 0 0 None False [] a; done = foldl add_segment ([], 0) (fst parts);
          b = js_trim (snd parts) in
      if b = [] then (if snd done = 0 then Inr (empty_program True) else build_program cat root (fst done) False (snd done))
      else let closed = autoclose b; v = split_statements (tokenize (fst closed)) in
        if v = [] then (if snd done = 0 then Inr (empty_program (snd closed))
                        else build_program cat root (fst done) (snd closed) (snd done))
        else build_program cat root
          (foldl (\<lambda>es s. if snd closed \<and> st_id s \<in> fst ` set (fst done) then es else add_statement es s) (fst done) v)
          (snd closed) (snd done + length v))"

end
