(* ===== verification/Lang_Eval.thy ===== *)
theory Lang_Eval
  imports Lang_Program
begin

text \<open>
  How the renderer evaluates what was built, read from the bundle \<open>web/artifact.js\<close>: the store of
  the state (\<open>Uae\<close>, with \<open>eN\<close> for a read), expressions (\<open>qt\<close>), and the properties of the elements
  before they are rendered (\<open>PT\<close> and \<open>Yqt\<close>). The result is \<open>None\<close> where the model ends: operators,
  calls of functions and actions, and objects that pass for expressions, actions or bindings,
  none of which gets past \<open>preflightView\<close>, and reads of functions of a prototype. No component of the page binds state, so that the
  schemas play no part here.
\<close>

section \<open>The store\<close>

record store =
  s_values :: fields
  s_pristine :: "jsstr list"

definition empty_store :: store where
  "empty_store = \<lparr>s_values = [], s_pristine = []\<rparr>"

text \<open>\<open>initialize\<close>: values that are kept win over declared ones, which win over older declared ones.\<close>

definition take_kept :: "store \<Rightarrow> jsstr \<times> rval \<Rightarrow> store" where
  "take_kept st e = \<lparr>s_values = put_field (s_values st) (fst e) (snd e), s_pristine = filter ((\<noteq>) (fst e)) (s_pristine st)\<rparr>"

definition take_declared :: "store \<Rightarrow> jsstr \<times> rval \<Rightarrow> store" where
  "take_declared st e =
     (if map_of (s_values st) (fst e) \<noteq> None then
        (if fst e \<in> set (s_pristine st) then st\<lparr>s_values := put_field (s_values st) (fst e) (snd e)\<rparr> else st)
      else \<lparr>s_values = put_field (s_values st) (fst e) (snd e), s_pristine = fst e # s_pristine st\<rparr>)"

definition initialize :: "fields \<Rightarrow> fields \<Rightarrow> store \<Rightarrow> store" where
  "initialize declared kept st = foldl take_declared (foldl take_kept st kept) declared"

definition unwrap :: "rval \<Rightarrow> rval" where   \<comment> \<open>\<open>eN\<close>\<close>
  "unwrap v =
     (case v of
        VObj kvs \<Rightarrow> (case map_of kvs (lit ''value'') of Some x \<Rightarrow> x | None \<Rightarrow> v)
      | VNode (NAssign x a) \<Rightarrow> VNode a
      | _ \<Rightarrow> v)"

definition get_state :: "store \<Rightarrow> jsstr \<Rightarrow> rval" where
  "get_state st x = unwrap (case map_of (s_values st) x of Some v \<Rightarrow> v | None \<Rightarrow> VUndef)"

text \<open>The store of the page: the declared state, and the entries of the initial state of the renderer.\<close>

definition page_store :: "fields \<Rightarrow> jsv \<Rightarrow> store" where
  "page_store declared state = initialize declared (map (map_prod id of_json) (entries_of state)) empty_store"

section \<open>Expressions\<close>

fun to_num :: "rval \<Rightarrow> jsnum" where   \<comment> \<open>\<open>wt\<close>\<close>
  "to_num (VNum x) = x"
| "to_num (VStr s) = (if str_number s = NaN then Fin False 0 0 else str_number s)"
| "to_num (VBool b) = (if b then Fin False 1 0 else Fin False 0 0)"
| "to_num v = Fin False 0 0"

fun key_text :: "rval \<Rightarrow> jsstr option" where   \<comment> \<open>\<open>String(v)\<close>\<close>
  "key_text (VStr s) = Some s"
| "key_text (VNum x) = Some (num_str x)"
| "key_text (VBool b) = Some (if b then lit ''true'' else lit ''false'')"
| "key_text _ = None"

definition element_fields :: "jsstr \<Rightarrow> fields \<Rightarrow> bool \<Rightarrow> bool \<Rightarrow> jsstr option \<Rightarrow> fields" where
  "element_fields e props partial dyn st =
     [(lit ''type'', VStr (lit ''element'')), (lit ''typeName'', VStr e), (lit ''props'', VObj props),
      (lit ''partial'', VBool partial), (lit ''hasDynamicProps'', VBool dyn)] @
     (case st of Some x \<Rightarrow> [(lit ''statementId'', VStr x)] | None \<Rightarrow> [])"

text \<open>
  \<open>v[k]\<close> for a value that is not null or undefined. A name that the value has only from a
  prototype would give a function; the model ends there.
\<close>

definition object_names :: "jsstr list" where
  "object_names = drop 2 reserved_names"

definition array_names :: "jsstr list" where
  "array_names = map lit [''at'', ''concat'', ''copyWithin'', ''entries'', ''every'', ''fill'', ''filter'', ''find'', ''findIndex'',
     ''findLast'', ''findLastIndex'', ''flat'', ''flatMap'', ''forEach'', ''includes'', ''indexOf'', ''join'', ''keys'', ''lastIndexOf'',
     ''map'', ''pop'', ''push'', ''reduce'', ''reduceRight'', ''reverse'', ''shift'', ''slice'', ''some'', ''sort'', ''splice'',
     ''toReversed'', ''toSorted'', ''toSpliced'', ''unshift'', ''values'', ''with'']"

definition string_names :: "jsstr list" where
  "string_names = map lit [''anchor'', ''at'', ''big'', ''blink'', ''bold'', ''charAt'', ''charCodeAt'', ''codePointAt'', ''concat'',
     ''endsWith'', ''fixed'', ''fontcolor'', ''fontsize'', ''includes'', ''indexOf'', ''isWellFormed'', ''italics'', ''lastIndexOf'',
     ''link'', ''localeCompare'', ''match'', ''matchAll'', ''normalize'', ''padEnd'', ''padStart'', ''repeat'', ''replace'', ''replaceAll'',
     ''search'', ''slice'', ''small'', ''split'', ''startsWith'', ''strike'', ''sub'', ''substr'', ''substring'', ''sup'',
     ''toLocaleLowerCase'', ''toLocaleUpperCase'', ''toLowerCase'', ''toUpperCase'', ''toWellFormed'', ''trim'', ''trimEnd'',
     ''trimLeft'', ''trimRight'', ''trimStart'']"

definition number_names :: "jsstr list" where
  "number_names = map lit [''toExponential'', ''toFixed'', ''toPrecision'']"

definition inherited_names :: "jsstr list" where
  "inherited_names = object_names @ array_names @ string_names @ number_names"

fun inherits :: "rval \<Rightarrow> jsstr list" where
  "inherits (VArr _) = object_names @ array_names"
| "inherits (VStr _) = object_names @ string_names"
| "inherits (VNum _) = object_names @ number_names"
| "inherits v = object_names"

fun own_field :: "rval \<Rightarrow> jsstr \<Rightarrow> rval option" where
  "own_field (VObj kvs) k = map_of kvs k"
| "own_field (VArr xs) k =
     (if k = lit ''length'' then Some (VNum (num_of_nat (length xs)))
      else case index_key k of Some i \<Rightarrow> if i < length xs then Some (xs ! i) else None | None \<Rightarrow> None)"
| "own_field (VStr s) k =
     (if k = lit ''length'' then Some (VNum (num_of_nat (length s)))
      else case index_key k of Some i \<Rightarrow> if i < length s then Some (VStr [s ! i]) else None | None \<Rightarrow> None)"
| "own_field (VElem e props partial dyn st) k = map_of (element_fields e props partial dyn st) k"
| "own_field _ k = None"

definition read_field :: "rval \<Rightarrow> jsstr \<Rightarrow> rval option" where
  "read_field v k =
     (case v of VNode _ \<Rightarrow> None
      | _ \<Rightarrow> (case own_field v k of Some x \<Rightarrow> Some x | None \<Rightarrow> if k \<in> set (inherits v) then None else Some VUndef))"

definition null_for_undef :: "rval \<Rightarrow> rval" where   \<comment> \<open>\<open>v ?? null\<close>\<close>
  "null_for_undef v = (if absent v then VNull else v)"

definition read_member :: "rval \<Rightarrow> jsstr \<Rightarrow> rval option" where
  "read_member a f =
     (if absent a then Some VNull
      else case a of
        VArr xs \<Rightarrow>
          if f = lit ''length'' then Some (VNum (num_of_nat (length xs)))
          else map_option VArr (those (map (\<lambda>x. if absent x then Some VNull else map_option null_for_undef (read_field x f)) xs))
      | _ \<Rightarrow> read_field a f)"

definition read_index :: "rval \<Rightarrow> rval \<Rightarrow> rval option" where
  "read_index a n =
     (if absent a \<or> absent n then Some VNull
      else case a of
        VArr xs \<Rightarrow> read_field a (num_str (to_num n))
      | _ \<Rightarrow> Option.bind (key_text n) (read_field a))"

text \<open>A call here is one of a component inside an expression; it is an element with its arguments by name.\<close>

fun eval :: "catalog \<Rightarrow> (jsstr \<Rightarrow> rval) \<Rightarrow> rnode \<Rightarrow> rval option" where   \<comment> \<open>\<open>qt\<close>\<close>
  "eval cat get (NStr s) = Some (VStr s)"
| "eval cat get (NNum x) = Some (VNum x)"
| "eval cat get (NBool b) = Some (VBool b)"
| "eval cat get NNull = Some VNull"
| "eval cat get (NPh x) = Some VNull"
| "eval cat get (NState x) = Some (get x)"
| "eval cat get (NArr els) = map_option VArr (those (map (eval cat get) els))"
| "eval cat get (NObj es) = map_option (VObj \<circ> put_all) (those_fields (map (map_prod id (eval cat get)) es))"
| "eval cat get (NMember a f) = Option.bind (eval cat get a) (\<lambda>v. read_member v f)"
| "eval cat get (NIndex a b) =
     Option.bind (eval cat get a) (\<lambda>v. Option.bind (eval cat get b) (read_index v))"
| "eval cat get (NComp e args m fn) =
     (case m of
        Some o' \<Rightarrow>
          if is_call cat e then None
          else map_option (\<lambda>props. VElem e props False True None)
            (those_fields (map (\<lambda>f. (fst f, case snd f of NState x \<Rightarrow> Some (VNode (NState x)) | a \<Rightarrow> eval cat get a)) o'))
      | None \<Rightarrow> if is_call cat e then None else Some VNull)"
| "eval cat get _ = None"

section \<open>Properties\<close>

text \<open>
  \<open>Yqt\<close> and \<open>PT\<close>: the properties of an element, and the values in them. A value that an
  expression gives is not looked into; one that is an element, a list with an element, a binding
  or a list of actions is outside the model.
\<close>

definition evaluated :: "rval \<Rightarrow> rval option" where
  "evaluated v =
     (case v of
        VObj kvs \<Rightarrow>
          if element_object kvs \<or> map_of kvs (lit ''__reactive'') = Some (VStr (lit ''assign'')) \<or>
             (case map_of kvs (lit ''steps'') of Some x \<Rightarrow> is_list x | None \<Rightarrow> False)
          then None else Some v
      | VArr xs \<Rightarrow> if list_ex is_element xs then None else Some v
      | VElem _ _ _ _ _ \<Rightarrow> None
      | _ \<Rightarrow> Some v)"

fun settle_value :: "catalog \<Rightarrow> (jsstr \<Rightarrow> rval) \<Rightarrow> rval \<Rightarrow> rval option" where
  "settle_value cat get (VNode n) = Option.bind (eval cat get n) evaluated"
| "settle_value cat get (VArr xs) = map_option VArr (those (map (settle_value cat get) xs))"
| "settle_value cat get (VElem e props partial dyn st) =
     (if dyn then map_option (\<lambda>ps. VElem e ps partial dyn st) (those_fields (map (map_prod id (settle_value cat get)) props))
      else Some (VElem e props partial dyn st))"
| "settle_value cat get (VObj kvs) =
     (if kind_of kvs \<or> element_object kvs \<or> (case map_of kvs (lit ''steps'') of Some x \<Rightarrow> is_list x | None \<Rightarrow> False) then None
      else if list_ex (\<lambda>f. object_like (snd f)) kvs
      then map_option VObj (those_fields (map (map_prod id (settle_value cat get)) kvs))
      else Some (VObj kvs))"
| "settle_value cat get v = Some v"

text \<open>\<open>renderNode\<close> takes an object for an element when its \<open>type\<close> says so.\<close>

definition renders_element :: "rval \<Rightarrow> bool" where
  "renders_element v \<longleftrightarrow>
     (case v of VElem _ _ _ _ _ \<Rightarrow> True | VObj kvs \<Rightarrow> map_of kvs (lit ''type'') = Some (VStr (lit ''element'')) | _ \<Rightarrow> False)"

end
