(* ===== verification/Lang_Build_Total.thy ===== *)
theory Lang_Build_Total
  imports Lang_Program
begin

text \<open>
  The build of a program returns: \<open>returns\<close> says that an action returns from every state, its
  rules follow the combinators, and a measure of what is left to resolve bounds the fuel.
\<close>

section \<open>Actions that return\<close>

definition returns :: "('s, 'a) jsm \<Rightarrow> bool" where
  "returns m \<longleftrightarrow> (\<forall>s. \<exists>x s'. m s = (Inr x, s'))"

named_theorems totals \<open>rules for \<open>returns\<close>\<close>

lemma total_ret [totals]: "returns (ret x)"
  by (simp add: returns_def ret_def)

lemma total_modify [totals]: "returns (modify f)"
  by (simp add: returns_def modify_def)

lemma total_gets [totals]: "returns (gets f)"
  by (simp add: returns_def gets_def)

lemma total_bind [totals]: "returns m \<Longrightarrow> (\<And>x. returns (f x)) \<Longrightarrow> returns (bind m f)"
  unfolding returns_def bind_def by (auto split: prod.split sum.split) (metis old.prod.inject Inl_Inr_False sum.inject(2))+

lemma total_next_do [totals]: "returns m \<Longrightarrow> returns n \<Longrightarrow> returns (next_do m n)"
  by (simp add: next_do_def total_bind)

lemma total_if [totals]: "returns m \<Longrightarrow> returns n \<Longrightarrow> returns (if b then m else n)"
  by simp

lemma total_traverse: "(\<And>x. x \<in> set xs \<Longrightarrow> returns (f x)) \<Longrightarrow> returns (traverse f xs)"
  by (induction xs) (simp_all add: totals)

lemma total_fields: "(\<And>e. e \<in> set es \<Longrightarrow> returns (f (snd e))) \<Longrightarrow> returns (traverse_fields f es)"
  unfolding traverse_fields_def by (intro totals total_traverse) auto

lemma total_push [totals]: "returns (push_issues is)" "returns (push_issue c pl e p code)"
  by (simp_all add: push_issue_def push_issues_def totals)

lemma total_check [totals]: "returns (check_prop c pl e p v)"
  by (simp add: check_prop_def totals split: prod.split)

lemma total_check_args [totals]: "returns (check_args c pl e ps rest o' bad)"
proof (induction rest arbitrary: o' bad)
  case (Cons p rest)
  then show ?case by (auto intro!: totals split: option.split)
qed (simp add: totals)

lemma total_map_args [totals]: "returns (map_args c pl e args d)"
  unfolding map_args_def by (intro totals)

lemma total_call_node [totals]: "returns (call_node c pl e args m fn)"
  unfolding call_node_def by (auto intro!: totals split: option.split)

section \<open>Fuel\<close>

text \<open>The size of the definitions that are not being resolved.\<close>

definition unvisited :: "build_context \<Rightarrow> place \<Rightarrow> nat" where
  "unvisited c pl = sum_list (map (\<lambda>e. Suc (size (snd e))) (filter (\<lambda>e. fst e \<notin> set (visited pl)) (x_syms c)))"

definition enough :: "nat \<Rightarrow> build_context \<Rightarrow> place \<Rightarrow> rnode \<Rightarrow> bool" where
  "enough k c pl n \<longleftrightarrow> size n + unvisited c pl < k"

lemma filter_sum_le: "sum_list (map f (filter (\<lambda>e. P e \<and> Q e) xs)) \<le> (sum_list (map f (filter P xs)) :: nat)"
  by (induction xs) auto

lemma unvisited_drop:
  assumes "x \<notin> set (visited pl)" and "map_of (x_syms c) x = Some a"
  shows "Suc (size a) + unvisited c \<lparr>visited = x # visited pl, statement_id = st\<rparr> \<le> unvisited c pl"
proof -
  have "Suc (size a) + sum_list (map (\<lambda>e. Suc (size (snd e))) (filter (\<lambda>e. fst e \<noteq> x \<and> fst e \<notin> set (visited pl)) syms))
      \<le> sum_list (map (\<lambda>e. Suc (size (snd e))) (filter (\<lambda>e. fst e \<notin> set (visited pl)) syms))"
    if "map_of syms x = Some a" for syms
    using that
  proof (induction syms)
    case (Cons e syms)
    show ?case
    proof (cases "fst e = x")
      case True
      then have "snd e = a" using Cons.prems by (cases e) simp
      then show ?thesis
        using True assms(1) filter_sum_le[of "\<lambda>e. Suc (size (snd e))" "\<lambda>e. fst e \<notin> set (visited pl)" "\<lambda>e. fst e \<noteq> x" syms]
        by (simp add: conj_commute)
    next
      case False
      then have "map_of syms x = Some a" using Cons.prems by (cases e) simp
      then show ?thesis using Cons.IH False by simp
    qed
  qed simp
  from this[OF assms(2)] show ?thesis by (simp add: unvisited_def)
qed

lemma enough_name:
  assumes "enough (Suc k) c pl (NRef x)" and "x \<notin> set (visited pl)" and "map_of (x_syms c) x = Some a"
  shows "enough k c \<lparr>visited = x # visited pl, statement_id = st\<rparr> a"
  using assms(1) unvisited_drop[OF assms(2,3), of st] by (simp add: enough_def)

lemma size_arg: "a \<in> set args \<Longrightarrow> size a < size (NComp e args m fn)" "a \<in> set els \<Longrightarrow> size a < size (NArr els)"
  "f \<in> set es \<Longrightarrow> size (snd f) < size (NObj es)"
  using size_list_estimation'[of a args "size a" size] size_list_estimation'[of a els "size a" size]
    size_list_estimation'[of f es "size (snd f)" "size_prod (\<lambda>_. 0) size"] by (cases f; auto)+

lemma enough_part: "enough (Suc k) c pl n \<Longrightarrow> size m < size n \<Longrightarrow> enough k c pl m"
  by (simp add: enough_def)

lemma total_resolve_name:
  assumes "\<And>a. x \<notin> set (visited pl) \<Longrightarrow> map_of (x_syms c) x = Some a \<Longrightarrow>
      returns (f \<lparr>visited = x # visited pl, statement_id = Some x\<rparr> a)"
  shows "returns (resolve_name c pl x missing late f)"
  using assms unfolding resolve_name_def by (auto intro!: totals split: option.split rnode.split)

lemma total_loop:
  assumes "loop_var c e args = Some x" and "\<And>a. a \<in> set args \<Longrightarrow> returns (f a)"
  shows "returns (loop_node f e args m fn)"
proof -
  have "args \<noteq> []" using assms(1) by (auto simp: loop_var_def split: option.splits if_splits)
  then show ?thesis
    unfolding loop_node_def using assms(2) by (auto intro!: totals total_traverse dest: in_set_dropD)
qed

lemma total_resolve_comp:
  assumes "\<And>bound a. a \<in> set args \<Longrightarrow> returns (r pl bound a)"
  shows "returns (resolve_comp c r pl bound e args m fn)"
  unfolding resolve_comp_def using assms
  by (auto intro!: totals total_traverse total_loop split: option.split)

lemma resolve_total: "enough k c pl n \<Longrightarrow> returns (resolve k c pl bound n)"
proof (induction k arbitrary: pl bound n)
  case 0
  then show ?case by (simp add: enough_def)
next
  case (Suc k)
  have part: "returns (resolve k c pl bound' m)" if "size m < size n" for m bound'
    using Suc.IH enough_part[OF Suc.prems that] by blast
  show ?case
  proof (cases n)
    case (NRef x)
    then show ?thesis using Suc enough_name[of k c pl x] by (auto intro!: totals total_resolve_name)
  next
    case (NComp e args m fn)
    then show ?thesis using part size_arg(1) by (auto intro!: total_resolve_comp)
  next
    case (NArr els)
    then show ?thesis using part size_arg(2) by (auto intro!: totals total_traverse)
  next
    case (NObj es)
    then show ?thesis using part size_arg(3) by (auto intro!: totals total_fields)
  qed (use part in \<open>auto intro!: totals\<close>)
qed

lemma total_take_prop [totals]: "returns (take_prop c pl e p f st)"
  unfolding take_prop_def Let_def by (auto intro!: totals split: prod.split option.split)

lemma total_take_props: "(\<And>a. a \<in> set args \<Longrightarrow> returns (v pl a)) \<Longrightarrow> returns (take_props c v pl e ps args st)"
  by (induction c v pl e ps args st rule: take_props.induct) (auto intro!: totals)

lemma total_element:
  "(\<And>a. a \<in> set args \<Longrightarrow> returns (v pl a)) \<Longrightarrow> returns (element_value c v pl e ps args)"
  unfolding element_value_def by (auto intro!: totals total_take_props split: prod.split)

lemma total_comp:
  assumes "\<And>bound a. a \<in> set args \<Longrightarrow> returns (r pl bound a)" and "\<And>a. a \<in> set args \<Longrightarrow> returns (v pl a)"
  shows "returns (comp_value c r v pl e args m fn)"
  unfolding comp_value_def using assms
  by (auto intro!: totals total_traverse total_loop total_element split: option.split)

lemma total_array: "(\<And>a. a \<in> set els \<Longrightarrow> returns (f a)) \<Longrightarrow> returns (array_values f els)"
  by (induction els) (auto intro!: totals split: rnode.split)

lemma valuate_total: "enough k c pl n \<Longrightarrow> returns (valuate (Suc k) c pl n)"
proof (induction k arbitrary: pl n)
  case 0
  then show ?case by (simp add: enough_def)
next
  case (Suc k)
  have part: "returns (valuate (Suc k) c pl m)" "returns (resolve (Suc k) c pl bound m)" if "size m < size n" for m bound
    using Suc.IH enough_part[OF Suc.prems that] resolve_total[of "Suc k" c pl m bound] by (auto simp: enough_def)
  have same: "returns (resolve (Suc k) c pl [] n)" using resolve_total[OF Suc.prems] .
  note step = valuate.simps(2)[of "Suc k" c]
  show ?case
  proof (cases n)
    case (NRef x)
    then show ?thesis unfolding step using Suc enough_name[of k c pl x]
      by (auto intro!: totals total_resolve_name simp del: valuate.simps)
  next
    case (NComp e args m fn)
    then show ?thesis unfolding step using part size_arg(1) by (auto intro!: total_comp simp del: valuate.simps resolve.simps)
  next
    case (NArr els)
    then show ?thesis unfolding step using part size_arg(2) by (auto intro!: totals total_array simp del: valuate.simps resolve.simps)
  next
    case (NObj es)
    then show ?thesis unfolding step using part size_arg(3) by (auto intro!: totals total_fields simp del: valuate.simps resolve.simps)
  qed (unfold step, use same in \<open>auto intro!: totals simp del: valuate.simps resolve.simps\<close>)
qed

section \<open>The program\<close>

lemma build_fuel_enough:
  assumes "(x, a) \<in> set (x_syms c)"
  shows "returns (valuate (build_fuel (x_syms c)) c \<lparr>visited = [], statement_id = st\<rparr> a)"
proof -
  let ?sum = "sum_list (map (\<lambda>e. Suc (size (snd e))) (x_syms c))"
  have "Suc (size a) \<le> ?sum" using assms by (induction "x_syms c" rule: list.induct) (force dest: split_list simp: sum_list.append)+
  moreover have "unvisited c \<lparr>visited = [], statement_id = st\<rparr> = ?sum" by (simp add: unvisited_def)
  ultimately show ?thesis unfolding build_fuel_def by (intro valuate_total) (simp add: enough_def)
qed

lemma total_name_calls [totals]: "returns (name_calls c pl ns)"
  unfolding name_calls_def name_call_def name_args_def
  by (auto intro!: totals total_traverse split: rnode.split option.split)

lemma total_declare:
  assumes "\<And>t. StateEntry t \<in> snd ` set es \<Longrightarrow> returns (f t)" and "\<And>x args. returns (q x args)"
  shows "returns (declare_states f q es st)"
  using assms by (induction f q es st rule: declare_states.induct) (auto intro!: totals split: entry.split)

lemma total_report [totals]: "returns (report_root syms root start tree v)"
  unfolding report_root_def Let_def no_root_def by (cases start) (simp_all add: totals)

lemma build_root_total:
  assumes "x_syms c = map (map_prod id entry_tree) es"
  shows "returns (build_root c es root)"
proof -
  let ?start = "find_root es root"
  let ?pl = "\<lparr>visited = [], statement_id = map_option fst ?start\<rparr>"
  have tree: "returns (case Option.bind ?start (\<lambda>l. map_of (x_syms c) (fst l)) of
      Some t \<Rightarrow> valuate (build_fuel (x_syms c)) c ?pl t | None \<Rightarrow> ret VNull)"
    by (cases "Option.bind ?start (\<lambda>l. map_of (x_syms c) (fst l))")
      (auto intro!: total_ret build_fuel_enough dest: map_of_SomeD split: bind_splits)
  have "returns (valuate (build_fuel (x_syms c)) c ?pl t)" if st: "StateEntry t \<in> snd ` set es" for t
  proof -
    obtain x where "(x, StateEntry t) \<in> set es" using st by force
    then have "(x, t) \<in> set (x_syms c)" using assms by force
    then show ?thesis by (rule build_fuel_enough)
  qed
  then show ?thesis
    unfolding build_root_def Let_def by (intro totals tree total_declare)
qed

lemma build_program_returns: "\<exists>r. build_program cat root es partial count = Inr r"
proof -
  let ?c = "\<lparr>x_syms = map (map_prod id entry_tree) es, x_cat = cat, x_partial = partial\<rparr>"
  have "returns (build_root ?c es root)" by (rule build_root_total) simp
  then obtain x b where "build_root ?c es root \<lparr>b_issues = [], b_unresolved = [],
      b_unreached = map fst (filter (\<lambda>e. is_value (snd e) \<and> Some (fst e) \<noteq> map_option fst (find_root es root)) es)\<rparr> = (Inr x, b)"
    unfolding returns_def by blast
  then show ?thesis by (cases x) (simp add: build_program_def Let_def)
qed

lemma parse_program_returns: "\<exists>r. parse_program cat root text = Inr r"
  using build_program_returns unfolding parse_program_def Let_def by (auto split: if_split)

end
