(* ===== verification/Lang_Build_Typed.thy ===== *)
theory Lang_Build_Typed
  imports Lang_Program
begin

text \<open>
  The elements that the build makes are well typed: an element is one of a component of the
  catalog, its properties are parameters of the component, each one conforms to the schema of its
  parameter or is the default of it, and no required one is missing, at every depth of the value.
\<close>

section \<open>Well-typed values\<close>

definition value_scope :: "build_context \<Rightarrow> scope" where
  "value_scope c = \<lparr>c_component = [], c_statement = None, c_partial = x_partial c,
     c_known = map fst (k_comps (x_cat c))\<rparr>"

definition prop_typed :: "build_context \<Rightarrow> fields \<Rightarrow> param \<Rightarrow> bool" where
  "prop_typed c props p \<longleftrightarrow>
     (case map_of props (p_name p) of None \<Rightarrow> True
      | Some x \<Rightarrow> p_schema p = JUndef \<or> p_default p \<noteq> JUndef \<and> x = of_json (p_default p) \<or>
          conforms (value_scope c) (p_schema p) x)"

definition props_typed :: "build_context \<Rightarrow> param list \<Rightarrow> fields \<Rightarrow> bool" where
  "props_typed c ps props \<longleftrightarrow> fst ` set props \<subseteq> p_name ` set ps \<and>
     (\<forall>p \<in> set ps. prop_typed c props p \<and> (p_required p \<longrightarrow> \<not> null_prop props p \<or> p_default p \<noteq> JUndef))"

fun built :: "build_context \<Rightarrow> rval \<Rightarrow> bool" where
  "built c (VElem e props partial dyn st) \<longleftrightarrow>
     (case map_of (k_comps (x_cat c)) e of None \<Rightarrow> False | Some ps \<Rightarrow> props_typed c ps props) \<and>
     (\<forall>f \<in> set props. built c (snd f))"
| "built c (VArr xs) \<longleftrightarrow> (\<forall>x \<in> set xs. built c x)"
| "built c (VObj kvs) \<longleftrightarrow> (\<forall>f \<in> set kvs. built c (snd f))"
| "built c v = True"

text \<open>Schemas of JSON objects: the parameters of a component have different names.\<close>

definition catalog_ok :: "catalog \<Rightarrow> bool" where
  "catalog_ok cat \<longleftrightarrow> (\<forall>e \<in> set (k_comps cat). distinct (map p_name (snd e)))"

definition fields_built :: "build_context \<Rightarrow> fields \<Rightarrow> bool" where
  "fields_built c kvs \<longleftrightarrow> (\<forall>f \<in> set kvs. built c (snd f))"

section \<open>Helpers\<close>

lemma only_components_scope: "c_known sc = c_known sc' \<Longrightarrow> only_components sc t = only_components sc' t"
  unfolding only_components_def by simp

lemma literal_issue_scope: "c_partial sc = c_partial sc' \<Longrightarrow> literal_issue sc t v = literal_issue sc' t v"
  by (cases "enum_values t") (simp_all add: literal_issue_def)

lemma conforms_scope:
  assumes "c_partial sc = c_partial sc'" "c_known sc = c_known sc'"
  shows "conforms sc t v = conforms sc' t v"
proof (induction v arbitrary: t rule: measure_induct_rule[of size])
  case (less v)
  note parts = only_components_scope[OF assms(2), of t] literal_issue_scope[OF assms(1), of t v] assms(1)
  show ?case
  proof (cases v)
    case (VObj kvs)
    have "conforms sc s (snd e) = conforms sc' s (snd e)" if "e \<in> set kvs" for e s
      using less.IH[of "snd e" s] member_size[OF that] VObj by (simp add: fields_size_def)
    then show ?thesis
      unfolding VObj conforms.simps[of sc t "VObj kvs"] conforms.simps[of sc' t "VObj kvs"]
      using parts[unfolded VObj] by simp
  next
    case (VArr xs)
    have "conforms sc s x = conforms sc' s x" if "x \<in> set xs" for x s
      using less.IH[of x s] item_size[OF that] VArr by simp
    then show ?thesis
      unfolding VArr conforms.simps[of sc t "VArr xs"] conforms.simps[of sc' t "VArr xs"]
      using parts[unfolded VArr] by simp
  qed (unfold conforms.simps[of sc t v] conforms.simps[of sc' t v], use parts in simp_all)
qed

lemma set_put: "f \<in> set (put_field kvs k v) \<Longrightarrow> f = (k, v) \<or> f \<in> set kvs"
  by (induction kvs) (auto split: if_splits)

lemma fields_built_simps [simp]:
  "fields_built c []" "fields_built c (f # kvs) \<longleftrightarrow> built c (snd f) \<and> fields_built c kvs"
  by (auto simp: fields_built_def)

lemma built_VObj [simp]: "built c (VObj kvs) \<longleftrightarrow> fields_built c kvs"
  by (simp add: fields_built_def)

declare built.simps(3) [simp del]

lemma built_put: "fields_built c kvs \<Longrightarrow> built c v \<Longrightarrow> fields_built c (put_field kvs k v)"
  unfolding fields_built_def by (metis set_put snd_conv)

lemma built_drop: "fields_built c kvs \<Longrightarrow> fields_built c (drop_field kvs k)"
  by (simp add: fields_built_def drop_field_def)

lemma built_json [simp]: "built c (of_json j)"
  by (induction j) (auto simp: fields_built_def)

lemma built_put_all: "fields_built c kvs \<Longrightarrow> fields_built c (put_all kvs)"
proof -
  have "fields_built c acc \<Longrightarrow> fields_built c kvs \<Longrightarrow>
      fields_built c (foldl (\<lambda>acc e. put_field acc (fst e) (snd e)) acc kvs)" for acc kvs
    by (induction kvs arbitrary: acc) (simp_all add: built_put)
  then show "fields_built c kvs \<Longrightarrow> fields_built c (put_all kvs)" by (simp add: put_all_def)
qed

section \<open>The check keeps values well typed\<close>

lemma fill_required_built:
  "fill_required sc props path old ds cur = (bad, cur', is) \<Longrightarrow> fields_built c cur \<Longrightarrow> fields_built c cur'"
proof (induction ds arbitrary: cur bad cur' "is")
  case (Cons d ds)
  show ?case
  proof (cases "lacks old d \<and> default_of (prop_schema props d) = JUndef")
    case True
    then obtain bad' is' where "fill_required sc props path old ds cur = (bad', cur', is')"
      using Cons.prems by (auto split: prod.splits)
    then show ?thesis using Cons.IH Cons.prems(2) by blast
  next
    case False
    let ?c = "if lacks old d then put_field cur d (of_json (default_of (prop_schema props d))) else cur"
    have "fill_required sc props path old ds ?c = (bad, cur', is)"
      using Cons.prems False by (auto split: if_splits)
    from Cons.IH[OF this] show ?thesis using Cons.prems(2) built_put by simp
  qed
qed simp

lemma step_fields_built: "fields_built c cur \<Longrightarrow> built c m \<Longrightarrow> fields_built c (step_fields cur d x m)"
  by (simp add: step_fields_def built_put built_drop)

lemma check_keys_built:
  assumes "\<And>d x s p v'. map_of kvs d = Some x \<Longrightarrow> fst (check_value sc s x p) = Some v' \<Longrightarrow> built c v'"
  shows "fields_built c cur \<Longrightarrow> fields_built c (fst (snd (check_keys sc req props path kvs ds cur)))"
proof (induction ds arbitrary: cur)
  case (Cons d ds)
  show ?case
  proof (cases "map_of kvs d")
    case None
    then show ?thesis using Cons by simp
  next
    case (Some x)
    obtain r "is" where r: "check_value sc (prop_schema props d) x (sub_path path d) = (r, is)" by fastforce
    show ?thesis
    proof (cases "case r of Some m \<Rightarrow> Some m | None \<Rightarrow> settle (d \<in> set req) (default_of (prop_schema props d))")
      case None
      have "fields_built c (fst (snd (check_keys sc req props path kvs ds cur)))" using Cons by blast
      then show ?thesis
        by (simp only: check_keys_Some[OF Some] r prod.case None option.case) (auto split: prod.split)
    next
      case m: (Some m)
      have "built c m" using m assms[OF Some, of "prop_schema props d" "sub_path path d"] r
        by (auto simp: settle_def split: option.splits if_splits)
      then have "fields_built c (fst (snd (check_keys sc req props path kvs ds (step_fields cur d x m))))"
        using Cons step_fields_built by blast
      then show ?thesis
        by (simp only: check_keys_Some[OF Some] r prod.case m option.case) (auto split: prod.split)
    qed
  qed
qed simp

lemma check_items_built:
  "(\<And>x p v'. x \<in> set xs \<Longrightarrow> fst (check_value sc t x p) = Some v' \<Longrightarrow> built c v') \<Longrightarrow>
    \<forall>y \<in> set (fst (check_items sc t path l xs)). built c y"
proof (induction xs arbitrary: l)
  case (Cons x xs)
  have "\<forall>y \<in> set (fst (check_items sc t path (l + 1) xs)). built c y"
    by (rule Cons.IH) (use Cons.prems in auto)
  then show ?case using Cons.prems[of x "sub_path path (nat_str l)"] by (auto split: prod.splits option.splits)
qed simp

lemma check_built: "built c v \<Longrightarrow> fst (check_value sc t v path) = Some v' \<Longrightarrow> built c v'"
proof (induction v arbitrary: t path v' rule: measure_induct_rule[of size])
  case (less v)
  note step = check_value.simps[of sc t v path]
  show ?case
  proof (cases "v' = v")
    case False
    then consider (object) kvs where "v = VObj kvs" "prop_or_undef t (lit ''type'') = JStr (lit ''object'')"
        "\<not> (\<not> plain_object t \<or> absent v \<or> is_node v)" "\<not> is_element v" "\<not> is_union t"
      | (array) xs where "v = VArr xs"
      using less.prems(2) step by (cases v) (auto split: if_splits option.splits)
    then show ?thesis
    proof cases
      case object
      obtain bad1 cur is1 where fill: "fill_required sc (schema_props t) path kvs
          (if c_partial sc then [] else required_keys t) kvs = (bad1, cur, is1)" by (cases rule: prod_cases3) blast
      obtain bad2 cur' is2 where run: "check_keys sc (required_keys t) (schema_props t) path kvs
          (map fst (schema_props t)) cur = (bad2, cur', is2)" by (cases rule: prod_cases3) blast
      have v': "v' = VObj cur'"
        using less.prems(2) step object fill run by (simp split: if_splits)
      have "fields_built c cur" using fill_required_built[OF fill] less.prems(1) object(1) by (simp only: built_VObj)
      moreover have "built c w" if x: "map_of kvs d = Some x" and w: "fst (check_value sc s x p) = Some w" for d x s p w
      proof -
        have "built c x" using less.prems(1) object map_of_SomeD[OF x] by (force simp: fields_built_def)
        moreover have "size x < size v" using field_size[OF x] object by (simp add: fields_size_def)
        ultimately show ?thesis using less.IH w by blast
      qed
      ultimately have "fields_built c (fst (snd (check_keys sc (required_keys t) (schema_props t) path kvs
          (map fst (schema_props t)) cur)))" by (intro check_keys_built)
      then show ?thesis using run v' by (simp add: built_VObj)
    next
      case array
      have "\<forall>y \<in> set (fst (check_items sc (prop_or_undef t (lit ''items'')) path 0 xs)). built c y"
      proof (rule check_items_built)
        fix x p w assume x: "x \<in> set xs" "fst (check_value sc (prop_or_undef t (lit ''items'')) x p) = Some w"
        show "built c w" by (rule less.IH[OF _ _ x(2)]) (use item_size[OF x(1)] less.prems(1) array x(1) in auto)
      qed
      then show ?thesis using less.prems(2) step array False by (auto split: if_splits prod.splits option.splits)
    qed
  qed (use less in simp)
qed

section \<open>Actions and their results\<close>

definition gives :: "('s, 'a) jsm \<Rightarrow> ('a \<Rightarrow> bool) \<Rightarrow> bool" where
  "gives m P \<longleftrightarrow> (\<forall>s x s'. m s = (Inr x, s') \<longrightarrow> P x)"

named_theorems gives \<open>rules for \<open>gives\<close>\<close>

lemma gives_ret: "P x \<Longrightarrow> gives (ret x) P"
  by (simp add: gives_def ret_def)

lemma gives_throw [gives]: "gives (throw e) P"
  by (simp add: gives_def throw_def)

lemma gives_any: "(\<And>x. P x) \<Longrightarrow> gives m P"
  by (simp add: gives_def)

lemma gives_bind: "gives m P \<Longrightarrow> (\<And>x. P x \<Longrightarrow> gives (f x) Q) \<Longrightarrow> gives (bind m f) Q"
  unfolding gives_def bind_def by (fastforce split: prod.splits sum.splits)

lemma gives_then: "(\<And>x. gives (f x) Q) \<Longrightarrow> gives (bind m f) Q"
  unfolding gives_def bind_def by (fastforce split: prod.splits sum.splits)

lemma gives_next: "gives n Q \<Longrightarrow> gives (next_do m n) Q"
  by (simp add: next_do_def gives_then)

lemma gives_traverse: "(\<And>x. x \<in> set xs \<Longrightarrow> gives (f x) P) \<Longrightarrow> gives (traverse f xs) (list_all P)"
proof (induction xs)
  case (Cons x xs)
  then have "gives (f x) P" "gives (traverse f xs) (list_all P)" by simp_all
  then show ?case by (auto intro!: gives_ret gives_bind[of "f x" P] gives_bind[of _ "list_all P"])
qed (simp add: gives_ret)

section \<open>The build\<close>

lemma check_prop_typed:
  assumes "built c f"
  shows "gives (check_prop c pl e p f)
    (\<lambda>r. \<forall>m. r = Some m \<longrightarrow> built c m \<and> conforms (value_scope c) (p_schema p) m)"
proof -
  have "built c m \<and> conforms (value_scope c) (p_schema p) m"
    if "fst (check_value (place_scope c pl e) (p_schema p) f (47 # p_name p)) = Some m" for m
    using check_built[OF assms that] check_sound[OF that]
      conforms_scope[of "place_scope c pl e" "value_scope c" "p_schema p" m]
    by (simp add: place_scope_def value_scope_def)
  then show ?thesis
    unfolding check_prop_def by (auto intro!: gives_next gives_ret split: prod.splits)
qed

text \<open>The properties while the arguments of a component are taken.\<close>

definition taking :: "build_context \<Rightarrow> param list \<Rightarrow> fields \<times> bool \<Rightarrow> bool" where
  "taking c ps st \<longleftrightarrow> fields_built c (fst st) \<and> fst ` set (fst st) \<subseteq> p_name ` set ps \<and>
     (\<not> snd st \<longrightarrow> (\<forall>p \<in> set ps. prop_typed c (fst st) p))"

lemma keys_put: "fst ` set (put_field kvs k v) = insert k (fst ` set kvs)"
  by (induction kvs) auto

lemma keys_drop: "fst ` set (drop_field kvs k) \<subseteq> fst ` set kvs"
  by (auto simp: drop_field_def)

lemma same_name: "distinct (map p_name ps) \<Longrightarrow> p \<in> set ps \<Longrightarrow> q \<in> set ps \<Longrightarrow> p_name p = p_name q \<Longrightarrow> p = q"
  by (simp add: distinct_map inj_on_def)

lemma prop_typed_put:
  "prop_typed c (put_field props k m) q \<longleftrightarrow>
    (if p_name q = k then p_schema q = JUndef \<or> p_default q \<noteq> JUndef \<and> m = of_json (p_default q) \<or> conforms (value_scope c) (p_schema q) m
     else prop_typed c props q)"
  by (simp add: prop_typed_def)

lemma taking_put:
  assumes "distinct (map p_name ps)" "p \<in> set ps" "taking c ps (props, bad)" "built c m"
    and "\<not> bad' \<Longrightarrow> \<not> bad \<and> (p_schema p = JUndef \<or> p_default p \<noteq> JUndef \<and> m = of_json (p_default p) \<or> conforms (value_scope c) (p_schema p) m)"
  shows "taking c ps (put_field props (p_name p) m, bad')"
proof -
  have "prop_typed c (put_field props (p_name p) m) q" if "\<not> bad'" "q \<in> set ps" for q
  proof (cases "p_name q = p_name p")
    case True
    then have "q = p" using same_name assms(1,2) that by blast
    then show ?thesis using assms(5) that by (simp add: prop_typed_put)
  next
    case False
    then show ?thesis using assms(3,5) that by (simp add: prop_typed_put taking_def)
  qed
  then show ?thesis using assms(2-4) by (simp add: taking_def built_put keys_put)
qed

lemma taking_drop: "taking c ps (props, bad) \<Longrightarrow> taking c ps (drop_field props k, bad)"
  using keys_drop[of props k] by (auto simp: taking_def built_drop prop_typed_def)

lemma put_put: "put_field (put_field props k f) k m = put_field props k m"
  by (induction props) auto

lemma drop_put: "drop_field (put_field props k f) k = drop_field props k"
  by (induction props) (auto simp: drop_field_def)

lemma take_prop_typed:
  assumes "distinct (map p_name ps)" "p \<in> set ps" "taking c ps st" "built c f"
  shows "gives (take_prop c pl e p f st) (taking c ps)"
proof -
  obtain props bad where st: "st = (props, bad)" by fastforce
  note put = taking_put[OF assms(1,2) assms(3)[unfolded st]]
  show ?thesis
  proof (cases "p_schema p = JUndef")
    case True
    then show ?thesis using put[of f bad] assms(4) by (simp add: take_prop_def st gives_ret)
  next
    case False
    have step: "gives (case r of
          Some m \<Rightarrow> ret (if m = VUndef then put_field props (p_name p) f else put_field (put_field props (p_name p) f) (p_name p) m, bad)
        | None \<Rightarrow> (case settle (p_required p) (p_default p) of
            None \<Rightarrow> ret (put_field props (p_name p) f, True)
          | Some m \<Rightarrow> ret (if m = VUndef then drop_field (put_field props (p_name p) f) (p_name p)
              else put_field (put_field props (p_name p) f) (p_name p) m, bad))) (taking c ps)"
      if r: "\<forall>m. r = Some m \<longrightarrow> built c m \<and> conforms (value_scope c) (p_schema p) m" "r = Some VUndef \<longrightarrow> f = VUndef" for r
    proof (cases r)
      case None
      have "taking c ps (put_field props (p_name p) f, True)" using put[of f True] assms(4) by simp
      moreover have "taking c ps (put_field props (p_name p) m, bad)" if "p_default p \<noteq> JUndef" "m = of_json (p_default p)" for m
        using put[of m bad] that by simp
      moreover have "taking c ps (drop_field props (p_name p), bad)" using assms(3) st taking_drop by blast
      ultimately show ?thesis using None
        by (auto simp: settle_def put_put drop_put intro!: gives_ret)
    next
      case (Some m)
      then have "taking c ps (put_field props (p_name p) m, bad)" using put[of m bad] r by simp
      then show ?thesis using Some r by (auto simp: put_put intro!: gives_ret)
    qed
    have chk: "gives (check_prop c pl e p f)
        (\<lambda>r. (\<forall>m. r = Some m \<longrightarrow> built c m \<and> conforms (value_scope c) (p_schema p) m) \<and> (r = Some VUndef \<longrightarrow> f = VUndef))"
    proof -
      have "f = VUndef" if "fst (check_value (place_scope c pl e) (p_schema p) f (47 # p_name p)) = Some VUndef"
        using check_passes[of "place_scope c pl e" "p_schema p" f "47 # p_name p"] that by (auto simp: pass_ok_def)
      then show ?thesis using check_prop_typed[OF assms(4), of pl e p]
        unfolding gives_def check_prop_def by (auto simp: jsm_defs push_issues_def split: prod.splits)
    qed
    show ?thesis
      unfolding take_prop_def st prod.case Let_def if_not_P[OF False]
      by (rule gives_bind[OF chk], rule step) blast+
  qed
qed

lemma take_props_typed:
  assumes "distinct (map p_name all)"
  shows "set ps \<subseteq> set all \<Longrightarrow> (\<And>a. a \<in> set args \<Longrightarrow> gives (v pl a) (built c)) \<Longrightarrow> taking c all st \<Longrightarrow>
    gives (take_props c v pl e ps args st) (taking c all)"
proof (induction c v pl e ps args st rule: take_props.induct)
  case (1 c v pl e p ps a as st)
  show ?case
    unfolding take_props.simps
  proof (rule gives_bind[of _ "built c"])
    show "gives (v pl a) (built c)" using "1.prems" by simp
    fix f assume "built c f"
    then have "gives (take_prop c pl e p f st) (taking c all)"
      using take_prop_typed[OF assms] "1.prems" by simp
    then show "gives (bind (take_prop c pl e p f st) (take_props c v pl e ps as)) (taking c all)"
      by (rule gives_bind) (use "1.IH" "1.prems" in simp)
  qed
qed (simp_all add: gives_ret)

lemma with_defaults_put:
  assumes "distinct (map p_name ps)" "set qs \<subseteq> set ps" "taking c ps (props, False)" "\<forall>q \<in> set qs. p_default q \<noteq> JUndef"
  shows "taking c ps (foldl (\<lambda>acc p. put_field acc (p_name p) (of_json (p_default p))) props qs, False)"
  using assms(2-4)
proof (induction qs arbitrary: props)
  case (Cons q qs)
  have "taking c ps (put_field props (p_name q) (of_json (p_default q)), False)"
    by (rule taking_put[OF assms(1) _ Cons.prems(2)]) (use Cons.prems in auto)
  then show ?case using Cons by simp
qed simp

lemma foldl_put_other:
  "k \<notin> p_name ` set qs \<Longrightarrow> map_of (foldl (\<lambda>acc p. put_field acc (p_name p) (of_json (p_default p))) props qs) k = map_of props k"
  by (induction qs arbitrary: props) auto

lemma with_defaults_typed:
  assumes "distinct (map p_name ps)" "taking c ps (props, False)" "missing_props ps props = []"
  shows "props_typed c ps (with_defaults ps props) \<and> fields_built c (with_defaults ps props)"
proof -
  let ?qs = "filter (\<lambda>p. p_required p \<and> null_prop props p \<and> p_default p \<noteq> JUndef) ps"
  have "taking c ps (with_defaults ps props, False)"
    unfolding with_defaults_def by (rule with_defaults_put[OF assms(1) _ assms(2)]) auto
  moreover have "\<not> null_prop (with_defaults ps props) p" if p: "p \<in> set ps" "p_required p" "p_default p = JUndef" for p
  proof -
    have "\<not> null_prop props p" using assms(3) p by (auto simp: missing_props_def filter_empty_conv)
    moreover have "p_name p \<notin> p_name ` set ?qs" using same_name[OF assms(1) p(1)] p(3) by auto
    ultimately show ?thesis by (simp add: null_prop_def with_defaults_def foldl_put_other)
  qed
  ultimately show ?thesis by (auto simp: taking_def props_typed_def)
qed

lemma element_typed:
  assumes "distinct (map p_name ps)" "map_of (k_comps (x_cat c)) e = Some ps"
    and "\<And>a. a \<in> set args \<Longrightarrow> gives (v pl a) (built c)"
  shows "gives (element_value c v pl e ps args) (built c)"
  unfolding element_value_def
proof (rule gives_bind[of _ "taking c ps"])
  show "gives (take_props c v pl e ps args ([], False)) (taking c ps)"
    by (rule take_props_typed) (use assms in \<open>simp_all add: taking_def prop_typed_def\<close>)
  fix st assume st: "taking c ps st"
  obtain props bad where eq: "st = (props, bad)" by fastforce
  have "built c (VElem e (with_defaults ps props) (x_partial c) d None)" if "missing_props ps props = []" "\<not> bad" for d
    using with_defaults_typed[OF assms(1) _ that(1)] st eq that(2) assms(2) by (simp add: fields_built_def)
  then show "gives (case st of (props, bad) \<Rightarrow>
         next_do (if length args > length ps then push_issue c pl e [] (ExcessArgs (length ps) (length args)) else ret ())
           (if missing_props ps props \<noteq> [] then
              next_do (push_issues (map (missing_issue c pl e ps (with_defaults ps props)) (missing_props ps props))) (ret VNull)
            else if bad then ret VNull
            else ret (VElem e (with_defaults ps props) (x_partial c)
              (list_ex (\<lambda>f. dynamic (snd f)) (with_defaults ps props)) None))) (built c)"
    unfolding eq prod.case by (intro gives_next) (simp add: gives_ret gives_next)
qed

lemma built_set_statement: "built c v \<Longrightarrow> built c (set_statement x v)"
  by (cases v) (auto simp: set_statement_def built_put)

lemma gives_resolve_name:
  "P missing \<Longrightarrow> (\<And>n. P (late n)) \<Longrightarrow> (\<And>pl a. gives (f pl a) P) \<Longrightarrow> gives (resolve_name c pl x missing late f) P"
  unfolding resolve_name_def by (auto intro!: gives_next gives_ret split: option.split rnode.split)

lemma comp_typed:
  assumes "catalog_ok (x_cat c)" and "\<And>a. gives (v pl a) (built c)"
  shows "gives (comp_value c r v pl e args m fn) (built c)"
proof -
  have node: "gives (bind w (\<lambda>n. ret (VNode n))) (built c)" for w :: "(build, rnode) jsm"
    by (rule gives_then) (simp add: gives_ret)
  have elem: "gives (element_value c v pl e ps args) (built c)" if ps: "map_of (k_comps (x_cat c)) e = Some ps" for ps
    using assms(1) map_of_SomeD[OF ps] by (intro element_typed assms(2) ps) (auto simp: catalog_ok_def)
  show ?thesis
    unfolding comp_value_def
    by (auto intro!: gives_next gives_ret node elem gives_then split: option.split)
qed

lemma array_typed: "(\<And>a. gives (f a) (built c)) \<Longrightarrow> gives (array_values f els) (list_all (built c))"
proof (induction els)
  case (Cons a els)
  then have rest: "gives (array_values f els) (list_all (built c))" by simp
  have "gives (bind (f a) (\<lambda>v. bind (array_values f els) (\<lambda>vs. ret (if v = VNull \<and> droppable a then vs else v # vs)))) (list_all (built c))"
    by (intro gives_bind[OF Cons.prems] gives_bind[OF rest] gives_ret) simp
  then show ?case using rest by (cases a) simp_all
qed (simp add: gives_ret)

lemma built_zip: "list_all (built c) ys \<Longrightarrow> fields_built c (zip ks ys)"
  by (induction ks ys rule: list_induct2') simp_all

lemma valuate_typed:
  assumes "catalog_ok (x_cat c)"
  shows "gives (valuate k c pl n) (built c)"
proof (induction k arbitrary: pl n)
  case 0
  then show ?case by (simp add: gives_throw)
next
  case (Suc k)
  show ?case
  proof (cases n)
    case (NRef x)
    have "gives (bind (valuate k c pl' a) (\<lambda>w. ret (set_statement x w))) (built c)" for pl' a
      by (rule gives_bind[OF Suc]) (simp add: gives_ret built_set_statement)
    then show ?thesis using NRef by (simp add: gives_resolve_name)
  next
    case (NComp e args m fn)
    then show ?thesis using comp_typed[OF assms Suc] by simp
  next
    case (NArr els)
    have "gives (bind (array_values (valuate k c pl) els) (\<lambda>vs. ret (VArr vs))) (built c)"
      by (rule gives_bind[OF array_typed[OF Suc]]) (simp add: gives_ret list_all_iff)
    then show ?thesis using NArr by simp
  next
    case (NObj es)
    have "gives (traverse (valuate k c pl) (map snd es)) (list_all (built c))" by (rule gives_traverse) (rule Suc)
    then have "gives (traverse_fields (valuate k c pl) es) (fields_built c)"
      unfolding traverse_fields_def
      by (rule gives_bind) (intro gives_ret built_zip)
    then have "gives (bind (traverse_fields (valuate k c pl) es) (\<lambda>kvs. ret (VObj (put_all kvs)))) (built c)"
      by (rule gives_bind) (simp add: gives_ret built_put_all)
    then show ?thesis using NObj by simp
  qed (auto intro!: gives_ret gives_then)
qed

end
