(* ===== verification/Canonical_Text.thy ===== *)
theory Canonical_Text
  imports Lang_Cleanup Preflight_Serialize
begin

text \<open>
  The canonical text of \<open>preflight.mjs\<close> read back by the language it is written in: the tokens
  of a printed tree, one piece of text after the other. Numbers are read back as the double
  that their digits denote.
\<close>

section \<open>String literals\<close>

lemma unhex4_units:
  assumes "unhex4 a b c d = Some x"
  shows "{a, b, c, d} \<inter> {34, 92, 10} = {}"
  using assms by (auto simp: unhex4_def hex_val_def split: option.splits)

lemma escape_val_unit: "escape_val e = Some x \<Longrightarrow> e \<noteq> 10"
  by (auto simp: escape_val_def)

lemma json_chars_body:
  "json_chars t = Some (x, r) \<Longrightarrow> \<exists>b. t = b @ 34 # r \<and> string_body b"
proof (induction t arbitrary: x rule: json_chars.induct)
  case (2 c s)
  note simps = json_chars.simps(2)[of c s]
  consider "c = 34" | (hex) h1 h2 h3 h4 s2 y where "c = 92" "s = 117 # h1 # h2 # h3 # h4 # s2" "unhex4 h1 h2 h3 h4 = Some y"
    | (short) e s1 y where "c = 92" "s = e # s1" "e \<noteq> 117" "escape_val e = Some y"
    | (plain) "c \<noteq> 34" "c \<noteq> 92" "\<not> c < 32"
    using "2.prems" simps by (auto split: if_splits list.splits option.splits)
  then show ?case
  proof cases
    case 1
    then show ?thesis using "2.prems" simps by (auto intro: exI[of _ "[]"])
  next
    case hex
    then have "json_chars (c # s) = cons_fst y (json_chars s2)" using simps by simp
    then obtain x' where "json_chars s2 = Some (x', r)"
      using "2.prems" by (cases "json_chars s2") (auto simp: cons_fst_def)
    then obtain b where "s2 = b @ 34 # r" "string_body b"
      using "2.IH"(1)[OF _ hex(1,2) refl refl refl refl refl hex(3)] hex(1) by auto
    moreover have "string_body (92 # 117 # h1 # h2 # h3 # h4 # b)" if "string_body b"
      using unhex4_units[OF hex(3)] that by simp
    ultimately show ?thesis using hex by (intro exI[of _ "92 # 117 # h1 # h2 # h3 # h4 # b"]) simp
  next
    case short
    then have "json_chars (c # s) = cons_fst y (json_chars s1)" using simps by simp
    then obtain x' where "json_chars s1 = Some (x', r)"
      using "2.prems" by (cases "json_chars s1") (auto simp: cons_fst_def)
    then obtain b where "s1 = b @ 34 # r" "string_body b" using "2.IH"(2)[of e s1] short by auto
    then show ?thesis
      using short escape_val_unit[OF short(4)] by (intro exI[of _ "92 # e # b"]) simp
  next
    case plain
    then have "json_chars (c # s) = cons_fst c (json_chars s)" using simps by simp
    then obtain x' where "json_chars s = Some (x', r)"
      using "2.prems" by (cases "json_chars s") (auto simp: cons_fst_def)
    then obtain b where "s = b @ 34 # r" "string_body b" using "2.IH"(3) plain by auto
    moreover have "c \<noteq> 10" using plain(3) by auto
    ultimately show ?thesis using plain by (intro exI[of _ "c # b"]) simp
  qed
qed (simp add: json_chars.simps)

definition quoted_body :: "jsstr \<Rightarrow> jsstr" where
  "quoted_body s = escape_lt (json_escape s)"

lemma quote_str: "quote (JStr s) = 34 # quoted_body s @ [34]"
  by (simp add: quote_def json_str_def quoted_body_def escape_lt_def)

lemma quoted_body: "string_body (quoted_body s)"
  using json_chars_body[OF json_chars_escape[of s "[]"]] by (auto simp: quoted_body_def)

lemma scan_dq_body: "string_body b \<Longrightarrow> scan_dq (b @ 34 # r) = (b @ [34], True, r)"
proof (induction b rule: string_body.induct)
  case (2 c b)
  then show ?case by (cases "c = 92") (auto split: list.splits)
qed simp

lemma dq_value_quoted: "dq_value (quoted_body s @ [34]) True = s"
  using json_parse_escaped[of s] quote_str[of s] by (simp add: dq_value_def quote_def)

section \<open>Numbers\<close>

lemma digits_val_acc: "foldl (\<lambda>n c. 10 * n + digit_val c) a ds = a * 10 ^ length ds + digits_val ds"
proof (induction ds arbitrary: a)
  case (Cons c ds)
  show ?case
    using Cons[of "10 * a + digit_val c"] Cons[of "digit_val c"]
    by (simp add: digits_val_def algebra_simps)
qed (simp add: digits_val_def)

lemma digits_val_append: "digits_val (s @ t) = digits_val s * 10 ^ length t + digits_val t"
  using digits_val_acc[of "digits_val s" t] by (simp add: digits_val_def)

lemma digits_val_zeros: "digits_val (replicate z 48) = 0"
  by (induction z) (simp_all add: digits_val_def digit_val_def)

lemma digit_unit: "d < 10 \<Longrightarrow> is_digit (digit_unit d) \<and> digit_val (digit_unit d) = d"
proof -
  assume "d < 10"
  then have "d \<in> {0, 1, 2, 3, 4, 5, 6, 7, 8, 9}" by auto
  then show ?thesis by (elim insertE) (simp_all add: digit_unit_def is_digit_def digit_val_def)
qed

lemma digits_of_less: "\<forall>d \<in> set (digits_of n). d < 10"
proof (induction n rule: digits_of.induct)
  case (1 n)
  then show ?case by (subst digits_of.simps) (simp split: if_splits)
qed

lemma digits_of_not_Nil [simp]: "digits_of n \<noteq> []"
  by (subst digits_of.simps) simp

lemma nat_str_digits: "list_all is_digit (nat_str n)"
  using digits_of_less[of n] digit_unit by (auto simp: nat_str_def list_all_iff)

lemma nat_str_not_Nil [simp]: "nat_str n \<noteq> []"
  by (simp add: nat_str_def)

lemma digits_val_nat_str: "digits_val (nat_str n) = n"
proof (induction n rule: digits_of.induct)
  case (1 n)
  show ?case
  proof (cases "n < 10")
    case True
    then show ?thesis using digit_unit[OF True] by (simp add: nat_str_def digits_of.simps digits_val_def)
  next
    case False
    have "nat_str n = nat_str (n div 10) @ [digit_unit (n mod 10)]"
      using False by (simp add: nat_str_def digits_of.simps[of n])
    moreover have "digits_val [digit_unit (n mod 10)] = n mod 10"
      using digit_unit[of "n mod 10"] by (simp add: digits_val_def)
    ultimately show ?thesis using 1 False by (simp only: digits_val_append) simp
  qed
qed

text \<open>What may follow a printed piece.\<close>

definition boundary :: "jsstr \<Rightarrow> bool" where
  "boundary s \<longleftrightarrow> (case s of [] \<Rightarrow> True | c # _ \<Rightarrow> c \<in> {40, 41, 44, 58, 91, 93, 123, 125})"

lemma boundary_hd:
  "boundary s \<Longrightarrow> s = [] \<or> \<not> is_digit (hd s) \<and> hd s \<noteq> 46 \<and> hd s \<noteq> 101 \<and> hd s \<noteq> 69 \<and> \<not> ident_part (hd s)"
  by (cases s) (auto simp: boundary_def is_digit_def ident_part_def is_lower_def is_upper_def)

lemma take_digits:
  assumes "list_all is_digit ds" and "r = [] \<or> \<not> is_digit (hd r)"
  shows "takeWhile is_digit (ds @ r) = ds" "dropWhile is_digit (ds @ r) = r"
  using assms by (cases r; auto simp: takeWhile_append dropWhile_append list_all_iff)+

definition fraction :: "jsstr \<Rightarrow> jsstr" where   \<comment> \<open>the text of the digits after the point\<close>
  "fraction f = (if f = [] then [] else 46 # f)"

definition exponent :: "int option \<Rightarrow> jsstr" where
  "exponent x = (case x of None \<Rightarrow> [] | Some n \<Rightarrow> 101 # (if n < 0 then 45 else 43) # nat_str (nat \<bar>n\<bar>))"

lemma scan_exp_exponent:
  assumes "r = [] \<or> \<not> is_digit (hd r) \<and> hd r \<noteq> 101 \<and> hd r \<noteq> 69"
  shows "scan_exp (exponent x @ r) = (map_option (\<lambda>n. (n < 0, nat_str (nat \<bar>n\<bar>))) x, r)"
  using assms take_digits[OF nat_str_digits, of r]
  by (cases x; cases r) (auto simp: exponent_def scan_exp_def Let_def)

lemma scan_frac_fraction:
  assumes "list_all is_digit f" and "r = [] \<or> \<not> is_digit (hd r) \<and> hd r \<noteq> 46"
  shows "scan_frac (fraction f @ r) = (f, r)"
proof (cases f)
  case Nil
  then show ?thesis using assms by (auto simp: fraction_def scan_frac_def split: list.split)
next
  case (Cons d ds)
  then have "takeWhile is_digit (d # ds @ r) = f" "dropWhile is_digit (d # ds @ r) = r"
    using take_digits[of f r] assms by auto
  then show ?thesis using assms Cons by (simp add: fraction_def scan_frac_def)
qed

definition num_text :: "bool \<Rightarrow> jsstr \<Rightarrow> jsstr \<Rightarrow> int option \<Rightarrow> jsstr" where
  "num_text neg i f x = (if neg then [45] else []) @ i @ fraction f @ exponent x"

definition text_value :: "bool \<Rightarrow> jsstr \<Rightarrow> jsstr \<Rightarrow> int option \<Rightarrow> jsnum" where
  "text_value neg i f x =
     num_of_decimal neg (digits_val (i @ f)) ((case x of None \<Rightarrow> 0 | Some n \<Rightarrow> n) - int (length f))"

lemma scan_number_text:
  assumes "list_all is_digit i" and "i \<noteq> []" and "list_all is_digit f" and "boundary r"
  shows "scan_number (num_text neg i f x @ r) = (text_value neg i f x, r)"
proof -
  let ?s2 = "exponent x @ r" and ?s1 = "fraction f @ exponent x @ r"
  have r: "r = [] \<or> \<not> is_digit (hd r) \<and> hd r \<noteq> 46 \<and> hd r \<noteq> 101 \<and> hd r \<noteq> 69" using boundary_hd[OF assms(4)] by blast
  have e: "?s2 = [] \<or> \<not> is_digit (hd ?s2) \<and> hd ?s2 \<noteq> 46" using r by (cases x) (auto simp: exponent_def is_digit_def)
  have f: "?s1 = [] \<or> \<not> is_digit (hd ?s1)" using e by (cases "f = []") (auto simp: fraction_def is_digit_def)
  have sign: "(num_text neg i f x @ r \<noteq> [] \<and> hd (num_text neg i f x @ r) = 45) = neg"
    using assms(1,2) by (cases i) (auto simp: num_text_def is_digit_def)
  have s0: "(if neg then tl (num_text neg i f x @ r) else num_text neg i f x @ r) = i @ ?s1"
    by (simp add: num_text_def)
  have x: "scan_exp ?s2 = (map_option (\<lambda>n. (n < 0, nat_str (nat \<bar>n\<bar>))) x, r)" using r by (intro scan_exp_exponent) auto
  have v: "(if n < 0 then - int (digits_val (nat_str (nat \<bar>n\<bar>))) else int (digits_val (nat_str (nat \<bar>n\<bar>)))) = n" for n :: int
    by (simp add: digits_val_nat_str)
  show ?thesis
    unfolding scan_number_def Let_def sign s0 take_digits[OF assms(1) f] scan_frac_fraction[OF assms(3) e] x prod.case
    using v by (cases x) (simp_all add: text_value_def)
qed

text \<open>The printed Number is such a text, and its digits denote the Number's own decimal.\<close>

definition read_back :: "jsnum \<Rightarrow> jsnum" where
  "read_back x = (case x of Fin neg d e \<Rightarrow> if d = 0 then Fin False 0 0 else num_of_decimal neg d e | _ \<Rightarrow> x)"

lemma num_of_decimal_shift: "num_of_decimal neg (d * 10 ^ z) 0 = num_of_decimal neg d (int z)"
  by (cases "z = 0") (auto simp: num_of_decimal_def)

lemma pos_num_text:
  assumes "d \<noteq> 0"
  shows "\<exists>i f x. (if neg then [45] else []) @ pos_num_str d e = num_text neg i f x \<and> text_value neg i f x = num_of_decimal neg d e \<and>
    list_all is_digit i \<and> i \<noteq> [] \<and> list_all is_digit f"
proof -
  let ?s = "nat_str d" let ?k = "int (length ?s)" let ?n = "?k + e"
  have s: "list_all is_digit ?s" "digits_val ?s = d" "?s \<noteq> []"
    using nat_str_digits digits_val_nat_str by simp_all
  have zeros: "list_all is_digit (replicate z 48)" for z by (simp add: list_all_iff is_digit_def)
  have split: "digits_val (take j ?s @ drop j ?s) = d" for j using s(2) by simp
  have parts: "list_all is_digit (take j ?s)" "list_all is_digit (drop j ?s)" for j
    using s(1) by (auto simp: list_all_iff dest: in_set_takeD in_set_dropD)
  consider (int) "?k \<le> ?n \<and> ?n \<le> 21" | (point) "0 < ?n \<and> ?n < ?k \<and> ?n \<le> 21" | (zero) "-6 < ?n \<and> ?n \<le> 0"
    | (exp) "\<not> (?k \<le> ?n \<and> ?n \<le> 21)" "\<not> (0 < ?n \<and> ?n \<le> 21)" "\<not> (-6 < ?n \<and> ?n \<le> 0)"
    by linarith
  then show ?thesis
  proof cases
    case int
    then have "pos_num_str d e = ?s @ replicate (nat e) 48" by (simp add: pos_num_str_def Let_def)
    moreover have "text_value neg (?s @ replicate (nat e) 48) [] None = num_of_decimal neg d e"
      using int num_of_decimal_shift[of neg d "nat e"] s(2)
      by (simp add: text_value_def digits_val_append digits_val_zeros)
    ultimately show ?thesis
      using s zeros by (intro exI[of _ "?s @ replicate (nat e) 48"] exI[of _ "[]"] exI[of _ None])
        (simp add: num_text_def fraction_def exponent_def)
  next
    case point
    let ?j = "nat ?n"
    have "pos_num_str d e = take ?j ?s @ [46] @ drop ?j ?s" using point by (simp add: pos_num_str_def Let_def)
    moreover have "drop ?j ?s \<noteq> []" "take ?j ?s \<noteq> []" using point by auto
    moreover have "text_value neg (take ?j ?s) (drop ?j ?s) None = num_of_decimal neg d e"
    proof -
      have "- int (length (drop ?j ?s)) = e" using point by (simp only: length_drop) linarith
      then show ?thesis using split by (simp only: text_value_def option.case add_0 diff_0)
    qed
    ultimately show ?thesis
      using parts by (intro exI[of _ "take ?j ?s"] exI[of _ "drop ?j ?s"] exI[of _ None])
        (simp add: num_text_def fraction_def exponent_def)
  next
    case zero
    let ?f = "replicate (nat (- ?n)) 48 @ ?s"
    have "0 < ?k" by simp
    then have "\<not> (?k \<le> ?n)" "\<not> (0 < ?n)" using zero by linarith+
    then have "pos_num_str d e = [48, 46] @ ?f" using zero by (simp only: pos_num_str_def Let_def) simp
    moreover have "digits_val ([48] @ ?f) = d"
    proof -
      have "digits_val [48] = 0" by (simp add: digits_val_def digit_val_def)
      then show ?thesis by (simp only: digits_val_append digits_val_zeros s(2) mult_zero_left add_0)
    qed
    moreover have "- int (length ?f) = e"
      using zero s(3) length_greater_0_conv[of ?s] by (simp only: length_append length_replicate) linarith
    ultimately show ?thesis
      using s zeros by (intro exI[of _ "[48]"] exI[of _ ?f] exI[of _ None])
        (auto simp: num_text_def fraction_def exponent_def text_value_def is_digit_def)
  next
    case exp
    let ?i = "take 1 ?s" and ?f = "drop 1 ?s"
    have "(if ?n - 1 < 0 then [45] else [43]) @ nat_str (nat \<bar>?n - 1\<bar>) = tl (exponent (Some (?n - 1)))"
      by (simp add: exponent_def)
    then have "pos_num_str d e = ?i @ fraction ?f @ exponent (Some (?n - 1))"
      using exp s(3) by (cases ?s) (auto simp: pos_num_str_def Let_def fraction_def exponent_def)
    moreover have "text_value neg ?i ?f (Some (?n - 1)) = num_of_decimal neg d e"
      using split[of 1] s(3) by (cases ?s) (auto simp: text_value_def)
    ultimately show ?thesis
      using parts s(3) by (intro exI[of _ ?i] exI[of _ ?f] exI[of _ "Some (?n - 1)"]) (simp add: num_text_def)
  qed
qed

definition is_fin :: "jsnum \<Rightarrow> bool" where
  "is_fin x = (case x of Fin _ _ _ \<Rightarrow> True | _ \<Rightarrow> False)"

lemma num_str_text:
  assumes "is_fin x"
  obtains neg i f e where "num_str x = num_text neg i f e" "text_value neg i f e = read_back x"
    "list_all is_digit i" "i \<noteq> []" "list_all is_digit f"
proof -
  obtain neg d e where x: "x = Fin neg d e" using assms by (cases x) (auto simp: is_fin_def)
  show thesis
  proof (cases "d = 0")
    case True
    then show thesis using x that[of False "[48]" "[]" None]
      by (simp add: num_text_def fraction_def exponent_def text_value_def read_back_def digits_val_def
          digit_val_def is_digit_def num_of_decimal_def)
  next
    case False
    then show thesis using x pos_num_text[OF False, of neg e] that by (auto simp: read_back_def)
  qed
qed

section \<open>Printable trees\<close>

text \<open>
  What the text can be read back from: no references, component names that are capitalized
  identifiers and no builtins, state references as the tokenizer makes them, literal keys, and
  a minus sign only before a finite number.
\<close>

definition component_name :: "jsstr \<Rightarrow> bool" where
  "component_name w \<longleftrightarrow> w \<noteq> [] \<and> is_upper (hd w) \<and> list_all ident_part w \<and> \<not> is_builtin w"

definition state_name :: "jsstr \<Rightarrow> bool" where
  "state_name w \<longleftrightarrow> (case w of c # d # s \<Rightarrow> c = 36 \<and> ident_start d \<and> list_all ident_part (d # s) | _ \<Rightarrow> False)"

function printable :: "node \<Rightarrow> bool" where
  "printable n =
     ((case n of
        Comp name args fn \<Rightarrow> component_name name
      | StateRef s \<Rightarrow> state_name s
      | UnaryOp op operand \<Rightarrow> (case operand of Num x \<Rightarrow> is_fin x | _ \<Rightarrow> False)
      | Index obj index \<Rightarrow> is_literal_key index
      | Member _ _ \<Rightarrow> True | Arr _ \<Rightarrow> True | Obj _ \<Rightarrow> True | Str _ \<Rightarrow> True | Num _ \<Rightarrow> True | Bool _ \<Rightarrow> True | Null \<Rightarrow> True
      | _ \<Rightarrow> False) \<and> list_all printable (kids n))"
  by pat_completeness auto
termination by (relation "measure size") (auto simp: kids_size)

declare printable.simps [simp del]

text \<open>The tree that is read back: a field access has become an index, a minus sign part of its number.\<close>

definition number_node :: "jsnum \<Rightarrow> node" where   \<comment> \<open>\<open>JSON.stringify\<close> writes the other Numbers as \<open>null\<close>\<close>
  "number_node x = (if is_fin x then Num (read_back x) else Null)"

function read_tree :: "node \<Rightarrow> node" where
  "read_tree n =
     (case n of
        Comp name args fn \<Rightarrow> Comp name (map read_tree args) False
      | Arr els \<Rightarrow> Arr (map read_tree els)
      | Obj entries \<Rightarrow> Obj (map (\<lambda>e. (fst e, read_tree (snd e))) entries)
      | Member obj field \<Rightarrow> Index (read_tree obj) (Str field)
      | Index obj index \<Rightarrow> Index (read_tree obj) (read_tree index)
      | UnaryOp op operand \<Rightarrow> number_node (case operand of Num x \<Rightarrow> num_neg x | _ \<Rightarrow> NaN)
      | Num x \<Rightarrow> number_node x
      | _ \<Rightarrow> n)"
  by pat_completeness auto
termination
  by (relation "measure size")
    (use kids_size[of _ "Comp _ _ _"] kids_size[of _ "Arr _"] kids_size[of _ "Obj _"] in \<open>fastforce+\<close>)

declare read_tree.simps [simp del]

section \<open>Tokens of a printed tree\<close>

fun comma_toks :: "token list list \<Rightarrow> token list" where
  "comma_toks [] = []"
| "comma_toks [ts] = ts"
| "comma_toks (ts # us # uss) = ts @ Tok 7 JUndef # comma_toks (us # uss)"

definition entry_toks :: "jsstr \<Rightarrow> token list \<Rightarrow> token list" where
  "entry_toks k ts = Tok 14 (JStr k) # Tok 8 JUndef # ts"

definition number_toks :: "jsnum \<Rightarrow> token list" where
  "number_toks x = [if is_fin x then Tok 15 (JNum (read_back x)) else Tok 12 JUndef]"

function tree_toks :: "node \<Rightarrow> token list" where
  "tree_toks n =
     (case n of
        Comp name args fn \<Rightarrow> Tok 17 (JStr name) # Tok 1 JUndef # comma_toks (map tree_toks args) @ [Tok 2 JUndef]
      | StateRef s \<Rightarrow> [Tok 18 (JStr s)]
      | Member obj field \<Rightarrow> tree_toks obj @ [Tok 3 JUndef, Tok 14 (JStr field), Tok 4 JUndef]
      | Index obj index \<Rightarrow> tree_toks obj @ Tok 3 JUndef # tree_toks index @ [Tok 4 JUndef]
      | Arr els \<Rightarrow> Tok 3 JUndef # comma_toks (map tree_toks els) @ [Tok 4 JUndef]
      | Obj entries \<Rightarrow>
          Tok 5 JUndef # comma_toks (map (\<lambda>e. entry_toks (fst e) (tree_toks (snd e))) entries) @ [Tok 6 JUndef]
      | UnaryOp op operand \<Rightarrow> number_toks (case operand of Num x \<Rightarrow> num_neg x | _ \<Rightarrow> NaN)
      | Str s \<Rightarrow> [Tok 14 (JStr s)]
      | Num x \<Rightarrow> number_toks x
      | Bool b \<Rightarrow> [Tok (if b then 10 else 11) JUndef]
      | _ \<Rightarrow> [Tok 12 JUndef])"
  by pat_completeness auto
termination
  by (relation "measure size")
    (use kids_size[of _ "Comp _ _ _"] kids_size[of _ "Arr _"] kids_size[of _ "Obj _"] in \<open>fastforce+\<close>)

declare tree_toks.simps [simp del]

section \<open>The tokenizer on one piece\<close>

definition prefix_place :: "token list \<Rightarrow> bool" where   \<comment> \<open>a minus sign here starts a number\<close>
  "prefix_place acc \<longleftrightarrow> (case acc of [] \<Rightarrow> True | p # _ \<Rightarrow> \<not> operand_end (tok_t p))"

text \<open>\<open>lexes p ts\<close>: in a prefix place the text \<open>p\<close> gives the tokens \<open>ts\<close>, whatever follows.\<close>

definition lexes :: "jsstr \<Rightarrow> token list \<Rightarrow> bool" where
  "lexes p ts \<longleftrightarrow> (\<forall>acc r. prefix_place acc \<longrightarrow> boundary r \<longrightarrow> lex_from acc (p @ r) = lex_from (rev ts @ acc) r)"

lemma lexesD: "lexes p ts \<Longrightarrow> prefix_place acc \<Longrightarrow> boundary r \<Longrightarrow> lex_from acc (p @ r) = lex_from (rev ts @ acc) r"
  by (simp add: lexes_def)

lemma lex_from_step:
  assumes "lex_step (case acc of [] \<Rightarrow> None | p # _ \<Rightarrow> Some p) s = (Some t, r)" and "s \<noteq> []"
  shows "lex_from acc s = lex_from (t # acc) r"
  using assms by (subst lex_from.simps) simp

lemma lex_punct: "punct c = Some t \<Longrightarrow> lex_from acc (c # s) = lex_from (Tok t JUndef # acc) s"
  by (rule lex_from_step) (auto simp: lex_step.simps punct_def split: if_splits)

lemma lex_brackets:
  "lex_from acc (40 # s) = lex_from (Tok 1 JUndef # acc) s" "lex_from acc (41 # s) = lex_from (Tok 2 JUndef # acc) s"
  "lex_from acc (91 # s) = lex_from (Tok 3 JUndef # acc) s" "lex_from acc (93 # s) = lex_from (Tok 4 JUndef # acc) s"
  "lex_from acc (123 # s) = lex_from (Tok 5 JUndef # acc) s" "lex_from acc (125 # s) = lex_from (Tok 6 JUndef # acc) s"
  "lex_from acc (44 # s) = lex_from (Tok 7 JUndef # acc) s" "lex_from acc (58 # s) = lex_from (Tok 8 JUndef # acc) s"
  by (rule lex_punct; simp add: punct_def)+

lemma prefix_after [simp]:
  "prefix_place (Tok 1 v # acc)" "prefix_place (Tok 3 v # acc)" "prefix_place (Tok 5 v # acc)"
  "prefix_place (Tok 7 v # acc)" "prefix_place (Tok 8 v # acc)" "prefix_place (Tok 9 v # acc)"
  by (simp_all add: prefix_place_def operand_end_def)

lemma boundary_simps [simp]:
  "boundary []" "boundary (40 # s)" "boundary (41 # s)" "boundary (44 # s)" "boundary (58 # s)" "boundary (91 # s)"
  "boundary (93 # s)" "boundary (123 # s)" "boundary (125 # s)"
  by (simp_all add: boundary_def)

lemma lex_quote: "lexes (quote (JStr s)) [Tok 14 (JStr s)]"
proof -
  have "lex_step prev (quote (JStr s) @ r) = (Some (Tok 14 (JStr s)), r)" for prev r
    using scan_dq_body[OF quoted_body, of s r]
    by (simp add: quote_str lex_step.simps punct_def paired_def dq_value_quoted)
  then show ?thesis by (auto simp: lexes_def quote_str intro!: lex_from_step)
qed

lemma digit_classes:
  assumes "is_digit c"
  shows "punct c = None" "paired c = None" "c \<noteq> 32" "c \<noteq> 9" "c \<noteq> 13" "c \<noteq> 34" "c \<noteq> 39" "c \<noteq> 45" "c \<noteq> 60" "plain_unit c"
  using assms by (auto simp: is_digit_def punct_def paired_def plain_unit_def)

lemma lex_step_number:
  assumes "s = num_text neg i f x" and "list_all is_digit i" and "i \<noteq> []" and "list_all is_digit f" and "boundary r"
    and "case prev of None \<Rightarrow> True | Some p \<Rightarrow> \<not> operand_end (tok_t p)"
  shows "lex_step prev (s @ r) = (Some (Tok 15 (JNum (text_value neg i f x))), r)"
proof -
  obtain d ds where i: "i = d # ds" "is_digit d" using assms(2,3) by (cases i) auto
  note num = scan_number_text[OF assms(2,3,4,5), of neg x]
  show ?thesis
  proof (cases neg)
    case True
    then obtain t where "s @ r = 45 # d # t" using assms(1) i by (auto simp: num_text_def)
    then show ?thesis
      using num assms(1,6) i by (auto simp: lex_step.simps punct_def paired_def next_is_def second_def split: option.splits)
  next
    case False
    then obtain t where "s @ r = d # t" using assms(1) i by (auto simp: num_text_def)
    then show ?thesis using num assms(1) digit_classes[OF i(2)] i(2) by (auto simp: lex_step.simps)
  qed
qed

lemma lex_num_str:
  assumes "is_fin x"
  shows "lexes (num_str x) [Tok 15 (JNum (read_back x))]"
proof -
  obtain neg i f e where t: "num_str x = num_text neg i f e" "text_value neg i f e = read_back x"
    "list_all is_digit i" "i \<noteq> []" "list_all is_digit f"
    using num_str_text[OF assms] .
  have ne: "num_str x @ r \<noteq> []" for r using t(1,4) by (simp add: num_text_def)
  have "lex_step (case acc of [] \<Rightarrow> None | p # _ \<Rightarrow> Some p) (num_str x @ r) = (Some (Tok 15 (JNum (read_back x))), r)"
    if "prefix_place acc" "boundary r" for acc r
    using lex_step_number[OF t(1,3,4,5) that(2)] that(1) t(2) by (auto simp: prefix_place_def split: list.splits)
  then show ?thesis by (auto simp: lexes_def intro!: lex_from_step ne)
qed

lemma ident_classes:
  assumes "ident_start c"
  shows "punct c = None" "paired c = None" "c \<noteq> 32" "c \<noteq> 9" "c \<noteq> 13" "c \<noteq> 34" "c \<noteq> 39" "c \<noteq> 45" "c \<noteq> 36" "\<not> is_digit c"
  using assms by (auto simp: ident_start_def is_lower_def is_upper_def punct_def paired_def is_digit_def word_le_nat_alt)

lemma take_ident:
  assumes "list_all ident_part w" and "boundary r"
  shows "takeWhile ident_part (w @ r) = w" "dropWhile ident_part (w @ r) = r"
  using assms boundary_hd[OF assms(2)] by (cases r; auto simp: takeWhile_append dropWhile_append list_all_iff)+

lemma lex_word:
  assumes "w \<noteq> []" and "ident_start (hd w)" and "list_all ident_part w"
  shows "lexes w [keyword_or_ident w]"
proof -
  obtain c cs where w: "w = c # cs" using assms(1) by (cases w) auto
  have "lex_step prev (w @ r) = (Some (keyword_or_ident w), r)" if "boundary r" for prev r
    using ident_classes[of c] take_ident[OF assms(3) that] assms(2) w by (simp add: lex_step.simps)
  then show ?thesis using w by (auto simp: lexes_def intro!: lex_from_step)
qed

lemma lex_component: "component_name w \<Longrightarrow> lexes w [Tok 17 (JStr w)]"
proof -
  assume w: "component_name w"
  then have "ident_start (hd w)" by (simp add: component_name_def ident_start_def)
  moreover have "keyword_or_ident w = Tok 17 (JStr w)"
    using w by (auto simp: component_name_def keyword_or_ident_def is_upper_def lit_def)
  ultimately show ?thesis using lex_word[of w] w by (simp add: component_name_def)
qed

lemma lex_state: "state_name w \<Longrightarrow> lexes w [Tok 18 (JStr w)]"
proof -
  assume "state_name w"
  then obtain d s where w: "w = 36 # d # s" "ident_start d" "list_all ident_part (d # s)"
    by (auto simp: state_name_def split: list.splits)
  have "lex_step prev (w @ r) = (Some (Tok 18 (JStr w)), r)" if "boundary r" for prev r
    using take_ident[OF w(3) that] w(1,2)
    by (simp add: lex_step.simps punct_def paired_def next_is_def second_def is_digit_def ident_start_def is_lower_def is_upper_def)
  then show ?thesis using w(1) by (auto simp: lexes_def intro!: lex_from_step)
qed

lemma lex_keywords:
  "lexes (lit ''true'') [Tok 10 JUndef]" "lexes (lit ''false'') [Tok 11 JUndef]" "lexes (lit ''null'') [Tok 12 JUndef]"
proof -
  have "lexes (lit s) [keyword_or_ident (lit s)]" if "s \<in> {''true'', ''false'', ''null''}" for s
    using that by (intro lex_word) (auto simp: lit_def ident_start_def ident_part_def is_lower_def)
  from this[of "''true''"] this[of "''false''"] this[of "''null''"]
  show "lexes (lit ''true'') [Tok 10 JUndef]" "lexes (lit ''false'') [Tok 11 JUndef]" "lexes (lit ''null'') [Tok 12 JUndef]"
    by (simp_all add: keyword_or_ident_def lit_def)
qed

end
