(* ===== verification/Canonical_Reading.thy ===== *)
theory Canonical_Reading
  imports Canonical_Text Preflight
begin

text \<open>
  The round trip of the canonical text through \<open>lang-core\<close>: cleaning leaves it alone, the
  tokenizer gives \<open>tree_toks\<close>, the splitter one statement, and the parser \<open>read_tree\<close>.
\<close>

section \<open>The tokens of the text\<close>

lemma lexes_Nil: "lexes [] []"
  by (simp add: lexes_def)

lemma lexes_then:
  assumes "lexes p ts" and "punct c = Some t" and "boundary [c]" and "\<not> operand_end t" and "lexes q us"
  shows "lexes (p @ c # q) (ts @ Tok t JUndef # us)"
proof -
  have "boundary (c # s)" for s using assms(3) by (simp add: boundary_def)
  moreover have "prefix_place (Tok t JUndef # acc)" for acc using assms(4) by (simp add: prefix_place_def)
  ultimately show ?thesis using assms(1,5) by (simp add: lexes_def lex_punct[OF assms(2)])
qed

lemma lexes_end:
  assumes "lexes p ts" and "punct c = Some t" and "boundary [c]"
  shows "lexes (p @ [c]) (ts @ [Tok t JUndef])"
proof -
  have "boundary (c # s)" for s using assms(3) by (simp add: boundary_def)
  then show ?thesis using assms(1) by (simp add: lexes_def lex_punct[OF assms(2)])
qed

lemma lexes_commas: "list_all2 lexes ps tss \<Longrightarrow> lexes (comma_join ps) (comma_toks tss)"
proof (induction tss arbitrary: ps rule: comma_toks.induct)
  case (3 ts us uss)
  then obtain p q qs where ps: "ps = p # q # qs" "lexes p ts" "list_all2 lexes (q # qs) (us # uss)"
    by (auto simp: list_all2_Cons2)
  have "lexes (p @ 44 # comma_join (q # qs)) (ts @ Tok 7 JUndef # comma_toks (us # uss))"
    by (rule lexes_then[OF ps(2) _ _ _ "3.IH"[OF ps(3)]]) (simp_all add: punct_def operand_end_def)
  then show ?case using ps(1) by (simp add: comma_join_def)
qed (auto simp: comma_join_def lexes_Nil list_all2_Cons2)

lemma lexes_call:
  assumes "lexes p ts" and "lexes q us"
  shows "lexes (p @ 40 # q @ [41]) (ts @ Tok 1 JUndef # us @ [Tok 2 JUndef])"
  by (rule lexes_then[OF assms(1) _ _ _ lexes_end[OF assms(2)]]) (simp_all add: punct_def operand_end_def)

lemma lexes_index:
  assumes "lexes p ts" and "lexes q us"
  shows "lexes (p @ 91 # q @ [93]) (ts @ Tok 3 JUndef # us @ [Tok 4 JUndef])"
  by (rule lexes_then[OF assms(1) _ _ _ lexes_end[OF assms(2)]]) (simp_all add: punct_def operand_end_def)

lemma lexes_object: "lexes q us \<Longrightarrow> lexes (123 # q @ [125]) (Tok 5 JUndef # us @ [Tok 6 JUndef])"
  using lexes_then[OF lexes_Nil _ _ _ lexes_end, of 123 5 q us 125 6]
  by (simp add: punct_def operand_end_def)

lemma lexes_entry:
  assumes "lexes q us"
  shows "lexes (entry_text k q) (entry_toks k us)"
  unfolding entry_text_def entry_toks_def
  using lexes_then[OF lex_quote[of k] _ _ _ assms, of 58 8] by (simp add: punct_def operand_end_def)

lemma escape_lt_id: "60 \<notin> set s \<Longrightarrow> escape_lt s = s"
  by (induction s) (auto simp: escape_lt_def)

definition number_unit :: "code_unit \<Rightarrow> bool" where
  "number_unit c \<longleftrightarrow> is_digit c \<or> c \<in> {45, 46, 101, 43}"

lemma number_units: "is_fin x \<Longrightarrow> list_all number_unit (num_str x)"
proof -
  assume "is_fin x"
  then obtain neg i f e where "num_str x = num_text neg i f e" "list_all is_digit i" "list_all is_digit f"
    by (rule num_str_text)
  then show ?thesis
    using nat_str_digits
    by (auto simp: num_text_def fraction_def exponent_def list_all_iff number_unit_def split: option.split)
qed

lemma quote_num: "quote (JNum x) = (if is_fin x then num_str x else lit ''null'')"
proof (cases "is_fin x")
  case True
  then have "60 \<notin> set (num_str x)"
    using number_units[OF True] by (auto simp: list_all_iff number_unit_def is_digit_def)
  then show ?thesis using True by (cases x) (simp_all add: quote_def json_num_def is_fin_def escape_lt_id)
next
  case False
  then show ?thesis by (cases x) (auto simp: quote_def json_num_def is_fin_def escape_lt_def lit_def)
qed

lemma lex_number: "lexes (quote (JNum x)) (number_toks x)"
  using lex_num_str[of x] lex_keywords(3) by (simp add: quote_num number_toks_def)

lemma quote_bool: "quote (JBool b) = (if b then lit ''true'' else lit ''false'')"
  by (simp add: quote_def escape_lt_def lit_def)

lemma lexes_object_text:
  assumes "\<And>e. e \<in> set entries \<Longrightarrow> lexes (tree_text (snd e)) (tree_toks (snd e))"
  shows "lexes (object_text (map fst entries) (map (\<lambda>e. tree_text (snd e)) entries))
    (Tok 5 JUndef # comma_toks (map (\<lambda>e. entry_toks (fst e) (tree_toks (snd e))) entries) @ [Tok 6 JUndef])"
proof -
  have "list_all2 lexes (map2 entry_text (map fst entries) (map (\<lambda>e. tree_text (snd e)) entries))
      (map (\<lambda>e. entry_toks (fst e) (tree_toks (snd e))) entries)"
    using assms[OF nth_mem] by (auto simp: list_all2_conv_all_nth intro!: lexes_entry)
  from lexes_object[OF lexes_commas[OF this]] show ?thesis by (simp add: object_text_def)
qed

lemma lex_tree: "printable m \<Longrightarrow> lexes (tree_text m) (tree_toks m)"
proof (induction m rule: tree_toks.induct)
  case (1 m)
  have kids: "list_all printable (kids m)" using "1.prems" by (simp add: printable.simps[of m])
  have list: "lexes (comma_join (map tree_text ns)) (comma_toks (map tree_toks ns))"
    if "\<And>n. n \<in> set ns \<Longrightarrow> lexes (tree_text n) (tree_toks n)" for ns
    using that by (intro lexes_commas) (simp add: list_all2_conv_all_nth)
  note p = "1.prems" printable.simps[of m] tree_text.simps[of m] tree_toks.simps[of m]
  show ?case
  proof (cases m)
    case (Comp name args fn)
    then have "lexes (tree_text n) (tree_toks n)" if "n \<in> set args" for n
      using "1.IH" kids that by (simp add: list_all_iff)
    then show ?thesis
      using Comp p lexes_call[OF lex_component list] by (simp add: call_text_def)
  next
    case (Arr els)
    then have "lexes (tree_text n) (tree_toks n)" if "n \<in> set els" for n
      using "1.IH" kids that by (simp add: list_all_iff)
    then show ?thesis using Arr p lexes_index[OF lexes_Nil list] by (simp add: array_text_def)
  next
    case (Obj entries)
    then have "lexes (tree_text (snd e)) (tree_toks (snd e))" if "e \<in> set entries" for e
      using "1.IH" kids that by (simp add: list_all_iff)
    then show ?thesis using Obj p lexes_object_text[of entries] by simp
  next
    case (Member obj field)
    then show ?thesis
      using p kids "1.IH" lexes_index[OF _ lex_quote, of "tree_text obj" "tree_toks obj" field]
      by (simp add: index_text_def)
  next
    case (Index obj index)
    have "printable index" using p Index by (cases index) (auto simp: is_literal_key_def printable.simps)
    then show ?thesis
      using p Index kids "1.IH" lexes_index[of "tree_text obj" "tree_toks obj" "tree_text index" "tree_toks index"]
      by (simp add: index_text_def)
  next
    case (UnaryOp op operand)
    then obtain x where x: "operand = Num x" "is_fin x" using p by (cases operand) auto
    then have "is_fin (num_neg x)" by (cases x) (auto simp: is_fin_def)
    then show ?thesis using p UnaryOp x lex_num_str by (simp add: number_toks_def)
  next
    case (Str s)
    then show ?thesis using p lex_quote by simp
  next
    case (Num x)
    then show ?thesis using p lex_number by simp
  next
    case (Bool b)
    then show ?thesis using p lex_keywords by (simp add: quote_bool)
  next
    case Null
    then show ?thesis using p lex_keywords by simp
  next
    case (StateRef s)
    then show ?thesis using p lex_state by simp
  qed (use p in auto)
qed

definition root_text :: "node \<Rightarrow> jsstr" where
  "root_text m = lit ''root = '' @ tree_text m"

lemma tokenize_root:
  assumes "printable m"
  shows "tokenize (root_text m) = Tok 16 (JStr root_name) # Tok 9 JUndef # tree_toks m @ [Tok 13 JUndef]"
proof -
  let ?acc = "[Tok 9 JUndef, Tok 16 (JStr (lit ''root''))]"
  have "lex_from [] (lit ''root = '' @ tree_text m) = lex_from ?acc (tree_text m)"
    by (simp add: js_eval)
  also have "\<dots> = lex_from (rev (tree_toks m) @ ?acc) []"
    using lexesD[OF lex_tree[OF assms], of ?acc "[]"] by simp
  finally show ?thesis by (simp add: tokenize_def root_text_def lex_from.simps[of _ "[]"] root_name_def)
qed

section \<open>The parser on the tokens\<close>

lemma comma_toks_Cons: "tss \<noteq> [] \<Longrightarrow> comma_toks (ts # tss) = ts @ Tok 7 JUndef # comma_toks tss"
  by (cases tss) auto

text \<open>
  \<open>parses ts x\<close>: whatever tokens follow, the parser reads \<open>x\<close> from \<open>ts\<close> and is then in its loop
  on the rest. A rest that goes on with no operator ends the loop.
\<close>

definition parses :: "token list \<Rightarrow> node \<Rightarrow> bool" where
  "parses ts x \<longleftrightarrow> ts \<noteq> [] \<and> head_code ts \<notin> {2, 4, 6, 7, 13} \<and>
     (\<forall>k r. length (ts @ r) < k \<longrightarrow> head_code r \<notin> {1, 9} \<longrightarrow>
       (\<exists>n > length r. parse_expr k 0 (ts @ r) = parse_loop (parse_expr (k - 1)) n 0 x r))"

definition closed_rest :: "token list \<Rightarrow> bool" where
  "closed_rest r \<longleftrightarrow> head_code r \<in> {2, 4, 6, 7, 13}"

lemma closed_restD: "closed_rest r \<Longrightarrow> prec (head_code r) = 0 \<and> head_code r \<notin> {1, 3, 9}"
  by (auto simp: closed_rest_def prec_def)

lemma parses_closed:
  assumes "parses ts x" and "length (ts @ r) < k" and "closed_rest r"
  shows "parse_expr k 0 (ts @ r) = Some (x, r)"
proof -
  obtain n where "n > length r" "parse_expr k 0 (ts @ r) = parse_loop (parse_expr (k - 1)) n 0 x r"
    using assms closed_restD[OF assms(3)] by (auto simp: parses_def)
  then show ?thesis using closed_restD[OF assms(3)] by (cases n) auto
qed

lemma parses_head: "parses ts x \<Longrightarrow> head_code (ts @ r) \<notin> {2, 4, 6, 7, 13} \<and> ts \<noteq> []"
  by (cases ts) (auto simp: parses_def head_code_def)

lemma parsesI:
  assumes "ts \<noteq> []" and "head_code ts \<notin> {2, 4, 6, 7, 13}"
    and "\<And>k r. length (ts @ r) \<le> k \<Longrightarrow> head_code r \<notin> {1, 9} \<Longrightarrow> parse_prefix (parse_expr k) (ts @ r) = Some (x, r)"
  shows "parses ts x"
proof -
  have "\<exists>n > length r. parse_expr k 0 (ts @ r) = parse_loop (parse_expr (k - 1)) n 0 x r"
    if k: "length (ts @ r) < k" and r: "head_code r \<notin> {1, 9}" for k r
  proof -
    obtain j where j: "k = Suc j" "length (ts @ r) \<le> j" using k by (cases k) auto
    then show ?thesis
      using assms(3)[OF j(2) r] by (intro exI[of _ "Suc (length (ts @ r))"]) (simp add: parse_expr_applied del: parse_loop.simps)
  qed
  then show ?thesis using assms(1,2) by (simp add: parses_def)
qed

lemma expect_hit [simp]: "expect c (Tok c v # r) = r"
  by (simp add: expect_def head_simps)

lemma parse_items_list:
  assumes "list_all2 parses tss xs" and "length (comma_toks tss @ Tok close v # r) < k" and "close \<in> {2, 4}"
    and "length (comma_toks tss @ Tok close v # r) \<le> n"
  shows "parse_items (parse_expr k) n close (comma_toks tss @ Tok close v # r) = Some (xs, Tok close v # r)"
  using assms
proof (induction tss arbitrary: xs n)
  case Nil
  then show ?case by (cases n) (auto simp: head_simps)
next
  case (Cons ts tss)
  then obtain x xs' where x: "xs = x # xs'" "parses ts x" "list_all2 parses tss xs'" by (auto simp: list_all2_Cons1)
  obtain n' where n: "n = Suc n'" using Cons.prems(4) by (cases n) auto
  have close: "closed_rest (Tok close v # r)" "closed_rest (Tok 7 JUndef # q)" for q
    using Cons.prems(3) by (auto simp: closed_rest_def head_simps)
  show ?case
  proof (cases "tss = []")
    case True
    then show ?thesis
      using x n Cons.prems parses_closed[OF x(2) _ close(1), of k] parses_head[OF x(2)] close(1)
      by (cases n') (auto simp: head_simps expect_def)
  next
    case False
    let ?rest = "comma_toks tss @ Tok close v # r"
    have c: "comma_toks (ts # tss) @ Tok close v # r = ts @ Tok 7 JUndef # ?rest"
      using comma_toks_Cons[OF False] by simp
    have "parse_expr k 0 (ts @ Tok 7 JUndef # ?rest) = Some (x, Tok 7 JUndef # ?rest)"
      using parses_closed[OF x(2) _ close(2)] Cons.prems(2) c by simp
    moreover have "parse_items (parse_expr k) n' close ?rest = Some (xs', Tok close v # r)"
      using Cons.IH[OF x(3)] Cons.prems c n parses_head[OF x(2)] by simp
    moreover have "head_code (ts @ Tok 7 JUndef # ?rest) \<notin> {close, 13}"
      using parses_head[OF x(2)] Cons.prems(3) by auto
    ultimately show ?thesis using x n c by simp
  qed
qed

lemma parse_entries_list:
  assumes "list_all2 (\<lambda>e x. parses (snd e) x) es xs"
    and "length (comma_toks (map (\<lambda>e. entry_toks (fst e) (snd e)) es) @ Tok 6 v # r) < k"
    and "length (comma_toks (map (\<lambda>e. entry_toks (fst e) (snd e)) es) @ Tok 6 v # r) \<le> n"
  shows "parse_entries (parse_expr k) n (comma_toks (map (\<lambda>e. entry_toks (fst e) (snd e)) es) @ Tok 6 v # r) =
    Some (zip (map fst es) xs, Tok 6 v # r)"
  using assms
proof (induction es arbitrary: xs n)
  case Nil
  then show ?case by (cases n) (auto simp: head_simps)
next
  case (Cons e es)
  let ?toks = "\<lambda>es. comma_toks (map (\<lambda>e. entry_toks (fst e) (snd e)) es)"
  obtain key ts where e: "e = (key, ts)" by (cases e)
  obtain x xs' where x: "xs = x # xs'" "parses ts x" "list_all2 (\<lambda>e x. parses (snd e) x) es xs'"
    using Cons.prems(1) e by (auto simp: list_all2_Cons1)
  obtain n' where n: "n = Suc n'" using Cons.prems(3) by (cases n) auto
  have close: "closed_rest (Tok 6 v # r)" "closed_rest (Tok 7 JUndef # q)" for q
    by (auto simp: closed_rest_def head_simps)
  have key: "field_name (Tok 14 (JStr key) # q) = key" for q by (simp add: field_name_def head_simps)
  show ?case
  proof (cases "es = []")
    case True
    then show ?thesis
      using x e n Cons.prems parses_closed[OF x(2) _ close(1), of k] close(1) key
      by (cases n') (auto simp: head_simps expect_def entry_toks_def)
  next
    case False
    let ?rest = "?toks es @ Tok 6 v # r"
    have c: "?toks (e # es) @ Tok 6 v # r = Tok 14 (JStr key) # Tok 8 JUndef # ts @ Tok 7 JUndef # ?rest"
      using comma_toks_Cons[of "map (\<lambda>e. entry_toks (fst e) (snd e)) es" "entry_toks key ts"] False e by (simp add: entry_toks_def)
    have "parse_expr k 0 (ts @ Tok 7 JUndef # ?rest) = Some (x, Tok 7 JUndef # ?rest)"
      using parses_closed[OF x(2) _ close(2)] Cons.prems(2) c by simp
    moreover have "parse_entries (parse_expr k) n' ?rest = Some (zip (map fst es) xs', Tok 6 v # r)"
      using Cons.IH[OF x(3)] Cons.prems c n by simp
    ultimately show ?thesis using x n c key e by (simp add: head_simps)
  qed
qed

lemma parse_expr_fuel: "length ts < k \<Longrightarrow> \<exists>x r. parse_expr k m ts = Some (x, r)"
  using parse_expr_good[of k] by (rule good_parserE) auto

lemma parses_index:
  assumes "parses ts x" and "parses us y"
  shows "parses (ts @ Tok 3 JUndef # us @ [Tok 4 JUndef]) (Index x y)"
proof -
  have "\<exists>n > length r. parse_expr k 0 ((ts @ Tok 3 JUndef # us @ [Tok 4 JUndef]) @ r) = parse_loop (parse_expr (k - 1)) n 0 (Index x y) r"
    if k: "length ((ts @ Tok 3 JUndef # us @ [Tok 4 JUndef]) @ r) < k" for k r
  proof -
    let ?r1 = "us @ Tok 4 JUndef # r" and ?pe = "parse_expr (k - 1)"
    obtain n where n: "n > length (Tok 3 JUndef # ?r1)"
      "parse_expr k 0 (ts @ Tok 3 JUndef # ?r1) = parse_loop ?pe n 0 x (Tok 3 JUndef # ?r1)"
      using assms(1) k unfolding parses_def by (auto simp: head_simps dest!: spec[of _ k] spec[of _ "Tok 3 JUndef # ?r1"])
    have "length ts > 0" using parses_head[OF assms(1)] by simp
    then have "length (us @ Tok 4 JUndef # r) < k - 1" using k by simp
    then have "?pe 0 ?r1 = Some (y, Tok 4 JUndef # r)"
      using parses_closed[OF assms(2)] by (simp add: closed_rest_def head_simps)
    then have "parse_infix ?pe x (Tok 3 JUndef # ?r1) = Some (Index x y, r)"
      by (simp add: parse_infix_def head_simps binary_op_def)
    moreover obtain n' where "n = Suc n'" "n' > length r" using n(1) by (cases n) auto
    ultimately show ?thesis using n(2) by (intro exI[of _ n']) (simp add: head_simps prec_def)
  qed
  then show ?thesis using parses_head[OF assms(1), of "Tok 3 JUndef # us @ [Tok 4 JUndef]"] by (simp add: parses_def)
qed

lemma parses_leaf:
  "parses [Tok 14 (JStr s)] (Str s)" "parses (number_toks x) (number_node x)"
  "parses [Tok (if b then 10 else 11) JUndef] (Bool b)" "parses [Tok 12 JUndef] Null" "parses [Tok 18 (JStr s)] (StateRef s)"
  by (rule parsesI; simp add: parse_prefix_tokens head_simps number_toks_def number_node_def)+

lemma parses_call:
  assumes "list_all2 parses tss xs" and "component_name name"
  shows "parses (Tok 17 (JStr name) # Tok 1 JUndef # comma_toks tss @ [Tok 2 JUndef]) (Comp name xs False)"
proof (rule parsesI)
  fix k r assume "length ((Tok 17 (JStr name) # Tok 1 JUndef # comma_toks tss @ [Tok 2 JUndef]) @ r) \<le> k"
  then show "parse_prefix (parse_expr k) ((Tok 17 (JStr name) # Tok 1 JUndef # comma_toks tss @ [Tok 2 JUndef]) @ r) =
      Some (Comp name xs False, r)"
    using parse_items_list[OF assms(1), of 2 JUndef r k] assms(2)
    by (simp add: parse_prefix_tokens parse_call_def head_simps component_name_def del: parse_items.simps)
qed (simp_all add: head_simps)

lemma parses_array:
  assumes "list_all2 parses tss xs"
  shows "parses (Tok 3 JUndef # comma_toks tss @ [Tok 4 JUndef]) (Arr xs)"
proof (rule parsesI)
  fix k r assume "length ((Tok 3 JUndef # comma_toks tss @ [Tok 4 JUndef]) @ r) \<le> k"
  then show "parse_prefix (parse_expr k) ((Tok 3 JUndef # comma_toks tss @ [Tok 4 JUndef]) @ r) = Some (Arr xs, r)"
    using parse_items_list[OF assms, of 4 JUndef r k] by (simp add: parse_prefix_tokens del: parse_items.simps)
qed (simp_all add: head_simps)

lemma parses_object:
  assumes "list_all2 (\<lambda>e x. parses (snd e) x) es xs"
  shows "parses (Tok 5 JUndef # comma_toks (map (\<lambda>e. entry_toks (fst e) (snd e)) es) @ [Tok 6 JUndef]) (Obj (zip (map fst es) xs))"
    (is "parses ?ts _")
proof (rule parsesI)
  fix k r assume "length (?ts @ r) \<le> k"
  then show "parse_prefix (parse_expr k) (?ts @ r) = Some (Obj (zip (map fst es) xs), r)"
    using parse_entries_list[OF assms, of JUndef r k] by (simp add: parse_prefix_tokens del: parse_entries.simps)
qed (simp_all add: head_simps)

end
