(* ===== verification/Canonical_Round_Trip.thy ===== *)
theory Canonical_Round_Trip
  imports Canonical_Reading
begin

text \<open>
  What \<open>preflightView\<close> returns is read back whole: every printed tree is one complete statement
  whose expression is \<open>read_tree\<close> of it, and the trees that preflight prints are printable.
\<close>

section \<open>One statement\<close>

lemma parse_tree: "printable m \<Longrightarrow> parses (tree_toks m) (read_tree m)"
proof (induction m rule: tree_toks.induct)
  case (1 m)
  have kids: "list_all printable (kids m)" using "1.prems" by (simp add: printable.simps[of m])
  have list: "list_all2 parses (map tree_toks ns) (map read_tree ns)"
    if "\<And>n. n \<in> set ns \<Longrightarrow> parses (tree_toks n) (read_tree n)" for ns
    using that by (simp add: list_all2_conv_all_nth)
  note p = "1.prems" printable.simps[of m] tree_toks.simps[of m] read_tree.simps[of m]
  show ?case
  proof (cases m)
    case (Comp name args fn)
    then have "parses (tree_toks n) (read_tree n)" if "n \<in> set args" for n
      using "1.IH" kids that by (simp add: list_all_iff)
    then show ?thesis using Comp p parses_call[OF list] by simp
  next
    case (Arr els)
    then have "parses (tree_toks n) (read_tree n)" if "n \<in> set els" for n
      using "1.IH" kids that by (simp add: list_all_iff)
    then show ?thesis using Arr p parses_array[OF list] by simp
  next
    case (Obj entries)
    then have "parses (tree_toks (snd e)) (read_tree (snd e))" if "e \<in> set entries" for e
      using "1.IH" kids that by (simp add: list_all_iff)
    then have "list_all2 (\<lambda>e x. parses (snd e) x) (map (\<lambda>e. (fst e, tree_toks (snd e))) entries) (map (\<lambda>e. read_tree (snd e)) entries)"
      by (simp add: list_all2_conv_all_nth nth_mem)
    from parses_object[OF this] show ?thesis using Obj p by (simp add: comp_def zip_map_map zip_same_conv_map split_def)
  next
    case (Member obj field)
    then show ?thesis
      using p kids "1.IH" parses_index[OF _ parses_leaf(1), of "tree_toks obj" "read_tree obj" field] by simp
  next
    case (Index obj index)
    have "printable index" using p Index by (cases index) (auto simp: is_literal_key_def printable.simps)
    then show ?thesis
      using p Index kids "1.IH" parses_index[of "tree_toks obj" "read_tree obj" "tree_toks index" "read_tree index"] by simp
  next
    case (UnaryOp op operand)
    then show ?thesis using p parses_leaf(2) by simp
  next
    case (Bool b)
    then show ?thesis using p parses_leaf(3)[of b] by simp
  qed (use p parses_leaf in auto)
qed

definition inner_token :: "token \<Rightarrow> bool" where
  "inner_token t \<longleftrightarrow> tok_t t \<noteq> 0 \<and> tok_t t \<noteq> 13"

lemma inner_token_Tok [simp]: "inner_token (Tok c v) \<longleftrightarrow> c \<noteq> 0 \<and> c \<noteq> 13"
  by (simp add: inner_token_def)

lemma comma_toks_inner: "\<forall>ts \<in> set tss. list_all inner_token ts \<Longrightarrow> list_all inner_token (comma_toks tss)"
  by (induction tss rule: comma_toks.induct) auto

lemma tree_toks_inner: "list_all inner_token (tree_toks m)"
proof (induction m rule: tree_toks.induct)
  case (1 m)
  show ?case
  proof (cases m)
    case (Comp name args fn)
    then show ?thesis using "1.IH" comma_toks_inner[of "map tree_toks args"] by (subst tree_toks.simps) (simp)
  next
    case (Arr els)
    then show ?thesis using "1.IH" comma_toks_inner[of "map tree_toks els"] by (subst tree_toks.simps) (simp)
  next
    case (Obj entries)
    then show ?thesis
      using "1.IH" comma_toks_inner[of "map (\<lambda>e. entry_toks (fst e) (tree_toks (snd e))) entries"]
      by (subst tree_toks.simps) (simp add: entry_toks_def)
  qed (use "1.IH" tree_toks.simps[of m] in \<open>auto simp: number_toks_def\<close>)
qed

lemma take_statement_inner:
  "list_all inner_token ts \<Longrightarrow> take_statement lc (ts @ [Tok 13 v]) = (ts, [Tok 13 v])"
proof (induction ts arbitrary: lc)
  case Nil
  then show ?case by (cases lc) simp
next
  case (Cons t ts)
  then show ?case by (cases lc) (simp add: inner_token_def)
qed

lemma split_root:
  assumes "printable m"
  shows "split_statements (tokenize (root_text m)) = [Statement root_name 16 (tree_toks m)]"
proof -
  have "tree_toks m \<noteq> []" using parses_head[OF parse_tree[OF assms]] by simp
  then show ?thesis
    using take_statement_inner[OF tree_toks_inner, of "(0, 0)" m JUndef] tokenize_root[OF assms]
    by (simp add: split_statements.simps[of "_ # _"] split_statements.simps[of "[_]"] skip_newlines_def)
qed

lemma parse_root: "printable m \<Longrightarrow> parse_expression (tree_toks m) = read_tree m"
  using parses_closed[OF parse_tree, of m "[]" "Suc (length (tree_toks m))"]
  by (simp add: parse_expression_def closed_rest_def)

section \<open>The text is complete and clean\<close>

text \<open>A text is inert when it is tidy and opens no bracket that it does not close.\<close>

definition inert :: "jsstr \<Rightarrow> bool" where
  "inert p \<longleftrightarrow> tidy p \<and> (\<forall>st t. close_scan st None False (p @ t) = close_scan st None False t)"

lemma inert_append: "inert p \<Longrightarrow> inert q \<Longrightarrow> inert (p @ q)"
  by (auto simp: inert_def intro: tidy_append)

lemma inert_units: "list_all (\<lambda>c. plain_unit c \<and> \<not> opens_group c \<and> c \<notin> {41, 93, 125}) p \<Longrightarrow> inert p"
  unfolding inert_def using close_scan_units[of p] by (auto simp: list_all_iff intro!: tidy_units)

lemma inert_brackets:
  assumes "inert p" and "c \<in> {40, 91, 123}"
  shows "inert (c # p @ [closer c])"
proof -
  have "tidy [closer c]" using assms(2) by (auto simp: closer_def plain_unit_def intro!: tidy.intros)
  then have "tidy (c # p @ [closer c])"
    using assms tidy_append[of p "[closer c]"] by (auto simp: inert_def plain_unit_def intro!: tidy_unit)
  moreover have "closer c \<notin> {34, 39}" "\<not> opens_group (closer c)" using assms(2) by (auto simp: closer_def opens_group_def)
  ultimately show ?thesis using assms by (auto simp: inert_def track_def opens_group_def)
qed

lemma inert_quote: "inert (quote (JStr s))"
  using tidy_quoted[OF quoted_body, of s] close_scan_string[OF quoted_body, of _ s]
  by (auto simp: inert_def quote_str)

lemma inert_commas: "list_all inert ps \<Longrightarrow> inert (comma_join ps)"
proof (induction "[44 :: code_unit]" ps rule: join_with.induct)
  case (3 x y ys)
  have "inert ([44] @ comma_join (y # ys))"
    using 3 inert_append[OF inert_units[of "[44]"]] by (simp add: plain_unit_def opens_group_def comma_join_def)
  then show ?case using 3 inert_append[of x] by (simp add: comma_join_def)
qed (auto simp: comma_join_def inert_def intro: tidy.intros)

lemma inert_ident: "list_all ident_part w \<Longrightarrow> inert w"
  by (rule inert_units, erule list.pred_mono_strong)
    (auto simp: ident_part_def is_lower_def is_upper_def is_digit_def plain_unit_def opens_group_def word_le_nat_alt)

lemma inert_number: "inert (quote (JNum x))"
proof (cases "is_fin x")
  case True
  have "list_all (\<lambda>c. plain_unit c \<and> \<not> opens_group c \<and> c \<notin> {41, 93, 125}) (num_str x)"
    using number_units[OF True] by (rule list.pred_mono_strong)
      (auto simp: number_unit_def is_digit_def plain_unit_def opens_group_def word_le_nat_alt)
  then show ?thesis using True inert_units by (simp add: quote_num)
qed (simp add: quote_num lit_def inert_units plain_unit_def opens_group_def)

lemma inert_index: "inert p \<Longrightarrow> inert q \<Longrightarrow> inert (index_text p q)"
  using inert_brackets[of q 91] inert_append by (simp add: index_text_def closer_def)

lemma inert_words: "inert (lit ''true'')" "inert (lit ''false'')" "inert (lit ''null'')"
  by (rule inert_ident; simp add: lit_def ident_part_def is_lower_def)+

lemma inert_tree: "printable m \<Longrightarrow> inert (tree_text m)"
proof (induction m rule: tree_text.induct)
  case (1 m)
  have kids: "list_all printable (kids m)" using "1.prems" by (simp add: printable.simps[of m])
  note p = "1.prems" printable.simps[of m] tree_text.simps[of m]
  show ?case
  proof (cases m)
    case (Comp name args fn)
    then have "inert (comma_join (map tree_text args))"
      using "1.IH" kids by (intro inert_commas) (simp add: list_all_iff)
    from inert_brackets[OF this, of 40] inert_ident[of name] show ?thesis
      using Comp p inert_append[of name] by (simp add: call_text_def closer_def component_name_def)
  next
    case (Arr els)
    then have "inert (comma_join (map tree_text els))"
      using "1.IH" kids by (intro inert_commas) (simp add: list_all_iff)
    from inert_brackets[OF this, of 91] show ?thesis using Arr p by (simp add: array_text_def closer_def)
  next
    case (Obj entries)
    then have e: "inert (tree_text (snd e))" if "e \<in> set entries" for e
      using "1.IH" kids that by (simp add: list_all_iff)
    have "inert [58]" by (rule inert_units) (simp add: plain_unit_def opens_group_def)
    then have "inert (entry_text k t)" if "inert t" for k t
      using inert_append[OF inert_quote inert_append[OF \<open>inert [58]\<close> that]] by (simp add: entry_text_def)
    then have "inert (comma_join (map2 entry_text (map fst entries) (map (\<lambda>e. tree_text (snd e)) entries)))"
      using e[OF nth_mem] by (intro inert_commas) (simp add: list_all_length)
    from inert_brackets[OF this, of 123] show ?thesis using Obj p by (simp add: object_text_def closer_def)
  next
    case (Member obj field)
    then show ?thesis using "1.IH" kids p inert_index inert_quote by simp
  next
    case (Index obj index)
    moreover have "printable index" using p Index by (cases index) (auto simp: is_literal_key_def printable.simps)
    ultimately show ?thesis using "1.IH" kids p inert_index by simp
  next
    case (UnaryOp op operand)
    then obtain x where "operand = Num x" "is_fin (num_neg x)" using p by (cases operand; cases "case operand of Num x \<Rightarrow> x") (auto simp: is_fin_def)
    then show ?thesis using UnaryOp p inert_number[of "num_neg x"] by (simp add: quote_num)
  next
    case (StateRef s)
    then obtain w where "s = 36 # w" "list_all ident_part w" using p by (auto simp: state_name_def split: list.splits)
    then show ?thesis
      using StateRef p inert_append[OF inert_units[of "[36]"] inert_ident[of w]] by (simp add: plain_unit_def opens_group_def)
  next
    case (Str s)
    then show ?thesis using p inert_quote by simp
  next
    case (Num x)
    then show ?thesis using p inert_number by simp
  next
    case (Bool b)
    then show ?thesis using p inert_words by (simp add: quote_bool)
  next
    case Null
    then show ?thesis using p inert_words by simp
  qed (use p in auto)
qed

lemma inert_root: "printable m \<Longrightarrow> inert (root_text m)"
  unfolding root_text_def
  by (intro inert_append inert_tree inert_units) (simp_all add: lit_def plain_unit_def opens_group_def)

lemma js_trim_id:
  assumes "s \<noteq> []" and "\<not> is_space (hd s)" and "\<not> is_space (last s)"
  shows "js_trim s = s"
proof -
  have "dropWhile is_space s = s" using assms(1,2) by (cases s) auto
  moreover have "dropWhile is_space (rev s) = rev s" using assms(1,3) by (cases s rule: rev_cases) auto
  ultimately show ?thesis by (simp add: js_trim_def trim_start_def trim_end_def)
qed

definition solid_end :: "jsstr \<Rightarrow> bool" where
  "solid_end s \<longleftrightarrow> s \<noteq> [] \<and> \<not> is_space (last s)"

lemma solid_end_append: "solid_end q \<Longrightarrow> solid_end (p @ q)"
  by (simp add: solid_end_def)

lemma solid_units:
  "s \<noteq> [] \<Longrightarrow> list_all (\<lambda>c. ident_part c \<or> number_unit c) s \<Longrightarrow> solid_end s"
proof -
  assume "s \<noteq> []" "list_all (\<lambda>c. ident_part c \<or> number_unit c) s"
  then have "ident_part (last s) \<or> number_unit (last s)" by (simp add: list_all_iff)
  then have "\<not> is_space (last s)"
    by (auto simp: ident_part_def number_unit_def is_digit_def is_lower_def is_upper_def is_space_def word_le_nat_alt)
  then show ?thesis using \<open>s \<noteq> []\<close> by (simp add: solid_end_def)
qed

lemma solid_number: "is_fin x \<Longrightarrow> solid_end (num_str x)"
proof (rule solid_units)
  assume x: "is_fin x"
  then show "list_all (\<lambda>c. ident_part c \<or> number_unit c) (num_str x)"
    using number_units[OF x] by (auto intro: list.pred_mono_strong)
  obtain neg i f e where "num_str x = num_text neg i f e" "i \<noteq> []" using num_str_text[OF x] by metis
  then show "num_str x \<noteq> []" by (simp add: num_text_def)
qed

lemma solid_words: "solid_end (lit ''true'')" "solid_end (lit ''false'')" "solid_end (lit ''null'')"
  by (rule solid_units; simp add: lit_def ident_part_def is_lower_def)+

lemma solid_tree: "printable m \<Longrightarrow> solid_end (tree_text m)"
proof -
  assume m: "printable m"
  have bracket: "solid_end (p @ [c])" if "c \<in> {34, 41, 93, 125}" for p c
    using that by (auto simp: solid_end_def is_space_def)
  note p = m printable.simps[of m] tree_text.simps[of m]
  show ?thesis
  proof (cases m)
    case (Comp name args fn)
    then show ?thesis using p bracket[of 41 "name @ 40 # comma_join (map tree_text args)"] by (simp add: call_text_def)
  next
    case (Arr els)
    then show ?thesis using p bracket[of 93 "91 # comma_join (map tree_text els)"] by (simp add: array_text_def)
  next
    case (Obj entries)
    then show ?thesis using p bracket[of 125 "123 # _"] by (simp add: object_text_def)
  next
    case (Member obj field)
    then show ?thesis using p bracket[of 93 "tree_text obj @ 91 # quote (JStr field)"] by (simp add: index_text_def)
  next
    case (Index obj index)
    then show ?thesis using p bracket[of 93 "tree_text obj @ 91 # tree_text index"] by (simp add: index_text_def)
  next
    case (Str s)
    then show ?thesis using p bracket[of 34 "34 # quoted_body s"] by (simp add: quote_str)
  next
    case (StateRef s)
    then obtain d w where s: "s = 36 # d # w" "list_all ident_part (d # w)" using p by (auto simp: state_name_def split: list.splits)
    have "solid_end (d # w)" using s(2) by (intro solid_units) (auto simp: list_all_iff)
    then show ?thesis using StateRef p s(1) by (simp add: solid_end_def)
  next
    case (UnaryOp op operand)
    then obtain x where "operand = Num x" "is_fin (num_neg x)" using p by (cases operand; cases "case operand of Num x \<Rightarrow> x") (auto simp: is_fin_def)
    then show ?thesis using UnaryOp p solid_number by simp
  next
    case (Num x)
    then show ?thesis using p solid_number[of x] solid_words by (simp add: quote_num)
  next
    case (Bool b)
    then show ?thesis using p solid_words by (simp add: quote_bool)
  next
    case Null
    then show ?thesis using p solid_words by simp
  qed (use p in auto)
qed

lemma trim_root: "printable m \<Longrightarrow> js_trim (root_text m) = root_text m"
  using solid_end_append[OF solid_tree, of m "lit ''root = ''"]
  by (intro js_trim_id) (auto simp: root_text_def solid_end_def lit_def is_space_def)

lemma cleaned_root: "printable m \<Longrightarrow> cleaned (root_text m) = root_text m"
  using inert_root[of m] tidy_strip_fences tidy_strip_comments trim_root
  by (simp add: cleaned_def inert_def)

lemma segments_root: "printable m \<Longrightarrow> segments 0 0 None False [] (root_text m) = ([], root_text m)"
  using inert_root[of m] tidy_segments[of "root_text m" 0 "[]"] by (simp add: inert_def)

lemma autoclose_root:
  assumes "printable m"
  shows "autoclose (root_text m) = (root_text m, False)"
proof -
  have "close_scan [] None False (root_text m @ []) = close_scan [] None False []"
    using inert_root[OF assms] unfolding inert_def by blast
  then show ?thesis by (simp add: autoclose_def)
qed

section \<open>What \<open>preflightView\<close> prints\<close>

text \<open>State references come from tokens of the tokenizer; component names are in the library.\<close>

function named_well :: "node \<Rightarrow> bool" where
  "named_well n = ((case n of StateRef s \<Rightarrow> state_name s | _ \<Rightarrow> True) \<and> list_all named_well (kids n))"
  by pat_completeness auto
termination by (relation "measure size") (auto simp: kids_size)

declare named_well.simps [simp del]

lemma named_well_simps [simp]:
  "named_well (Comp name args fn) \<longleftrightarrow> list_all named_well args" "named_well (Arr els) \<longleftrightarrow> list_all named_well els"
  "named_well (Obj es) \<longleftrightarrow> list_all (\<lambda>e. named_well (snd e)) es" "named_well (StateRef s) \<longleftrightarrow> state_name s"
  "named_well (Member a f) \<longleftrightarrow> named_well a" "named_well (Index a b) \<longleftrightarrow> named_well a \<and> named_well b"
  "named_well (UnaryOp op a) \<longleftrightarrow> named_well a" "named_well (Str s)" "named_well (Num x)" "named_well (Bool t)"
  "named_well Null" "named_well (Ref s)" "named_well (Ph s)" "named_well (BinOp op a b)"
  "named_well (Ternary a b c)" "named_well (Assign s a)"
  by (simp_all add: named_well.simps[of "Comp _ _ _"] named_well.simps[of "Arr _"] named_well.simps[of "Obj _"]
      named_well.simps[of "StateRef _"] named_well.simps[of "Member _ _"] named_well.simps[of "Index _ _"]
      named_well.simps[of "UnaryOp _ _"] named_well.simps[of "Str _"] named_well.simps[of "Num _"]
      named_well.simps[of "Bool _"] named_well.simps[of Null] named_well.simps[of "Ref _"] named_well.simps[of "Ph _"]
      named_well.simps[of "BinOp _ _ _"] named_well.simps[of "Ternary _ _ _"] named_well.simps[of "Assign _ _"] list_all_iff)

definition state_token :: "token \<Rightarrow> bool" where
  "state_token t \<longleftrightarrow> (tok_t t = 18 \<longrightarrow> state_name (to_str (tok_v t)))"

lemma state_token_code: "c \<noteq> 18 \<Longrightarrow> state_token (Tok c v)"
  by (simp add: state_token_def)

lemma state_token_word:
  assumes "next_is ident_start (36 # s)"
  shows "state_token (Tok 18 (JStr (36 # takeWhile ident_part s)))"
proof -
  obtain d s' where s: "s = d # s'" "ident_start d" using assms by (cases s) (auto simp: next_is_def second_def)
  then have "ident_part d" by (simp add: ident_start_part)
  then show ?thesis using s by (auto simp: state_token_def state_name_def list_all_iff dest: set_takeWhileD)
qed

lemma token_codes:
  "punct c = Some t \<Longrightarrow> t \<noteq> 18" "paired c = Some (d, two, one) \<Longrightarrow> two \<noteq> 18 \<and> one \<noteq> 18"
  by (auto simp: punct_def paired_def split: if_splits)

lemma word_token: "state_token (keyword_or_ident w)"
  by (simp add: keyword_or_ident_def state_token_def)

lemma lex_step_state_token:
  assumes "lex_step prev s = (Some t, r)"
  shows "state_token t"
proof (cases s)
  case (Cons c s')
  note step = assms[unfolded Cons lex_step.simps]
  show ?thesis
  proof (cases "c = 32 \<or> c = 9 \<or> c = 13")
    case True
    then show ?thesis using step by simp
  next
    case space: False
    show ?thesis
    proof (cases "punct c")
      case (Some k)
      then show ?thesis using step space token_codes(1)[OF Some] by (auto simp: state_token_code)
    next
      case punct: None
      show ?thesis
      proof (cases "paired c")
        case (Some p)
        obtain d two one where p: "p = (d, two, one)" by (cases p)
        then show ?thesis
          using step space punct Some token_codes(2)[of c d two one] by (auto simp: state_token_code split: if_splits)
      next
        case None
        then show ?thesis
          using step space punct
          by (simp split: if_splits prod.splits) (auto simp: state_token_code word_token state_token_word)
      qed
    qed
  qed
qed (use assms in \<open>simp add: lex_step.simps\<close>)

lemma lex_from_state_tokens: "list_all state_token acc \<Longrightarrow> list_all state_token (lex_from acc s)"
proof (induction acc s rule: lex_from.induct)
  case (1 acc s)
  show ?case
  proof (cases "s = []")
    case True
    then show ?thesis using 1(3) by (simp add: lex_from.simps list_all_rev state_token_code)
  next
    case False
    obtain t r where st: "lex_step (case acc of [] \<Rightarrow> None | p # _ \<Rightarrow> Some p) s = (t, r)" by fastforce
    then show ?thesis
      using 1 False lex_step_state_token[of _ s _ r] by (cases t) (auto simp: lex_from.simps[of acc s])
  qed
qed

lemma tokenize_state_tokens: "list_all state_token (tokenize s)"
  using lex_from_state_tokens[of "[]" s] by (simp add: tokenize_def)

end
