(* ===== verification/Canonical_Output.thy ===== *)
theory Canonical_Output
  imports Canonical_Round_Trip
begin

text \<open>
  The trees that \<open>preflightView\<close> prints are printable: the parser keeps the tokenizer's names of
  state references, the expansion keeps them too, and the checks have settled the rest. With the
  round trip, what the function returns is one complete statement that reads back as its tree.
\<close>

section \<open>The parser keeps state references\<close>

definition keeps_names :: "('a \<times> token list) option \<Rightarrow> ('a \<Rightarrow> bool) \<Rightarrow> bool" where
  "keeps_names res P \<longleftrightarrow> (\<forall>x r. res = Some (x, r) \<longrightarrow> P x \<and> list_all state_token r)"

definition naming_parser :: "expr_parser \<Rightarrow> bool" where
  "naming_parser pe \<longleftrightarrow> (\<forall>m ts. list_all state_token ts \<longrightarrow> keeps_names (pe m ts) named_well)"

lemma naming_parserD: "naming_parser pe \<Longrightarrow> list_all state_token ts \<Longrightarrow> keeps_names (pe m ts) named_well"
  by (simp add: naming_parser_def)

lemma keeps_namesD: "keeps_names res P \<Longrightarrow> res = Some (x, r) \<Longrightarrow> P x \<and> list_all state_token r"
  by (simp add: keeps_names_def)

lemma keeps_names_None [simp]: "keeps_names None P"
  by (simp add: keeps_names_def)

lemma keeps_names_Some [simp]: "keeps_names (Some (x, r)) P \<longleftrightarrow> P x \<and> list_all state_token r"
  by (simp add: keeps_names_def)

lemma keeps_names_map:
  "keeps_names res P \<Longrightarrow> (\<And>x r y q. P x \<Longrightarrow> list_all state_token r \<Longrightarrow> f (x, r) = (y, q) \<Longrightarrow> Q y \<and> list_all state_token q) \<Longrightarrow>
     keeps_names (map_option f res) Q"
  by (cases res) (auto simp: keeps_names_def)

lemma keeps_names_if:
  "(c \<Longrightarrow> keeps_names a P) \<Longrightarrow> (\<not> c \<Longrightarrow> keeps_names b P) \<Longrightarrow> keeps_names (if c then a else b) P"
  by simp

lemma keeps_names_bind:
  "keeps_names res P \<Longrightarrow> (\<And>x r. P x \<Longrightarrow> list_all state_token r \<Longrightarrow> keeps_names (f x r) Q) \<Longrightarrow>
     keeps_names (case res of None \<Rightarrow> None | Some (x, r) \<Rightarrow> f x r) Q"
  by (cases res) (auto simp: keeps_names_def)

lemma state_tokens_tl [simp]: "list_all state_token ts \<Longrightarrow> list_all state_token (tl ts)"
  by (cases ts) auto

lemma state_tokens_expect [simp]: "list_all state_token ts \<Longrightarrow> list_all state_token (expect c ts)"
  by (simp add: expect_def)

lemma state_tokens_head: "list_all state_token ts \<Longrightarrow> head_code ts = 18 \<Longrightarrow> state_name (to_str (head_value ts))"
  by (cases ts) (auto simp: head_code_def head_value_def state_token_def)

lemma items_named:
  assumes "naming_parser pe"
  shows "list_all state_token ts \<Longrightarrow> keeps_names (parse_items pe n close ts) (list_all named_well)"
proof (induction n arbitrary: ts)
  case (Suc n)
  have "keeps_names (pe 0 ts) named_well" using Suc.prems assms by (rule naming_parserD[rotated])
  then show ?case
    using Suc.prems by (auto intro!: keeps_names_bind keeps_names_map Suc.IH)
qed simp

lemma entries_named:
  assumes "naming_parser pe"
  shows "list_all state_token ts \<Longrightarrow> keeps_names (parse_entries pe n ts) (list_all (\<lambda>e. named_well (snd e)))"
proof (induction n arbitrary: ts)
  case (Suc n)
  have "keeps_names (pe 0 (expect 8 (tl ts))) named_well" using Suc.prems by (intro naming_parserD[OF assms]) simp
  then show ?case
    using Suc.prems by (auto intro!: keeps_names_bind keeps_names_map Suc.IH)
qed simp

lemma call_named: "naming_parser pe \<Longrightarrow> list_all state_token ts \<Longrightarrow> keeps_names (parse_call pe ts) named_well"
  unfolding parse_call_def by (rule keeps_names_map, rule items_named) auto

lemma prefix_named:
  assumes "naming_parser pe" and "list_all state_token ts"
  shows "keeps_names (parse_prefix pe ts) named_well"
proof -
  note pe = naming_parserD[OF assms(1)]
  have mark: "named_well h \<Longrightarrow> named_well (mark_fn h)" for h by (cases h) (simp_all add: mark_fn_def)
  show ?thesis
    unfolding parse_prefix_def
    by (intro keeps_names_if keeps_names_map[OF call_named] keeps_names_map[OF items_named] keeps_names_map[OF entries_named]
        keeps_names_map[OF pe] call_named)
      (use assms state_tokens_head[OF assms(2)] mark in auto)
qed

lemma infix_named:
  assumes "naming_parser pe" and "list_all state_token ts" and "named_well h"
  shows "keeps_names (parse_infix pe h ts) named_well"
proof -
  note pe = naming_parserD[OF assms(1)]
  have "keeps_names (case pe 0 (tl ts) of None \<Rightarrow> None
      | Some (b, r) \<Rightarrow> map_option (\<lambda>(c, r'). (Ternary h b c, r')) (pe 0 (expect 8 r))) named_well"
    by (intro keeps_names_bind[OF pe] keeps_names_map[OF pe]) (use assms in auto)
  then show ?thesis
    unfolding parse_infix_def using assms(2,3)
    by (auto intro!: keeps_names_map[OF pe] split: option.split)
qed

lemma loop_named:
  assumes "naming_parser pe"
  shows "list_all state_token ts \<Longrightarrow> named_well h \<Longrightarrow> keeps_names (parse_loop pe n m h ts) named_well"
proof (induction n arbitrary: h ts)
  case (Suc n)
  show ?case
    using Suc.prems by (auto intro!: keeps_names_bind[OF infix_named[OF assms]] Suc.IH)
qed simp

lemma parser_names: "naming_parser (parse_expr k)"
proof (induction k)
  case 0
  then show ?case by (simp add: naming_parser_def parse_expr.simps)
next
  case (Suc k)
  have "keeps_names (parse_expr (Suc k) m ts) named_well" if "list_all state_token ts" for m ts
    unfolding parse_expr_applied by (rule keeps_names_bind[OF prefix_named[OF Suc that]]) (rule loop_named[OF Suc])
  then show ?case by (simp add: naming_parser_def)
qed

lemma parsed_named: "list_all state_token ts \<Longrightarrow> named_well (parse_expression ts)"
  using naming_parserD[OF parser_names[of "Suc (length ts)"], of ts 0] parse_expression_returns[of ts]
  by (auto simp: keeps_names_def)

lemma take_statement_names:
  "list_all state_token ts \<Longrightarrow> list_all state_token (fst (take_statement lc ts)) \<and> list_all state_token (snd (take_statement lc ts))"
  by (induction lc ts rule: take_statement.induct) auto

lemma dropWhile_names: "list_all state_token ts \<Longrightarrow> list_all state_token (dropWhile P ts)"
  by (auto simp: list_all_iff dest: set_dropWhileD)

lemma split_names: "list_all state_token ts \<Longrightarrow> \<forall>s \<in> set (split_statements ts). list_all state_token (st_tokens s)"
proof (induction ts rule: split_statements.induct)
  case (1 ts)
  have rest: "list_all state_token (skip_newlines ts)" using 1(4) by (simp add: skip_newlines_def dropWhile_names)
  show ?case
  proof (cases "skip_newlines ts")
    case Nil
    then show ?thesis by (simp add: split_statements.simps[of ts])
  next
    case (Cons a r)
    then have r: "list_all state_token (a # r)" "list_all state_token r" using rest by auto
    then show ?thesis
      using 1(1-3)[OF Cons] take_statement_names[of "tl r" "(0, 0)"] dropWhile_names[OF r(1)] dropWhile_names[OF r(2)] Cons
      by (subst split_statements.simps) (auto simp: skip_line_def)
  qed
qed

lemma definitions_named: "(x, d) \<in> set (definitions_of (split_statements (tokenize s))) \<Longrightarrow> named_well d"
  using split_names[OF tokenize_state_tokens] by (auto simp: definitions_of_def intro: parsed_named)

lemma named_with_kids:
  "named_well n \<Longrightarrow> length ms = length (kids n) \<Longrightarrow> list_all named_well ms \<Longrightarrow> named_well (with_kids n ms)"
  using kids_with_kids[of ms n] named_well.simps[of "with_kids n ms"] named_well.simps[of n]
  by (cases n) auto

lemma expands_named:
  assumes "\<forall>(x, d) \<in> set (v_defs E). named_well d"
  shows "expands E n m \<Longrightarrow> named_well n \<Longrightarrow> named_well m"
proof (induction rule: expands.induct)
  case (expands_ref x d m)
  then show ?case using assms by (auto dest: map_of_SomeD)
next
  case (expands_node n ms)
  have "list_all named_well (kids n)" using expands_node.prems by (simp add: named_well.simps[of n])
  then have "list_all named_well ms"
    using expands_node.IH by (auto simp: list_all2_conv_all_nth list_all_length)
  then show ?case using named_with_kids expands_node by (simp add: list_all2_lengthD)
qed

section \<open>Printable output\<close>

text \<open>
  The one thing the checks leave open: a minus sign before a number that is not finite, such as
  \<open>- 1e999\<close>, is printed as a name.
\<close>

function finite_signs :: "node \<Rightarrow> bool" where
  "finite_signs n =
     ((case n of UnaryOp op operand \<Rightarrow> (case operand of Num x \<Rightarrow> is_fin x | _ \<Rightarrow> False) | _ \<Rightarrow> True) \<and> list_all finite_signs (kids n))"
  by pat_completeness auto
termination by (relation "measure size") (auto simp: kids_size)

declare finite_signs.simps [simp del]

lemma finite_sign: "finite_signs (UnaryOp op (Num x)) \<Longrightarrow> is_fin x"
  by (simp add: finite_signs.simps[of "UnaryOp _ _"])

lemma printable_tree:
  "tree_safe lib m \<Longrightarrow> list_all component_name lib \<Longrightarrow> named_well m \<Longrightarrow> finite_signs m \<Longrightarrow> printable m"
proof (induction m rule: printable.induct)
  case (1 m)
  note h = "1.prems"
  have kids: "list_all (tree_safe lib) (kids m)" "list_all named_well (kids m)" "list_all finite_signs (kids m)"
    using h by (simp_all add: tree_safe.simps[of lib m] named_well.simps[of m] finite_signs.simps[of m])
  then have k: "list_all printable (kids m)" using "1.IH" h(2) by (simp add: list_all_iff)
  have c: "children lib m \<noteq> fail" "\<not> is_ref m" using h(1) by (simp_all add: tree_safe.simps[of lib m])
  have lib: "component_name name" if "name \<in> set lib" for name using h(2) that by (simp add: list_all_iff)
  note p = printable.simps[of m]
  show ?case
  proof (cases m)
    case (Comp name args fn)
    then show ?thesis using p k c lib by (simp split: if_splits)
  next
    case (StateRef s)
    then show ?thesis using p h(3) by simp
  next
    case (UnaryOp op operand)
    then obtain x where "operand = Num x" using c by (cases operand) (auto simp: is_num_node_def)
    then show ?thesis using p k UnaryOp h(4) finite_sign by simp
  next
    case (Index obj index)
    then show ?thesis using p k c by (simp split: if_splits)
  qed (use p k c in \<open>simp_all add: is_ref_def\<close>)
qed

lemma admitted_printable:
  assumes "admits lib s data m" and "list_all component_name lib" and "finite_signs m"
  shows "printable m"
proof -
  have v: "view_admits (view_of lib s data) m" using assms(1) by (simp add: admits_iff)
  then have e: "expands (view_of lib s data) (Ref root_name) m" by (simp add: view_admits_def)
  have "\<forall>(x, d) \<in> set (v_defs (view_of lib s data)). named_well d"
    using definitions_named[of _ _ s] by (auto simp only: view_of_def view.select_convs)
  from expands_named[OF this e] have "named_well m" by simp
  moreover have "tree_safe lib m" using view_admits_bounds[OF v] by (simp add: view_of_def)
  ultimately show ?thesis using printable_tree assms(2,3) by blast
qed

text \<open>The same condition on the source; it is about the numbers in it only.\<close>

definition signs_ok :: "jsstr \<Rightarrow> bool" where
  "signs_ok s \<longleftrightarrow> list_all (\<lambda>d. finite_signs (snd d)) (definitions_of (split_statements (tokenize s)))"

lemma signs_with_kids:
  assumes "finite_signs n" "length ms = length (kids n)" "list_all finite_signs ms"
    "\<And>op x. n = UnaryOp op (Num x) \<Longrightarrow> ms = [Num x]"
  shows "finite_signs (with_kids n ms)"
proof -
  have k: "list_all finite_signs (kids (with_kids n ms))" using kids_with_kids[OF assms(2)] assms(3) by simp
  show ?thesis
  proof (cases "\<exists>op a. n = UnaryOp op a")
    case True
    then obtain op x where "n = UnaryOp op (Num x)" "is_fin x"
      using assms(1) finite_signs.simps[of n] by (auto split: node.splits)
    then show ?thesis using assms(1,4) by simp
  next
    case False
    then have "\<not> (\<exists>op a. with_kids n ms = UnaryOp op a)" by (cases n) simp_all
    then show ?thesis using k by (subst finite_signs.simps) (simp split: node.split)
  qed
qed

lemma expands_num: "expands E (Num x) m \<Longrightarrow> m = Num x"
  by (erule expands.cases) auto

lemma expands_signs:
  assumes "\<forall>(x, d) \<in> set (v_defs E). finite_signs d"
  shows "expands E n m \<Longrightarrow> finite_signs n \<Longrightarrow> finite_signs m"
proof (induction rule: expands.induct)
  case (expands_ref x d m)
  then show ?case using assms by (auto dest: map_of_SomeD)
next
  case (expands_node n ms)
  have "list_all finite_signs (kids n)" using expands_node.prems by (simp add: finite_signs.simps[of n])
  then have "list_all finite_signs ms"
    using expands_node.IH by (auto simp: list_all2_conv_all_nth list_all_length)
  moreover have "ms = [Num x]" if "n = UnaryOp op (Num x)" for op x
  proof -
    have "list_all2 (expands E) [Num x] ms"
      using expands_node.IH that by (auto elim!: list_all2_mono)
    then show ?thesis by (auto simp: list_all2_Cons1 dest: expands_num)
  qed
  ultimately show ?case using signs_with_kids expands_node by (simp add: list_all2_lengthD)
qed

lemma admitted_signs:
  assumes "admits lib s data m" "signs_ok s"
  shows "finite_signs m"
proof -
  have "expands (view_of lib s data) (Ref root_name) m" using assms(1) by (simp add: admits_def)
  moreover have "\<forall>(x, d) \<in> set (v_defs (view_of lib s data)). finite_signs d"
    using assms(2) by (auto simp: signs_ok_def view_of_def list_all_iff)
  ultimately show ?thesis using expands_signs by (simp add: finite_signs.simps[of "Ref _"])
qed

end
