(* ===== verification/Lang_Bundle.thy ===== *)
theory Lang_Bundle
  imports Canonical_Output
begin

text \<open>
  Which part of a response is the program: \<open>t6\<close> and \<open>rne\<close> of the bundle \<open>web/artifact.js\<close>, as
  the renderer calls them on a response that is not streaming. A response may be a bundle of
  sections that lines \<open>]]>openui:kind?attributes\<close> begin; its program is the last \<open>content\<close>
  section, without a block of scripts. The attributes, the context and the list of scripts are
  left out: the page uses none of them.
\<close>

section \<open>Sections\<close>

definition marker :: jsstr where
  "marker = lit '']]>openui:''"

definition content_mark :: jsstr where
  "content_mark = lit '']]>openui:content''"

definition scripts_mark :: jsstr where
  "scripts_mark = lit '']]>openui:scripts''"

definition line_end :: "code_unit \<Rightarrow> bool" where
  "line_end c \<longleftrightarrow> c \<in> {10, 13, 0x2028, 0x2029}"

text \<open>\<open>mqt\<close>: a content marker in the middle of a line gets a line of its own.\<close>

definition content_starts :: "jsstr \<Rightarrow> bool" where
  "content_starts s \<longleftrightarrow> starts_with s content_mark \<and>
     (case drop (length content_mark) s of [] \<Rightarrow> True
      | c # r \<Rightarrow> c = 63 \<or> c = 10 \<or> c = 13 \<and> r \<noteq> [] \<and> hd r = 10)"

fun break_content :: "jsstr \<Rightarrow> jsstr" where
  "break_content [] = []"
| "break_content (c # s) =
     (if c \<noteq> 10 \<and> content_starts s then c # 10 # break_content s else c # break_content s)"

text \<open>\<open>dVt\<close>: a scripts marker at the beginning of a line gets a space, so that it is no section.\<close>

definition scripts_start :: "jsstr \<Rightarrow> bool" where
  "scripts_start s \<longleftrightarrow> starts_with s scripts_mark \<and>
     (case drop (length scripts_mark) s of [] \<Rightarrow> True | c # r \<Rightarrow> c = 63 \<or> line_end c)"

function pad_scripts :: "bool \<Rightarrow> jsstr \<Rightarrow> jsstr" where
  "pad_scripts first [] = []"
| "pad_scripts first (c # s) =
     (if first \<and> scripts_start (c # s)
      then scripts_mark @ 32 # pad_scripts False (drop (length scripts_mark) (c # s))
      else c # pad_scripts (line_end c) s)"
  by pat_completeness auto
termination
  by (relation "measure (length \<circ> snd)") (auto simp: scripts_mark_def lit_def)

text \<open>\<open>fqt\<close>: the kind of a line that begins a section.\<close>

definition drop_cr :: "jsstr \<Rightarrow> jsstr" where   \<comment> \<open>\<open>replace(/\r$/, "")\<close>\<close>
  "drop_cr s = (if s \<noteq> [] \<and> last s = 13 then butlast s else s)"

definition section_kind :: "jsstr \<Rightarrow> jsstr option" where
  "section_kind line =
     (let s = drop (length marker) line; kind = takeWhile is_lower s; rest = dropWhile is_lower s
      in if starts_with line marker \<and> kind \<noteq> [] \<and>
            (rest = [] \<or> hd rest = 63 \<and> list_all (\<lambda>c. \<not> line_end c) (tl rest))
         then Some kind else None)"

text \<open>The sections, last one first, each with its lines in reverse order.\<close>

type_synonym sections = "(jsstr option \<times> jsstr list) list"

definition add_line :: "jsstr \<Rightarrow> sections \<Rightarrow> sections" where
  "add_line l secs = (case secs of (k, ls) # ss \<Rightarrow> (k, l # ls) # ss | [] \<Rightarrow> [])"

definition end_section :: "sections \<Rightarrow> sections" where
  "end_section secs = (case secs of (k, l # ls) # ss \<Rightarrow> (k, drop_cr l # ls) # ss | _ \<Rightarrow> secs)"

fun read_sections :: "sections \<Rightarrow> jsstr list \<Rightarrow> sections" where
  "read_sections secs [] = secs"
| "read_sections secs (v # vs) =
     (case section_kind (drop_cr v) of
        None \<Rightarrow> read_sections (add_line v secs) vs
      | Some kind \<Rightarrow>
          if kind = lit ''end'' then (if vs = [[]] then end_section secs else read_sections (end_section secs) vs)
          else read_sections ((Some kind, []) # end_section secs) vs)"

text \<open>The last content section, or the part before all sections.\<close>

definition content_of :: "sections \<Rightarrow> jsstr" where
  "content_of secs =
     join_with [10] (rev (snd
       (case find (\<lambda>s. fst s = Some (lit ''content'')) secs of Some s \<Rightarrow> s | None \<Rightarrow> last secs)))"

definition bundle_content :: "jsstr \<Rightarrow> jsstr" where
  "bundle_content e = content_of (read_sections [(None, [])] (lines_of (break_content e)))"

section \<open>Scripts\<close>

text \<open>\<open>Wae\<close>: the first \<open>]]>\<close> outside strings and comments, as the text before it.\<close>

function before_block :: "code_unit option \<Rightarrow> bool \<Rightarrow> jsstr \<Rightarrow> jsstr option" where
  "before_block q esc [] = None"
| "before_block (Some d) esc (c # s) =
     map_option ((#) c) (if esc then before_block (Some d) False s
        else if c = 92 then before_block (Some d) True s
        else before_block (if c = d then None else Some d) False s)"
| "before_block None esc (c # s) =
     (if c = 35 \<or> c = 47 \<and> s \<noteq> [] \<and> hd s = 47 then
        (case dropWhile (\<lambda>x. x \<noteq> 10) (c # s) of [] \<Rightarrow> None
         | nl # r \<Rightarrow> map_option (\<lambda>p. takeWhile (\<lambda>x. x \<noteq> 10) (c # s) @ nl # p) (before_block None False r))
      else if c = 34 \<or> c = 39 then map_option ((#) c) (before_block (Some c) False s)
      else if starts_with (c # s) (lit '']]>'') then Some []
      else map_option ((#) c) (before_block None False s))"
  by pat_completeness auto
termination
proof (relation "measure (\<lambda>(q, esc, s). length s)", goal_cases)
  case (5 esc c s nl r)
  then show ?case using length_dropWhile_le[of "\<lambda>x. x \<noteq> 10" "c # s"] by simp
qed auto

definition drop_newline :: "jsstr \<Rightarrow> jsstr" where   \<comment> \<open>\<open>replace(/\r?\n$/, "")\<close>\<close>
  "drop_newline s = (if s \<noteq> [] \<and> last s = 10 then drop_cr (butlast s) else s)"

text \<open>The program without the block of scripts that ends at the next marker after its first line.\<close>

definition without_scripts :: "jsstr \<Rightarrow> jsstr" where
  "without_scripts c =
     (case before_block None False c of
        Some p \<Rightarrow>
          if starts_with (drop (length p) c) scripts_mark then
            (let before = drop_newline p;
                 after = (case dropWhile (\<lambda>x. x \<noteq> 10) (drop (length p) c) of [] \<Rightarrow> []
                   | nl # r \<Rightarrow> (case before_block None False r of Some w \<Rightarrow> drop (length w) r | None \<Rightarrow> []))
             in if after \<noteq> [] then before @ [10] @ after else before)
          else c
      | None \<Rightarrow> c)"

definition program_of :: "jsstr \<Rightarrow> jsstr" where
  "program_of e = without_scripts (bundle_content (pad_scripts True e))"

section \<open>A text without markers\<close>

fun has_marker :: "jsstr \<Rightarrow> bool" where
  "has_marker [] = False"
| "has_marker (c # s) \<longleftrightarrow> starts_with (c # s) marker \<or> has_marker s"

lemma mark_prefix:
  assumes "starts_with s (marker @ x)"
  shows "starts_with s marker"
proof -
  have "take (length marker) (take (length (marker @ x)) s) = take (length marker) (marker @ x)"
    using assms unfolding starts_with_def by (rule arg_cong)
  then show ?thesis by (simp add: starts_with_def)
qed

lemma marks: "content_mark = marker @ lit ''content''" "scripts_mark = marker @ lit ''scripts''"
  by (simp_all add: content_mark_def scripts_mark_def marker_def lit_def)

lemma marker_head: "starts_with s marker \<Longrightarrow> s \<noteq> [] \<and> hd s = 93"
  by (cases s) (auto simp: starts_with_def marker_def lit_def)

lemma starts_has_marker: "starts_with s marker \<Longrightarrow> has_marker s"
  using marker_head[of s] by (cases s) auto

lemma break_free: "\<not> has_marker s \<Longrightarrow> break_content s = s"
proof (induction s)
  case (Cons c s)
  then show ?case using mark_prefix starts_has_marker[of s] by (auto simp: content_starts_def marks)
qed simp

lemma pad_free: "\<not> has_marker s \<Longrightarrow> pad_scripts b s = s"
proof (induction s arbitrary: b)
  case (Cons c s)
  then show ?case using mark_prefix[of "c # s"] by (auto simp: scripts_start_def marks)
qed simp

lemma before_body: "string_body b \<Longrightarrow> before_block (Some 34) False (b @ 34 # s) = map_option (\<lambda>p. b @ 34 # p) (before_block None False s)"
proof (induction b rule: string_body.induct)
  case (2 c b)
  then show ?case by (cases "c = 92") (auto simp: option.map_comp comp_def split: list.splits)
qed (simp add: comp_def)

lemma before_string: "string_body b \<Longrightarrow> before_block None False (34 # b @ 34 # s) = map_option (\<lambda>p. 34 # b @ 34 # p) (before_block None False s)"
  by (simp add: before_body option.map_comp comp_def)

lemma before_tidy: "tidy s \<Longrightarrow> before_block None False s = None"
proof (induction rule: tidy.induct)
  case (tidy_string b s)
  then show ?case by (simp add: before_body[OF tidy_string(1)])
next
  case (tidy_unit c s)
  have "\<not> starts_with (c # s) (lit '']]>'')"
  proof
    assume "starts_with (c # s) (lit '']]>'')"
    then obtain t where "s = 93 # 62 # t" by (cases s; cases "tl s") (auto simp: starts_with_def lit_def)
    then have "tidy (93 # 62 # t)" using tidy_unit(2) by simp
    then show False by (auto simp: plain_unit_def elim!: tidy.cases[of "62 # t"] elim: tidy.cases)
  qed
  then show ?case using tidy_unit by (auto simp: plain_unit_def)
qed simp

lemma plain_line: "10 \<notin> set s \<Longrightarrow> lines_of s = [s]"
proof -
  assume "10 \<notin> set s"
  then have "dropWhile (\<lambda>c. c \<noteq> 10) s = []" by (simp add: dropWhile_eq_Nil_conv) blast
  then show ?thesis by (subst lines_of.simps) (simp only: list.case)
qed

lemma program_of_root:
  assumes "printable m" and "\<not> has_marker (root_text m)"
  shows "program_of (root_text m) = root_text m"
proof -
  have t: "tidy (root_text m)" using inert_root[OF assms(1)] by (simp add: inert_def)
  have "section_kind (drop_cr (root_text m)) = None"
    using drop_cr_def[of "root_text m"] by (simp add: section_kind_def root_text_def starts_with_def marker_def lit_def)
  then have "bundle_content (root_text m) = root_text m"
    using plain_line[OF tidy_no_newline[OF t]] break_free[OF assms(2)]
    by (simp add: bundle_content_def content_of_def add_line_def)
  then show ?thesis using pad_free[OF assms(2)] before_tidy[OF t] by (simp add: program_of_def without_scripts_def)
qed

text \<open>A text in a string that has a content marker: the renderer takes it for an empty program.\<close>

definition marker_view :: jsstr where
  "marker_view = lit (''root = Stack([Text('' @ [CHR 0x22] @ ''a]]>openui:content?b'' @ [CHR 0x22] @ '')])'')"

lemma marker_empties_program: "program_of marker_view = []"
  by (simp add: js_eval marker_view_def program_of_def pad_scripts.simps bundle_content_def content_starts_def
      marks marker_def scripts_start_def starts_with_def lines_of.simps line_end_def section_kind_def is_lower_def
      add_line_def end_section_def drop_cr_def content_of_def without_scripts_def)

end
