(* ===== verification/Lang_Canonical_Build.thy ===== *)
theory Lang_Canonical_Build
  imports Lang_Build_Total Lang_Build_Typed Lang_Bundle
begin

text \<open>
  The build of a canonical text. Its tree has no references, and its calls are components of the
  catalog, so that the build leaves no name unresolved and reports nothing but properties that do
  not fit (\<open>adds\<close>: an action adds such issues and changes nothing else).
\<close>

section \<open>Issues about properties\<close>

fun property_issue :: "issue_code \<Rightarrow> bool" where
  "property_issue (TypeMismatch _ _) = True"
| "property_issue (MissingRequired _) = True"
| "property_issue (NullRequired _) = True"
| "property_issue (ExcessArgs _ _) = True"
| "property_issue _ = False"

definition property_issues :: "issue list \<Rightarrow> bool" where
  "property_issues is \<longleftrightarrow> (\<forall>i \<in> set is. property_issue (i_code i))"

lemma property_issues_simps [simp]:
  "property_issues []" "property_issues (i # is) \<longleftrightarrow> property_issue (i_code i) \<and> property_issues is"
  "property_issues (is @ is') \<longleftrightarrow> property_issues is \<and> property_issues is'"
  by (auto simp: property_issues_def)

lemma issue_at_code [simp]: "i_code (issue_at sc p code) = code"
  by (simp add: issue_at_def)

lemma element_issue_code: "element_issue t v = Some code \<Longrightarrow> property_issue code"
  by (auto simp: element_issue_def split: if_splits)

lemma literal_issue_code: "literal_issue sc t v = Some code \<Longrightarrow> property_issue code"
  by (auto simp: literal_issue_def split: if_splits option.splits)

lemma fill_required_issues:
  "fill_required sc props path old ds cur = (bad, cur', is) \<Longrightarrow> property_issues is"
proof (induction ds arbitrary: cur bad cur' "is")
  case (Cons d ds)
  obtain bad' c' is' where r: "fill_required sc props path old ds cur = (bad', c', is')" by (cases rule: prod_cases3) blast
  show ?case
  proof (cases "lacks old d \<and> default_of (prop_schema props d) = JUndef")
    case True
    then show ?thesis using Cons.prems Cons.IH[OF r] r by auto
  next
    case False
    then show ?thesis using Cons by (auto split: if_splits)
  qed
qed simp

lemma check_keys_issues:
  assumes "\<And>d x s p. map_of kvs d = Some x \<Longrightarrow> property_issues (snd (check_value sc s x p))"
  shows "property_issues (snd (snd (check_keys sc req props path kvs ds cur)))"
proof (induction ds arbitrary: cur)
  case (Cons d ds)
  show ?case
  proof (cases "map_of kvs d")
    case None
    then show ?thesis using Cons by simp
  next
    case (Some x)
    obtain r "is" where r: "check_value sc (prop_schema props d) x (sub_path path d) = (r, is)" by fastforce
    then have i: "property_issues is" using assms[OF Some, of "prop_schema props d" "sub_path path d"] by simp
    show ?thesis
    proof (cases "case r of Some m \<Rightarrow> Some m | None \<Rightarrow> settle (d \<in> set req) (default_of (prop_schema props d))")
      case None
      then show ?thesis using i Cons[of cur]
        by (simp only: check_keys_Some[OF Some] r prod.case None option.case) (auto split: prod.split)
    next
      case (Some m)
      then show ?thesis using i Cons[of "step_fields cur d x m"]
        by (simp only: check_keys_Some[OF \<open>map_of kvs d = Some x\<close>] r prod.case Some option.case) (auto split: prod.split)
    qed
  qed
qed simp

lemma check_items_issues:
  "(\<And>x p. x \<in> set xs \<Longrightarrow> property_issues (snd (check_value sc t x p))) \<Longrightarrow> property_issues (snd (check_items sc t path l xs))"
proof (induction xs arbitrary: l)
  case (Cons x xs)
  have "property_issues (snd (check_items sc t path (l + 1) xs))" by (rule Cons.IH) (use Cons.prems in auto)
  then show ?case using Cons.prems[of x "sub_path path (nat_str l)"] by (auto split: prod.splits)
qed simp

lemma check_issues: "property_issues (snd (check_value sc t v path))"
proof (induction v arbitrary: t path rule: measure_induct_rule[of size])
  case (less v)
  note step = check_value.simps[of sc t v path]
  have keys: "property_issues (snd (snd (check_keys sc (required_keys t) (schema_props t) path kvs ds cur)))"
    if "v = VObj kvs" for kvs ds cur
    by (rule check_keys_issues) (use less.IH field_size that in \<open>fastforce simp: fields_size_def\<close>)
  have items: "property_issues (snd (check_items sc s path 0 xs))" if "v = VArr xs" for xs s
    by (rule check_items_issues) (use less.IH item_size that in blast)
  show ?case
  proof (cases v)
    case (VObj kvs)
    obtain bad1 cur is1 where fill: "fill_required sc (schema_props t) path kvs
        (if c_partial sc then [] else required_keys t) kvs = (bad1, cur, is1)" by (cases rule: prod_cases3) blast
    obtain bad2 cur' is2 where run: "check_keys sc (required_keys t) (schema_props t) path kvs
        (map fst (schema_props t)) cur = (bad2, cur', is2)" by (cases rule: prod_cases3) blast
    have "property_issues is2" using keys[OF VObj, of "map fst (schema_props t)" cur] run by simp
    then show ?thesis
      using step[unfolded VObj] fill_required_issues[OF fill] fill run
      by (auto simp: VObj union_issue_def dest: element_issue_code literal_issue_code split: option.splits)
  next
    case (VArr xs)
    then show ?thesis
      using step items[OF VArr, of "prop_or_undef t (lit ''items'')"]
      by (auto simp: union_issue_def dest: element_issue_code literal_issue_code split: option.splits prod.splits)
  qed (use step in \<open>auto simp: union_issue_def dest: element_issue_code literal_issue_code split: option.splits\<close>)
qed

section \<open>Actions that only add such issues\<close>

definition adds :: "(build, 'a) jsm \<Rightarrow> bool" where
  "adds m \<longleftrightarrow> (\<forall>s. \<exists>is. property_issues is \<and> snd (m s) = s\<lparr>b_issues := b_issues s @ is\<rparr>)"

named_theorems adds_rules \<open>rules for \<open>adds\<close>\<close>

lemma adds_push: "property_issues is \<Longrightarrow> adds (push_issues is)"
  by (auto simp: adds_def push_issues_def modify_def)

lemma adds_ret [adds_rules]: "adds (ret x)"
  by (auto simp: adds_def ret_def intro!: exI[of _ "[]"])

lemma adds_throw [adds_rules]: "adds (throw e)"
  by (auto simp: adds_def throw_def intro!: exI[of _ "[]"])

lemma adds_bind [adds_rules]:
  assumes "adds m" "\<And>x. adds (f x)"
  shows "adds (bind m f)"
  unfolding adds_def
proof
  fix s
  obtain "is" where i: "property_issues is" "snd (m s) = s\<lparr>b_issues := b_issues s @ is\<rparr>"
    using assms(1) by (auto simp: adds_def)
  show "\<exists>is. property_issues is \<and> snd (bind m f s) = s\<lparr>b_issues := b_issues s @ is\<rparr>"
  proof (cases "fst (m s)")
    case (Inl e)
    then show ?thesis using i by (auto simp: bind_def split: prod.split)
  next
    case (Inr x)
    obtain is' where "property_issues is'" "snd (f x (snd (m s))) = (snd (m s))\<lparr>b_issues := b_issues (snd (m s)) @ is'\<rparr>"
      using assms(2) by (auto simp: adds_def)
    then show ?thesis using i Inr by (intro exI[of _ "is @ is'"]) (auto simp: bind_def split: prod.split)
  qed
qed

lemma adds_next [adds_rules]: "adds m \<Longrightarrow> adds n \<Longrightarrow> adds (next_do m n)"
  by (simp add: next_do_def adds_bind)

lemma adds_if [adds_rules]: "adds m \<Longrightarrow> adds n \<Longrightarrow> adds (if b then m else n)"
  by simp

lemma adds_traverse: "(\<And>x. x \<in> set xs \<Longrightarrow> adds (f x)) \<Longrightarrow> adds (traverse f xs)"
  by (induction xs) (simp_all add: adds_rules)

lemma adds_fields: "(\<And>e. e \<in> set es \<Longrightarrow> adds (f (snd e))) \<Longrightarrow> adds (traverse_fields f es)"
  unfolding traverse_fields_def by (intro adds_rules adds_traverse) auto

lemma adds_issue [adds_rules]: "property_issue code \<Longrightarrow> adds (push_issue c pl e p code)"
  unfolding push_issue_def by (rule adds_push) simp

lemma adds_check [adds_rules]: "adds (check_prop c pl e p v)"
  using check_issues[of "place_scope c pl e" "p_schema p" v "47 # p_name p"]
  by (auto simp: check_prop_def intro!: adds_rules adds_push split: prod.split)

section \<open>Trees without references\<close>

function settled :: "catalog \<Rightarrow> rnode \<Rightarrow> bool" where
  "settled cat n \<longleftrightarrow>
     (case n of
        NComp e args m fn \<Rightarrow> \<not> fn \<and> \<not> reserved e \<and> \<not> is_call cat e \<and> map_of (k_comps cat) e \<noteq> None \<and>
          (\<forall>a \<in> set args. settled cat a)
      | NArr els \<Rightarrow> \<forall>a \<in> set els. settled cat a
      | NObj es \<Rightarrow> \<forall>f \<in> set es. settled cat (snd f)
      | NIndex a b \<Rightarrow> settled cat a \<and> settled cat b
      | NState _ \<Rightarrow> True | NStr _ \<Rightarrow> True | NNum _ \<Rightarrow> True | NBool _ \<Rightarrow> True | NNull \<Rightarrow> True | _ \<Rightarrow> False)"
  by pat_completeness auto
termination
  by (relation "measure (\<lambda>(cat, n). size n)") (use size_arg in force)+

declare settled.simps [simp del]

lemma adds_resolve: "settled (x_cat c) n \<Longrightarrow> adds (resolve k c pl bound n)"
proof (induction k arbitrary: n bound)
  case 0
  then show ?case by (simp add: adds_throw)
next
  case (Suc k)
  note s = settled.simps[of "x_cat c" n]
  show ?case
  proof (cases n)
    case (NComp e args m fn)
    then have "loop_var c e args = None" using s Suc.prems by (auto simp: loop_var_def is_call_def split: option.splits)
    then show ?thesis using s Suc NComp by (auto simp: resolve_comp_def intro!: adds_rules adds_traverse)
  next
    case (NArr els)
    then show ?thesis using s Suc by (auto intro!: adds_rules adds_traverse)
  next
    case (NObj es)
    then show ?thesis using s Suc by (auto intro!: adds_rules adds_fields)
  qed (use s Suc in \<open>auto intro!: adds_rules\<close>)
qed

lemma adds_take_prop [adds_rules]: "adds (take_prop c pl e p f st)"
  unfolding take_prop_def Let_def by (auto intro!: adds_rules split: prod.split option.split)

lemma adds_take_props: "(\<And>a. a \<in> set args \<Longrightarrow> adds (v pl a)) \<Longrightarrow> adds (take_props c v pl e ps args st)"
  by (induction c v pl e ps args st rule: take_props.induct) (auto intro!: adds_rules)

lemma missing_codes: "property_issues (map (missing_issue c pl e ps props) qs)"
  by (auto simp: property_issues_def missing_issue_def)

lemma adds_element: "(\<And>a. a \<in> set args \<Longrightarrow> adds (v pl a)) \<Longrightarrow> adds (element_value c v pl e ps args)"
  unfolding element_value_def
  by (auto intro!: adds_rules adds_take_props adds_push missing_codes split: prod.split)

lemma adds_array: "(\<And>a. a \<in> set els \<Longrightarrow> adds (f a)) \<Longrightarrow> adds (array_values f els)"
proof (induction els)
  case (Cons a els)
  then have "adds (array_values f els)" "adds (f a)" by simp_all
  then show ?case by (cases a) (auto intro!: adds_rules)
qed (simp add: adds_ret)

lemma adds_valuate: "settled (x_cat c) n \<Longrightarrow> adds (valuate k c pl n)"
proof (induction k arbitrary: n)
  case 0
  then show ?case by (simp add: adds_throw)
next
  case (Suc k)
  note s = settled.simps[of "x_cat c" n]
  have res: "adds (resolve k c pl [] n)" by (rule adds_resolve[OF Suc.prems])
  show ?case
  proof (cases n)
    case (NComp e args m fn)
    then show ?thesis using s Suc by (auto simp: comp_value_def intro!: adds_element split: option.split)
  next
    case (NArr els)
    then show ?thesis using s Suc by (auto intro!: adds_rules adds_array)
  next
    case (NObj es)
    then show ?thesis using s Suc by (auto intro!: adds_rules adds_fields)
  next
    case (NState x)
    then show ?thesis using res by (auto intro!: adds_rules)
  next
    case (NIndex a b)
    then show ?thesis using res by (auto intro!: adds_rules)
  qed (use s Suc in \<open>auto intro!: adds_rules\<close>)
qed

section \<open>The canonical tree\<close>

text \<open>The catalog that goes with a library of components: no name of it is a function or a reserved word.\<close>

definition catalog_for :: "jsstr list \<Rightarrow> catalog \<Rightarrow> bool" where
  "catalog_for lib cat \<longleftrightarrow> (\<forall>e \<in> set lib. map_of (k_comps cat) e \<noteq> None \<and> \<not> is_call cat e \<and> \<not> reserved e)"

lemma raw_simps [simp]:
  "raw_node (number_node x) = (if is_fin x then NNum (read_back x) else NNull)"
  by (simp add: number_node_def)

lemma canonical_settled:
  "printable m \<Longrightarrow> tree_safe lib m \<Longrightarrow> catalog_for lib cat \<Longrightarrow> settled cat (raw_node (read_tree m))"
proof (induction m rule: printable.induct)
  case (1 m)
  note h = "1.prems"
  have kids: "list_all printable (kids m)" "list_all (tree_safe lib) (kids m)"
    using h by (simp_all add: printable.simps[of m] tree_safe.simps[of lib m])
  then have k: "\<forall>a \<in> set (kids m). settled cat (raw_node (read_tree a))" using "1.IH" h(3) by (simp add: list_all_iff)
  have c: "children lib m \<noteq> fail" using h(2) by (simp add: tree_safe.simps[of lib m])
  note p = printable.simps[of m] and r = read_tree.simps[of m]
  show ?case
  proof (cases m)
    case (Comp name args fn)
    then have "name \<in> set lib" using c by (simp split: if_splits)
    then have "map_of (k_comps cat) name \<noteq> None \<and> \<not> is_call cat name \<and> \<not> reserved name"
      using h(3) unfolding catalog_for_def by blast
    then show ?thesis using k r Comp settled.simps[of cat "raw_node (read_tree m)"] by simp
  next
    case (Obj es)
    then show ?thesis using k r settled.simps[of cat "raw_node (read_tree m)"] by auto
  next
    case (Arr els)
    then show ?thesis using k r settled.simps[of cat "raw_node (read_tree m)"] by simp
  next
    case (Member obj field)
    then show ?thesis using k r settled.simps[of cat "raw_node (read_tree m)"] settled.simps[of cat "NStr field"]
        read_tree.simps[of "Str field"] by simp
  next
    case (Index obj index)
    have "settled cat (raw_node (read_tree index))"
      using h(1) p Index read_tree.simps[of index] settled.simps[of cat "raw_node (read_tree index)"]
      by (cases index) (auto simp: is_literal_key_def split: if_splits)
    then show ?thesis using k r Index settled.simps[of cat "raw_node (read_tree m)"] by simp
  next
    case (UnaryOp op operand)
    then show ?thesis using r settled.simps[of cat "raw_node (read_tree m)"] by simp
  next
    case (Num x)
    then show ?thesis using r settled.simps[of cat "raw_node (read_tree m)"] by simp
  qed (use h(1) p r settled.simps[of cat "raw_node (read_tree m)"] in simp_all)
qed

lemma settled_entry: "settled cat n \<Longrightarrow> entry_of 16 n = ValueEntry n"
  using settled.simps[of cat n] by (cases n) (auto simp: entry_of_def reserved_def reserved_names_def)

lemma parse_canonical:
  assumes "printable m" "tree_safe lib m" "catalog_for lib cat"
  shows "parse_program cat root (root_text m) =
    build_program cat root [(root_name, ValueEntry (raw_node (read_tree m)))] False 1"
proof -
  have "root_text m \<noteq> []" by (simp add: root_text_def lit_def)
  then show ?thesis
    using assms cleaned_root segments_root autoclose_root trim_root split_root[OF assms(1)] parse_root
      settled_entry[OF canonical_settled[OF assms]]
    by (simp add: parse_program_def Let_def add_statement_def)
qed

text \<open>The value of the one statement of a canonical program, and what is reported on the way.\<close>

lemma canonical_value:
  assumes "settled cat n"
  shows "\<exists>v is. valuate (build_fuel [(root_name, n)]) \<lparr>x_syms = [(root_name, n)], x_cat = cat, x_partial = False\<rparr>
      \<lparr>visited = [], statement_id = Some root_name\<rparr> n s = (Inr v, s\<lparr>b_issues := b_issues s @ is\<rparr>) \<and> property_issues is"
proof -
  let ?c = "\<lparr>x_syms = [(root_name, n)], x_cat = cat, x_partial = False\<rparr>"
  let ?run = "valuate (build_fuel [(root_name, n)]) ?c \<lparr>visited = [], statement_id = Some root_name\<rparr> n s"
  obtain v s' where v: "?run = (Inr v, s')"
    using build_fuel_enough[of root_name n ?c "Some root_name"] unfolding returns_def by fastforce
  moreover have "adds (valuate (build_fuel [(root_name, n)]) ?c \<lparr>visited = [], statement_id = Some root_name\<rparr> n)"
    by (rule adds_valuate) (simp add: assms)
  ultimately show ?thesis unfolding adds_def by (metis snd_conv)
qed

definition root_issue :: "issue \<Rightarrow> bool" where
  "root_issue i \<longleftrightarrow> property_issue (i_code i) \<or> i_code i = NoRoot (lit ''not-component'')"

definition clean_result :: "program_result \<Rightarrow> bool" where
  "clean_result r \<longleftrightarrow> r_unresolved r = [] \<and> r_orphaned r = [] \<and> \<not> r_incomplete r \<and> r_count r = 1 \<and>
     r_queries r = [] \<and> r_mutations r = [] \<and> list_all root_issue (r_issues r) \<and> list_all (\<lambda>f. snd f = VNull) (r_state r)"

lemma undeclared_null:
  "list_all (\<lambda>f. snd f = VNull) st \<Longrightarrow> list_all (\<lambda>f. snd f = VNull) (undeclared es st)"
proof -
  have "list_all (\<lambda>f. snd f = VNull) st \<Longrightarrow>
      list_all (\<lambda>f. snd f = VNull) (foldl (\<lambda>acc x. if x \<in> fst ` set acc then acc else acc @ [(x, VNull)]) st xs)"
    for xs :: "jsstr list" and st :: fields
    by (induction xs arbitrary: st) simp_all
  then show "list_all (\<lambda>f. snd f = VNull) st \<Longrightarrow> ?thesis" unfolding undeclared_def by blast
qed

lemma report_canonical:
  assumes "settled cat n"
  shows "\<exists>is'. report_root [(root_name, n)] root (Some (root_name, False)) (Some n) v
      \<lparr>b_issues = is, b_unresolved = [], b_unreached = []\<rparr> =
      (Inr (), \<lparr>b_issues = is @ is', b_unresolved = [], b_unreached = []\<rparr>) \<and> list_all root_issue is' \<and>
    (component_call n \<longrightarrow> is' = [])"
proof -
  have "\<not> (\<exists>x. n = NRef x)" using assms settled.simps[of cat n] by auto
  then have names: "names_component [(root_name, n)] [] n \<longleftrightarrow> component_call n"
    by (subst names_component.simps) (auto split: rnode.split)
  show ?thesis
  proof (cases "root_element (Some (root_name, False)) v = VNull \<and> root_tree v = None \<and> \<not> component_call n")
    case True
    then show ?thesis
      by (auto simp: names report_root_def Let_def no_root_def push_issues_def modify_def root_issue_def)
  next
    case False
    then show ?thesis by (auto simp: names report_root_def Let_def ret_def)
  qed
qed

lemma canonical_program:
  assumes "settled cat n"
  shows "\<exists>r. build_program cat root [(root_name, ValueEntry n)] False 1 = Inr r \<and> clean_result r \<and>
    (\<forall>e args m fn. n = NComp e args m fn \<longrightarrow> component_call n \<longrightarrow> (\<forall>i \<in> set (r_issues r). property_issue (i_code i)))"
proof -
  let ?c = "\<lparr>x_syms = [(root_name, n)], x_cat = cat, x_partial = False\<rparr>"
  let ?s = "\<lparr>b_issues = [], b_unresolved = [], b_unreached = []\<rparr>"
  let ?start = "Some (root_name, False)"
  have root: "lit ''root'' = root_name" by (simp add: root_name_def)
  have start: "find_root [(root_name, ValueEntry n)] root = ?start" by (simp add: find_root_def root)
  obtain v "is" where v: "valuate (build_fuel [(root_name, n)]) ?c \<lparr>visited = [], statement_id = Some root_name\<rparr> n ?s =
      (Inr v, \<lparr>b_issues = is, b_unresolved = [], b_unreached = []\<rparr>)" and "is": "property_issues is"
    using canonical_value[OF assms, of ?s] by auto
  obtain is' where rep: "report_root [(root_name, n)] root ?start (Some n) v \<lparr>b_issues = is, b_unresolved = [], b_unreached = []\<rparr> =
      (Inr (), \<lparr>b_issues = is @ is', b_unresolved = [], b_unreached = []\<rparr>)" and is': "list_all root_issue is'"
      and comp: "component_call n \<Longrightarrow> is' = []"
    using report_canonical[OF assms, of root v "is"] by blast
  let ?r = "\<lparr>r_root = root_element ?start v, r_expr = root_tree v, r_incomplete = False, r_unresolved = [], r_orphaned = [],
    r_count = 1, r_issues = is @ is', r_state = undeclared [(root_name, ValueEntry n)] [], r_queries = [], r_mutations = []\<rparr>"
  have "build_root ?c [(root_name, ValueEntry n)] root ?s =
      (Inr (root_element ?start v, root_tree v, undeclared [(root_name, ValueEntry n)] []),
       \<lparr>b_issues = is @ is', b_unresolved = [], b_unreached = []\<rparr>)"
    using v rep by (simp add: build_root_def Let_def start bind_def next_do_def ret_def)
  then have "build_program cat root [(root_name, ValueEntry n)] False 1 = Inr ?r"
    by (simp add: build_program_def Let_def start query_of_def mutation_of_def)
  moreover have "list_all root_issue is" using "is" by (simp add: property_issues_def root_issue_def list_all_iff)
  ultimately show ?thesis
    using is' comp(1) "is" undeclared_null[of "[]"] by (auto simp: clean_result_def property_issues_def)
qed

end
