(* ===== verification/Renderer_Properties.thy ===== *)
theory Renderer_Properties
  imports Lang_Canonical_Build Preflight_Properties
begin

text \<open>
  The properties of the renderer's parser: it reads the canonical text of \<open>preflightView\<close> back
  as the tree it was printed from, builds it without an unresolved name, and whatever program it
  gets it returns, with elements that are well typed.
\<close>

section \<open>Well-typed programs\<close>

lemma props_typed_same: "x_cat c = x_cat c' \<Longrightarrow> x_partial c = x_partial c' \<Longrightarrow> props_typed c ps props = props_typed c' ps props"
  by (simp add: props_typed_def prop_typed_def value_scope_def cong: option.case_cong)

lemma built_same:
  assumes "x_cat c = x_cat c'" "x_partial c = x_partial c'"
  shows "built c v = built c' v"
proof (induction v)
  case (VElem e props p d st)
  then show ?case using assms props_typed_same[OF assms] by (fastforce split: option.splits)
next
  case (VObj kvs)
  then show ?case by (fastforce simp: fields_built_def)
qed simp_all

lemma declare_typed:
  assumes "\<And>t. gives (f t) (built c)"
  shows "fields_built c st \<Longrightarrow> gives (declare_states f q es st) (fields_built c)"
proof (induction es arbitrary: st)
  case (Cons xe es)
  obtain x e where xe: "xe = (x, e)" by fastforce
  have "gives (bind (f t) (\<lambda>v. declare_states f q es (put_field st x v))) (fields_built c)" for t
    by (rule gives_bind[OF assms]) (use Cons built_put in blast)
  then show ?case using Cons xe by (cases e) (auto intro: gives_next)
qed (simp add: gives_ret)

lemma fields_built_append: "fields_built c (kvs @ kvs') \<longleftrightarrow> fields_built c kvs \<and> fields_built c kvs'"
  by (auto simp: fields_built_def)

lemma undeclared_typed: "fields_built c st \<Longrightarrow> fields_built c (undeclared es st)"
proof -
  have "fields_built c st \<Longrightarrow>
      fields_built c (foldl (\<lambda>acc x. if x \<in> fst ` set acc then acc else acc @ [(x, VNull)]) st xs)"
    for xs :: "jsstr list" and st
    by (induction xs arbitrary: st) (simp_all add: fields_built_append)
  then show "fields_built c st \<Longrightarrow> ?thesis" unfolding undeclared_def by blast
qed

lemma root_element_typed: "built c v \<Longrightarrow> built c (root_element start v)"
  by (simp add: root_element_def built_set_statement split: option.split)

lemma build_root_typed:
  assumes "catalog_ok (x_cat c)"
  shows "gives (build_root c es root) (\<lambda>r. built c (fst r) \<and> fields_built c (snd (snd r)))"
  unfolding build_root_def Let_def
proof (rule gives_bind[of _ "built c"])
  show "gives (case Option.bind (find_root es root) (\<lambda>l. map_of (x_syms c) (fst l)) of
      Some t \<Rightarrow> valuate (build_fuel (x_syms c)) c \<lparr>visited = [], statement_id = map_option fst (find_root es root)\<rparr> t
    | None \<Rightarrow> ret VNull) (built c)"
    by (simp add: valuate_typed[OF assms] gives_ret split: option.split)
  fix v assume v: "built c v"
  show "gives (bind (declare_states (valuate (build_fuel (x_syms c)) c
          \<lparr>visited = [], statement_id = map_option fst (find_root es root)\<rparr>)
          (\<lambda>x args. name_calls c (\<lparr>visited = [], statement_id = map_option fst (find_root es root)\<rparr>\<lparr>statement_id := Some x\<rparr>) args) es [])
        (\<lambda>st. next_do (report_root (x_syms c) root (find_root es root)
            (Option.bind (find_root es root) (\<lambda>l. map_of (x_syms c) (fst l))) v)
          (ret (root_element (find_root es root) v, root_tree v, undeclared es st))))
      (\<lambda>r. built c (fst r) \<and> fields_built c (snd (snd r)))"
    by (rule gives_bind[OF declare_typed[OF valuate_typed[OF assms]]])
      (simp_all add: gives_next gives_ret root_element_typed[OF v] undeclared_typed)
qed

lemma build_program_typed:
  assumes "catalog_ok cat" "build_program cat root es partial count = Inr r"
  shows "r_incomplete r = partial \<and> built \<lparr>x_syms = [], x_cat = cat, x_partial = partial\<rparr> (r_root r) \<and>
    fields_built \<lparr>x_syms = [], x_cat = cat, x_partial = partial\<rparr> (r_state r)"
proof -
  let ?c = "\<lparr>x_syms = map (map_prod id entry_tree) es, x_cat = cat, x_partial = partial\<rparr>"
  let ?d = "\<lparr>x_syms = [], x_cat = cat, x_partial = partial\<rparr>"
  obtain h e st b where run: "build_root ?c es root \<lparr>b_issues = [], b_unresolved = [],
      b_unreached = map fst (filter (\<lambda>e. is_value (snd e) \<and> Some (fst e) \<noteq> map_option fst (find_root es root)) es)\<rparr> = (Inr (h, e, st), b)"
    and r: "r_root r = h" "r_state r = st" "r_incomplete r = partial"
    using assms(2) by (auto simp: build_program_def Let_def split: prod.splits sum.splits)
  have "built ?c h \<and> fields_built ?c st"
    using build_root_typed[of ?c es root] assms(1) run unfolding gives_def by fastforce
  moreover have "built ?c v = built ?d v" for v by (rule built_same) simp_all
  ultimately show ?thesis using r by (simp add: fields_built_def)
qed

definition from_parser :: "catalog \<Rightarrow> jsstr \<Rightarrow> jserr + program_result \<Rightarrow> bool" where
  "from_parser cat root r \<longleftrightarrow>
     (\<exists>b. r = Inr (empty_program b)) \<or> (\<exists>es partial count. r = build_program cat root es partial count)"

lemma from_parser_intros:
  "from_parser cat root (Inr (empty_program b))" "from_parser cat root (build_program cat root es partial count)"
  by (auto simp: from_parser_def)

lemma parse_from: "from_parser cat root (parse_program cat root text)"
  unfolding parse_program_def Let_def by (simp add: from_parser_intros split: if_split)

lemma parse_typed:
  assumes "catalog_ok cat" "parse_program cat root text = Inr r"
  shows "built \<lparr>x_syms = [], x_cat = cat, x_partial = r_incomplete r\<rparr> (r_root r) \<and>
    fields_built \<lparr>x_syms = [], x_cat = cat, x_partial = r_incomplete r\<rparr> (r_state r)"
proof -
  have "built c (r_root (empty_program b)) \<and> fields_built c (r_state (empty_program b))" for c b
    by (simp add: empty_program_def)
  then show ?thesis using parse_from[of cat root "text"] assms(2) build_program_typed[OF assms(1)] by (auto simp: from_parser_def)
qed

section \<open>An example\<close>

text \<open>A catalog with one component, and a canonical program.\<close>

definition small_catalog :: catalog where
  "small_catalog = \<lparr>k_comps = [(lit ''Stack'', [\<lparr>p_name = lit ''children'', p_required = True, p_default = JUndef,
     p_schema = JObj [(lit ''type'', JStr (lit ''array''))]\<rparr>])], k_custom = []\<rparr>"

definition is_component :: "node \<Rightarrow> bool" where
  "is_component n \<longleftrightarrow> (case n of Comp _ _ _ \<Rightarrow> True | _ \<Rightarrow> False)"

definition small_tree :: node where
  "small_tree = Comp (lit ''Stack'') [Arr [StateRef (lit ''$x'')]] False"

definition small_element :: rval where
  "small_element = VElem (lit ''Stack'') [(lit ''children'', VArr [VNode (NState (lit ''$x''))])] False True (Some root_name)"

lemma small_printable: "printable small_tree \<and> tree_safe [lit ''Stack''] small_tree \<and> catalog_for [lit ''Stack''] small_catalog"
proof -
  have "component_name (lit ''Stack'')" "state_name (lit ''$x'')"
    by (simp_all add: js_eval component_name_def state_name_def is_upper_def ident_part_def ident_start_def is_lower_def is_builtin_def
        builtin_names_def)
  moreover have "catalog_for [lit ''Stack''] small_catalog"
    by (simp add: catalog_for_def small_catalog_def is_call_def call_of_def builtin_calls_def reserved_def reserved_names_def lit_def)
  ultimately show ?thesis
    by (simp add: small_tree_def printable.simps tree_safe.simps is_ref_def)
qed

lemma small_facts:
  "call_of small_catalog (lit ''Stack'') = None" "\<not> reserved (lit ''Stack'')" "\<not> is_builtin (lit ''Stack'')"
  "k_comps small_catalog = [(lit ''Stack'', [\<lparr>p_name = lit ''children'', p_required = True, p_default = JUndef,
     p_schema = JObj [(lit ''type'', JStr (lit ''array''))]\<rparr>])]"
  "prop_or_undef (JObj [(lit ''type'', JStr (lit ''array''))]) (lit ''items'') = JUndef"
  "prop_or_undef (JObj [(lit ''type'', JStr (lit ''array''))]) (lit ''type'') = JStr (lit ''array'')"
  "\<not> is_union (JObj [(lit ''type'', JStr (lit ''array''))])" "lit ''array'' \<noteq> lit ''object''" "lit ''root'' \<noteq> lit ''$x''"
  by (simp_all add: small_catalog_def call_of_def builtin_calls_def reserved_def reserved_names_def is_builtin_def
      builtin_names_def prop_or_undef_def is_union_def has_key_def lit_def)

lemma small_build:
  "build_program small_catalog root [(root_name, ValueEntry (raw_node (read_tree small_tree)))] False 1 = Inr
    \<lparr>r_root = small_element, r_expr = None, r_incomplete = False, r_unresolved = [], r_orphaned = [], r_count = 1,
     r_issues = [], r_state = [(lit ''$x'', VNull)], r_queries = [], r_mutations = []\<rparr>"
  by (simp add: small_facts build_program_def build_root_def Let_def build_fuel_def find_root_def small_tree_def
      read_tree.simps comp_value_def is_call_def jsm_defs root_name_def element_value_def take_prop_def check_prop_def
      push_issues_def check_value.simps place_scope_def plain_object_def missing_props_def null_prop_def
      with_defaults_def report_root_def root_element_def root_tree_def set_statement_def names_component.simps
      small_element_def undeclared_def state_refs_def keep_first_def query_of_def mutation_of_def eval_nat_numeral)

definition small_text :: jsstr where
  "small_text = lit ''root = Stack([$x])''"

definition small_data :: jsv where
  "small_data = JObj [(lit ''x'', JArr [JNum (Fin False 1 0)])]"

lemma small_view: "preflight_view [lit ''Stack''] (JStr small_text) small_data = Inr small_text"
  by (simp add: js_eval small_text_def small_data_def cong: bindE_stage)

lemma small_rest: "list_all component_name [lit ''Stack'']" "signs_ok small_text" "\<not> has_marker small_text"
  "catalog_for [lit ''Stack''] small_catalog" "catalog_ok small_catalog" "root_text small_tree = small_text"
proof -
  show "list_all component_name [lit ''Stack'']"
    by (simp add: js_eval component_name_def is_upper_def ident_part_def ident_start_def is_lower_def is_builtin_def builtin_names_def)
  show "signs_ok small_text"
    by (simp add: js_eval signs_ok_def small_text_def definitions_of_def finite_signs.simps)
  show "\<not> has_marker small_text" by (simp add: small_text_def marker_def starts_with_def lit_def)
  show "catalog_for [lit ''Stack''] small_catalog" using small_printable by simp
  show "catalog_ok small_catalog" by (simp add: catalog_ok_def small_catalog_def)
  show "root_text small_tree = small_text"
    by (simp add: js_eval root_text_def small_tree_def small_text_def tree_text.simps call_text_def array_text_def comma_join_def)
qed

section \<open>The program of a view\<close>

text \<open>The program of a view that preflight lets through; what follows it is shown of its tree \<open>m\<close>.\<close>

lemma view_program:
  assumes "preflight_view lib (JStr s) data = Inr out" "list_all component_name lib" "signs_ok s" "\<not> has_marker out"
    and "catalog_for lib cat"
  shows "\<exists>m r. admits lib s data m \<and> printable m \<and> parse_program cat root (program_of out) = Inr r \<and> clean_result r \<and>
    (is_component m \<longrightarrow> property_issues (r_issues r))"
proof -
  obtain m where m: "admits lib s data m" "out = root_text m"
    using preflight_view_ok[where lib = lib and source = "JStr s" and data = data] assms(1) by (auto simp: root_text_def)
  have p: "printable m" using admitted_printable[OF m(1) assms(2) admitted_signs[OF m(1) assms(3)]] .
  have "view_admits (view_of lib s data) m" using m(1) by (simp add: admits_iff)
  then have safe: "tree_safe lib m" using view_admits_bounds by (fastforce simp: view_of_def)
  let ?n = "raw_node (read_tree m)"
  obtain r where r: "build_program cat root [(root_name, ValueEntry ?n)] False 1 = Inr r" "clean_result r"
      "\<And>e args n fn. ?n = NComp e args n fn \<Longrightarrow> component_call ?n \<Longrightarrow> property_issues (r_issues r)"
    using canonical_program[OF canonical_settled[OF p safe assms(5)], of root] unfolding property_issues_def by blast
  have "property_issues (r_issues r)" if comp: "is_component m"
  proof -
    obtain e args fn where c: "m = Comp e args fn" using comp by (cases m) (simp_all add: is_component_def)
    then have "component_name e" "e \<in> set lib"
      using p safe printable.simps[of m] tree_safe.simps[of lib m] by (auto split: if_splits)
    then show ?thesis using r(3) c assms(5) read_tree.simps[of m] by (auto simp: component_name_def catalog_for_def)
  qed
  then show ?thesis
    using m p r parse_canonical[OF p safe assms(5), of root] program_of_root[OF p] assms(4) by auto
qed

section \<open>Properties\<close>








end
