(* ===== verification/Renderer_State.thy ===== *)
theory Renderer_State
  imports Lang_Eval Renderer_Properties Artifact_View
begin

text \<open>
  What the components get from the state. The store that the renderer makes of the data gives the
  entries of the data, but an object with a property \<open>value\<close> is replaced by that property.
  Whatever a path reads from there is data, never an element.
\<close>

section \<open>Keys\<close>

text \<open>A path reads from one entry of the state; its keys are literal.\<close>

fun state_path :: "node \<Rightarrow> bool" where
  "state_path (StateRef s) = True"
| "state_path (Member obj f) = state_path obj"
| "state_path (Index obj i) = state_path obj"
| "state_path _ = False"

text \<open>No key is a name that a prototype has.\<close>

fun own_names :: "node \<Rightarrow> bool" where
  "own_names (Member obj f) \<longleftrightarrow> own_names obj \<and> f \<notin> set inherited_names"
| "own_names (Index obj i) \<longleftrightarrow> own_names obj \<and> literal_key i \<notin> set inherited_names"
| "own_names _ \<longleftrightarrow> True"

lemma inherits_names: "k \<in> set (inherits v) \<Longrightarrow> k \<in> set inherited_names"
  by (cases v) (auto simp: inherited_names_def)

lemma names_no_number:
  "list_all (\<lambda>n. \<not> list_all number_unit n \<and> n \<noteq> lit ''NaN'' \<and> n \<noteq> lit ''Infinity'' \<and> n \<noteq> lit ''-Infinity'') inherited_names"
  by (simp add: inherited_names_def object_names_def reserved_names_def array_names_def string_names_def number_names_def
      number_unit_def is_digit_def lit_simps)

lemma number_no_name: "num_str x \<notin> set inherited_names"
  using names_no_number number_units[of x] by (cases x) (auto simp: list_all_iff is_fin_def)

lemma eval_literal_key:
  assumes "is_literal_key i" "literal_key i \<notin> set inherited_names"
  shows "\<exists>w. eval cat get (raw_node (read_tree i)) = Some w \<and>
    (absent w \<or> (\<exists>k. key_text w = Some k \<and> k \<notin> set inherited_names))"
  using assms number_no_name by (cases i) (auto simp: is_literal_key_def literal_key_def read_tree.simps number_node_def)

lemma state_name_dollar: "state_name s \<Longrightarrow> 36 # drop (Suc 0) s = s"
  by (auto simp: state_name_def split: list.splits)

section \<open>The store of the page\<close>

lemma map_of_json: "map_of (map (map_prod id of_json) kvs) k = map_option of_json (map_of kvs k)"
  by (induction kvs) auto

lemma kept_values: "map_of (s_values (foldl take_kept st kept)) x =
    (case map_of (rev kept) x of Some v \<Rightarrow> Some v | None \<Rightarrow> map_of (s_values st) x)"
  by (induction kept arbitrary: st) (auto simp: take_kept_def map_add_def split: option.split)

lemma kept_pristine: "s_pristine st = [] \<Longrightarrow> s_pristine (foldl take_kept st kept) = []"
  by (induction kept arbitrary: st) (auto simp: take_kept_def)

lemma declared_kept:
  "map_of (s_values st) x = Some v \<Longrightarrow> x \<notin> set (s_pristine st) \<Longrightarrow>
    map_of (s_values (foldl take_declared st ds)) x = Some v"
proof (induction ds arbitrary: st)
  case (Cons d ds)
  have "map_of (s_values (take_declared st d)) x = Some v \<and> x \<notin> set (s_pristine (take_declared st d))"
    using Cons.prems by (cases "fst d = x") (simp_all add: take_declared_def)
  then show ?case using Cons.IH[of "take_declared st d"] by simp
qed simp

definition null_or_missing :: "rval option \<Rightarrow> bool" where
  "null_or_missing r \<longleftrightarrow> r = None \<or> r = Some VNull"

lemma declared_null:
  "null_or_missing (map_of (s_values st) x) \<Longrightarrow> list_all (\<lambda>f. snd f = VNull) ds \<Longrightarrow>
    null_or_missing (map_of (s_values (foldl take_declared st ds)) x)"
proof (induction ds arbitrary: st)
  case (Cons d ds)
  have "null_or_missing (map_of (s_values (take_declared st d)) x)"
    using Cons.prems by (cases "fst d = x") (simp_all add: take_declared_def null_or_missing_def)
  then show ?case using Cons.IH[of "take_declared st d"] Cons.prems by simp
qed simp

lemma map_of_rev_same: "distinct (map fst kvs) \<Longrightarrow> map_of (rev kvs) = map_of kvs"
  using map_of_inject_set[of "rev kvs" kvs] by (simp add: rev_map[symmetric])

lemma page_store_entry:
  assumes "distinct (map fst kvs)" "list_all (\<lambda>f. snd f = VNull) declared"
  shows "case map_of kvs x of
      Some j \<Rightarrow> map_of (s_values (page_store declared (JObj kvs))) x = Some (of_json j)
    | None \<Rightarrow> null_or_missing (map_of (s_values (page_store declared (JObj kvs))) x)"
proof -
  let ?kept = "map (map_prod id of_json) kvs"
  have "map fst ?kept = map fst kvs" by (induction kvs) auto
  then have "map_of (rev ?kept) = map_of ?kept" using map_of_rev_same[of ?kept] assms(1) by simp
  then have start: "map_of (s_values (foldl take_kept empty_store ?kept)) x = map_option of_json (map_of kvs x)"
    by (simp add: kept_values empty_store_def map_of_json split: option.split)
  have none: "s_pristine (foldl take_kept empty_store ?kept) = []" by (rule kept_pristine) (simp add: empty_store_def)
  show ?thesis
  proof (cases "map_of kvs x")
    case None
    then show ?thesis using start declared_null[OF _ assms(2)]
      by (simp add: page_store_def initialize_def null_or_missing_def)
  next
    case (Some j)
    then show ?thesis using start none declared_kept by (simp add: page_store_def initialize_def)
  qed
qed

text \<open>What the renderer gets for \<open>$key\<close>, with the initial state that the page makes of the data.\<close>

definition page_state :: "fields \<Rightarrow> jsv \<Rightarrow> jsstr \<Rightarrow> rval" where
  "page_state declared data = get_state (page_store declared (from_entries (map state_entry (entries_of data))))"

lemma put_new: "k \<notin> fst ` set acc \<Longrightarrow> put_prop acc k v = acc @ [(k, v)]"
  by (induction acc) auto

lemma from_distinct_entries:
  assumes "distinct (map fst kvs)"
  shows "from_entries kvs = JObj kvs"
proof -
  have "distinct (map fst (acc @ kvs)) \<Longrightarrow> foldl (\<lambda>acc (k, v). put_prop acc k v) acc kvs = acc @ kvs"
    for acc :: "(jsstr \<times> jsv) list" and kvs
  proof (induction kvs arbitrary: acc)
    case (Cons e kvs)
    then show ?case using Cons.IH[of "acc @ [e]"] by (cases e) (auto simp: put_new)
  qed simp
  from this[of "[]" kvs] assms show ?thesis by (simp add: from_entries_def)
qed

lemma page_state_entry:
  assumes "distinct (map fst kvs)" "list_all (\<lambda>f. snd f = VNull) declared"
  shows "case map_of kvs key of
      Some j \<Rightarrow> page_state declared (JObj kvs) (36 # key) = unwrap (of_json j)
    | None \<Rightarrow> absent (page_state declared (JObj kvs) (36 # key))"
proof -
  have d: "distinct (map fst (map state_entry kvs))"
    using assms(1) unfolding state_keys by (simp add: distinct_map inj_on_def)
  from page_store_entry[OF d assms(2), of "36 # key"] show ?thesis
    unfolding map_of_state
    by (auto simp: page_state_def from_distinct_entries[OF d] get_state_def null_or_missing_def unwrap_def split: option.splits)
qed

section \<open>Reads give data\<close>

text \<open>
  What preflight's check of the data excludes is what the renderer takes for a node, an element, a
  binding or a list of actions; so a read of the data is passed on as it is, at every depth.
\<close>

lemma clean_entry: "clean_data j \<Longrightarrow> is_object j \<Longrightarrow> e \<in> set (entries_of j) \<Longrightarrow> clean_data (snd e)"
  by (simp add: clean_data.simps[of j] list_all_iff)

lemma clean_leaf: "\<not> is_object j \<Longrightarrow> clean_data j"
  using clean_data.simps[of j] by (cases j) simp_all

lemma of_json_leaf: "of_json j = VStr s \<longleftrightarrow> j = JStr s" "VStr s = of_json j \<longleftrightarrow> j = JStr s"
  by (cases j; auto)+

lemma clean_field: "clean_data (JObj kvs) \<Longrightarrow> map_of kvs k = Some j \<Longrightarrow> clean_data j"
  using clean_entry[of "JObj kvs" "(k, j)"] by (auto dest: map_of_SomeD)

lemma clean_item:
  assumes "clean_data (JArr xs)" "i < length xs"
  shows "clean_data (xs ! i)"
proof -
  have "(nat_str i, xs ! i) \<in> set (entries_of (JArr xs))"
    using assms(2) by (auto simp: set_zip intro!: exI[of _ i])
  from clean_entry[OF assms(1) _ this] show ?thesis by simp
qed

lemma clean_own: "clean_data j \<Longrightarrow> clean_data (own j k)"
  by (cases j) (auto simp: own_def clean_leaf clean_field clean_item split: option.splits)

definition read_gives :: "rval option \<Rightarrow> bool" where
  "read_gives r \<longleftrightarrow> (\<exists>j. r = Some (of_json j) \<and> clean_data j)"

lemma gives_data: "clean_data j \<Longrightarrow> read_gives (Some (of_json j))"
  by (auto simp: read_gives_def)

lemma gives_leaf: "read_gives (Some VUndef)" "read_gives (Some VNull)" "read_gives (Some (VNum x))" "read_gives (Some (VStr s))"
  using gives_data[of JUndef] gives_data[of JNull] gives_data[of "JNum x"] gives_data[of "JStr s"] by (simp_all add: clean_leaf)

lemma read_field_data: "clean_data j \<Longrightarrow> k \<notin> set inherited_names \<Longrightarrow> read_gives (read_field (of_json j) k)"
  using inherits_names[of k "of_json j"]
  by (cases j) (auto simp: read_field_def gives_leaf gives_data clean_field clean_item map_of_json split: option.split)

lemma unwrap_data: "clean_data j \<Longrightarrow> read_gives (Some (unwrap (of_json j)))"
  by (cases j) (auto simp: unwrap_def map_of_json gives_leaf gives_data clean_leaf clean_field split: option.split
      intro: gives_data[of "JBool _", simplified] gives_data[of "JArr _", simplified] gives_data[of "JObj _", simplified])

lemma read_index_data:
  assumes "clean_data j" "absent w \<or> (\<exists>k. key_text w = Some k \<and> k \<notin> set inherited_names)"
  shows "read_gives (read_index (of_json j) w)"
proof (cases "absent (of_json j) \<or> absent w")
  case False
  then show ?thesis using assms read_field_data[OF assms(1)] number_no_name by (cases j) (auto simp: read_index_def)
qed (simp add: read_index_def gives_leaf)

lemma state_reads_data:
  assumes "distinct (map fst kvs)" "list_all (\<lambda>f. snd f = VNull) declared" "clean_data (JObj kvs)"
  shows "state_path n \<Longrightarrow> own_names n \<Longrightarrow> printable n \<Longrightarrow> read_gives (eval cat (page_state declared (JObj kvs)) (raw_node (read_tree n)))"
proof (induction n rule: state_path.induct)
  case (1 s)
  have s: "36 # drop (Suc 0) s = s" using "1.prems"(3) by (simp add: printable.simps[of "StateRef s"] state_name_dollar)
  note entry = page_state_entry[OF assms(1,2), of "drop (Suc 0) s", unfolded s]
  show ?case
  proof (cases "map_of kvs (drop (Suc 0) s)")
    case None
    then have "absent (page_state declared (JObj kvs) s)" using entry by simp
    then show ?thesis
      by (cases "page_state declared (JObj kvs) s") (simp_all add: read_tree.simps[of "StateRef s"] gives_leaf)
  next
    case (Some j)
    then show ?thesis
      using entry unwrap_data[OF clean_field[OF assms(3) Some]] by (simp add: read_tree.simps[of "StateRef s"])
  qed
next
  case (2 obj f)
  have "printable obj" using "2.prems"(3) by (simp add: printable.simps[of "Member obj f"])
  then obtain j where j: "eval cat (page_state declared (JObj kvs)) (raw_node (read_tree obj)) = Some (of_json j)" "clean_data j"
    using "2.IH" "2.prems" by (auto simp: read_gives_def)
  then show ?case
    using read_index_data[OF j(2), of "VStr f"] "2.prems"(2) by (simp add: read_tree.simps[of "Member obj f"])
next
  case (3 obj i)
  have p: "printable obj" "is_literal_key i" using "3.prems"(3) by (simp_all add: printable.simps[of "Index obj i"])
  then obtain j where j: "eval cat (page_state declared (JObj kvs)) (raw_node (read_tree obj)) = Some (of_json j)" "clean_data j"
    using "3.IH" "3.prems" by (auto simp: read_gives_def)
  obtain w where w: "eval cat (page_state declared (JObj kvs)) (raw_node (read_tree i)) = Some w" 
    "absent w \<or> (\<exists>k. key_text w = Some k \<and> k \<notin> set inherited_names)"
    using eval_literal_key[OF p(2)] "3.prems"(2) own_names.simps(2) by blast
  show ?case using j(1) w(1) read_index_data[OF j(2) w(2)] by (simp add: read_tree.simps[of "Index obj i"])
qed simp_all

text \<open>Clean data is no element and holds none.\<close>

lemma clean_no_element: "clean_data j \<Longrightarrow> \<not> renders_element (of_json j) \<and> \<not> is_element (of_json j)"
  using clean_data.simps[of j]
  by (cases j) (simp_all add: renders_element_def element_object_def control_object.simps(1) map_of_json of_json_leaf)

lemma clean_evaluated:
  assumes "clean_data j"
  shows "evaluated (of_json j) = Some (of_json j)"
proof (cases j)
  case (JArr xs)
  have "\<not> is_element (of_json x)" if "x \<in> set xs" for x
    using clean_item[of xs] clean_no_element that assms JArr by (metis in_set_conv_nth)
  then show ?thesis using JArr by (auto simp: evaluated_def list_ex_iff)
next
  case (JObj kvs)
  then have c: "\<not> control_object (JObj kvs)" using assms clean_data.simps[of j] by simp
  have "\<not> element_object (map (map_prod id of_json) kvs)" using clean_no_element[OF assms] JObj by simp
  moreover have "map_of (map (map_prod id of_json) kvs) (lit ''__reactive'') \<noteq> Some (VStr (lit ''assign''))"
    using c by (auto simp: control_object.simps(1) map_of_json of_json_leaf lit_def)
  moreover have "\<not> (case map_of (map (map_prod id of_json) kvs) (lit ''steps'') of Some x \<Rightarrow> is_list x | None \<Rightarrow> False)"
    using c by (auto simp: control_object.simps(1) map_of_json elim!: is_list.elims of_json.elims split: option.splits)
  ultimately show ?thesis using JObj by (simp add: evaluated_def)
qed (simp_all add: evaluated_def)

lemma settled_read:
  "read_gives (eval cat get n) \<Longrightarrow> \<exists>j. settle_value cat get (VNode n) = Some (of_json j) \<and> clean_data j"
  by (auto simp: read_gives_def clean_evaluated)

lemma part_printable: "printable m \<Longrightarrow> sub_node m p = Some n \<Longrightarrow> printable n"
proof (induction p arbitrary: m)
  case (Cons i p)
  have "list_all printable (kids m)" using Cons.prems(1) by (simp add: printable.simps[of m])
  then show ?case using Cons by (auto simp: list_all_length split: if_splits)
qed simp

section \<open>Properties\<close>

lemma admitted_data: "admits lib s data m \<Longrightarrow> clean_data data"
  by (simp add: admits_def document_ok_def)



end
