(* ===== verification/Renderer_Values.thy ===== *)
theory Renderer_Values
  imports Renderer_State
begin

text \<open>
  The renderer computes what preflight computed. \<open>preflightView\<close> evaluates every expression of a
  view to bound what is rendered; the renderer evaluates what it read back, at once for literals
  (\<open>Rf\<close>) and later for reads of the state (\<open>qt\<close>). Here both give the same value, for every
  expression without components that reads arrays by index only and no entry of the data that is
  an object with a property \<open>value\<close>; the last section shows what happens elsewhere.
\<close>

section \<open>The same value\<close>

text \<open>
  A Number of a view comes back as it is printed, and as null when it is not finite; a property
  that is missing is null for preflight and undefined for the renderer.
\<close>

inductive sees :: "rval \<Rightarrow> jsv \<Rightarrow> bool" where
  sees_absent: "absent v \<Longrightarrow> nullish j \<Longrightarrow> sees v j"
| sees_str: "sees (VStr s) (JStr s)"
| sees_bool: "sees (VBool b) (JBool b)"
| sees_num: "sees (VNum x) (JNum x)"
| sees_read_back: "is_fin x \<Longrightarrow> sees (VNum (read_back x)) (JNum x)"
| sees_infinite: "\<not> is_fin x \<Longrightarrow> sees VNull (JNum x)"
| sees_arr: "list_all2 sees vs js \<Longrightarrow> sees (VArr vs) (JArr js)"
| sees_obj: "list_all2 (\<lambda>f g. fst f = fst g \<and> sees (snd f) (snd g)) kvs ks \<Longrightarrow> sees (VObj kvs) (JObj ks)"

inductive_simps sees_to:
  "sees v JUndef" "sees v JNull" "sees v (JBool b)" "sees v (JNum x)" "sees v (JStr s)" "sees v (JArr js)" "sees v (JObj ks)"

abbreviation fields_like :: "('v \<Rightarrow> jsv \<Rightarrow> bool) \<Rightarrow> (jsstr \<times> 'v) list \<Rightarrow> (jsstr \<times> jsv) list \<Rightarrow> bool" where
  "fields_like R \<equiv> list_all2 (\<lambda>f g. fst f = fst g \<and> R (snd f) (snd g))"

abbreviation sees_fields :: "fields \<Rightarrow> (jsstr \<times> jsv) list \<Rightarrow> bool" where
  "sees_fields \<equiv> fields_like sees"

lemma sees_of_json: "sees (of_json j) j"
proof (induction j)
  case (JArr js)
  then show ?case by (auto simp: list_all2_map1 list.rel_refl_strong intro!: sees_arr)
next
  case (JObj ks)
  then have "sees_fields (map (map_prod id of_json) ks) ks"
    by (auto simp: list_all2_map1 list_all2_same)
  then show ?case by (simp add: sees_obj)
qed (auto intro: sees.intros)

lemma like_put: "fields_like R kvs ks \<Longrightarrow> R v j \<Longrightarrow> fields_like R (put_field kvs k v) (put_prop ks k j)"
  by (induction rule: list_all2_induct) auto

lemma like_put_all:
  assumes "fields_like R kvs ks" "from_entries ks = JObj js"
  shows "fields_like R (put_all kvs) js"
proof -
  have "fields_like R kvs ks \<Longrightarrow> fields_like R acc acc' \<Longrightarrow>
      fields_like R (foldl (\<lambda>acc e. put_field acc (fst e) (snd e)) acc kvs) (foldl (\<lambda>acc (k, v). put_prop acc k v) acc' ks)"
    for acc acc' kvs ks
    by (induction kvs arbitrary: ks acc acc') (auto simp: list_all2_Cons1 like_put)
  from this[OF assms(1), of "[]" "[]"] show ?thesis using assms(2) by (simp add: put_all_def from_entries_def)
qed

lemma sees_put_all: "sees_fields kvs ks \<Longrightarrow> sees (VObj (put_all kvs)) (from_entries ks)"
  using like_put_all[of sees kvs ks] by (simp add: from_entries_def sees_obj)

lemma like_field: "fields_like R kvs ks \<Longrightarrow> rel_option R (map_of kvs k) (map_of ks k)"
  by (induction rule: list_all2_induct) auto

section \<open>Reads\<close>

definition numeric_key :: "node \<Rightarrow> bool" where
  "numeric_key i \<longleftrightarrow> (case i of Str k \<Rightarrow> num_str (to_num (VStr k)) = k | _ \<Rightarrow> True)"

text \<open>
  A key that both read alike: a Number prints as it is read back, an array is read by the text of
  a Number, and a name that only a prototype has is not read.
\<close>

definition plain_key :: "jsv \<Rightarrow> node \<Rightarrow> bool" where
  "plain_key j i \<longleftrightarrow> is_literal_key i \<and> (case i of Num x \<Rightarrow> is_fin x \<and> num_str (read_back x) = num_str x | _ \<Rightarrow> True) \<and>
     (is_array j \<longrightarrow> numeric_key i) \<and> literal_key i \<notin> set inherited_names"

lemma eval_key: "plain_key j i \<Longrightarrow>
    \<exists>w. eval cat get (raw_node (read_tree i)) = Some w \<and> \<not> absent w \<and> key_text w = Some (literal_key i) \<and>
      (is_array j \<longrightarrow> num_str (to_num w) = literal_key i)"
  by (cases i) (auto simp: plain_key_def is_literal_key_def numeric_key_def read_tree.simps number_node_def literal_key_def)

lemma sees_read_field:
  assumes "sees v j" "\<not> absent v" "k \<notin> set inherited_names"
  shows "\<exists>u. read_field v k = Some u \<and> sees u (own j k)"
proof -
  have name: "k \<notin> set (inherits v)" using inherits_names assms(3) by blast
  show ?thesis
  proof (cases j)
    case (JArr js)
    then obtain vs where vs: "v = VArr vs" "list_all2 sees vs js" using assms(1,2) by (auto simp: sees_to)
    then show ?thesis
      using name JArr by (auto simp: read_field_def own_def list_all2_lengthD list_all2_nthD sees_to split: option.splits)
  next
    case (JObj ks)
    then obtain kvs where kvs: "v = VObj kvs" "sees_fields kvs ks" using assms(1,2) by (auto simp: sees_to)
    then show ?thesis using name JObj like_field[OF kvs(2), of k]
      by (auto simp: read_field_def own_def option_rel_Some1 sees_to split: option.splits)
  qed (use assms name in \<open>auto simp: read_field_def own_def sees_to split: option.splits\<close>)
qed

lemma sees_absent_own: "sees v j \<Longrightarrow> absent v \<Longrightarrow> sees VNull (own j k)"
  by (cases j) (auto simp: own_def sees_to)

lemma sees_read_index:
  assumes "sees v j" "\<not> absent w" "key_text w = Some k" "is_array j \<Longrightarrow> num_str (to_num w) = k" "k \<notin> set inherited_names"
  shows "\<exists>u. read_index v w = Some u \<and> sees u (own j k)"
proof (cases "absent v")
  case True
  then show ?thesis using assms(1) by (simp add: read_index_def sees_absent_own)
next
  case False
  have "read_index v w = read_field v k"
    using assms(1-4) False by (cases j) (auto simp: read_index_def sees_to)
  then show ?thesis using sees_read_field[OF assms(1) False assms(5)] by simp
qed

section \<open>Expressions\<close>

text \<open>\<open>plain_value\<close> is what \<open>value\<close> computes for an expression without components.\<close>

fun component_free :: "node \<Rightarrow> bool" where
  "component_free (Comp e args fn) = False"
| "component_free (Ref x) = False"
| "component_free (Arr els) = list_all component_free els"
| "component_free (Obj es) = list_all (\<lambda>e. component_free (snd e)) es"
| "component_free (Member obj f) = component_free obj"
| "component_free (Index obj i) = component_free obj"
| "component_free _ = True"

fun plain_value :: "jsv \<Rightarrow> node \<Rightarrow> jsv" where
  "plain_value data (StateRef s) = own data (drop 1 s)"
| "plain_value data (Member obj f) = own (plain_value data obj) f"
| "plain_value data (Index obj i) = own (plain_value data obj) (literal_key i)"
| "plain_value data (Arr els) = JArr (map (plain_value data) els)"
| "plain_value data (Obj es) = from_entries (map (\<lambda>e. (fst e, plain_value data (snd e))) es)"
| "plain_value data (UnaryOp op operand) = negated operand"
| "plain_value data Null = JNull"
| "plain_value data (Str s) = JStr s"
| "plain_value data (Num x) = JNum x"
| "plain_value data (Bool b) = JBool b"
| "plain_value data _ = JUndef"

fun plain_reads :: "jsv \<Rightarrow> node \<Rightarrow> bool" where
  "plain_reads data (StateRef s) \<longleftrightarrow>
     (case own data (drop 1 s) of JObj kvs \<Rightarrow> map_of kvs (lit ''value'') = None | _ \<Rightarrow> True)"
| "plain_reads data (Member obj f) \<longleftrightarrow> plain_reads data obj \<and> plain_key (plain_value data obj) (Str f)"
| "plain_reads data (Index obj i) \<longleftrightarrow> plain_reads data obj \<and> plain_key (plain_value data obj) i"
| "plain_reads data (Arr els) \<longleftrightarrow> list_all (plain_reads data) els"
| "plain_reads data (Obj es) \<longleftrightarrow> list_all (\<lambda>e. plain_reads data (snd e)) es"
| "plain_reads data _ \<longleftrightarrow> True"

lemma plain_list: "list_all2 (\<lambda>n v. v = f n) ns vs \<Longrightarrow> vs = map f ns"
  by (induction rule: list_all2_induct) auto

lemma plain_value_correct: "evals E n v \<Longrightarrow> component_free n \<Longrightarrow> v = plain_value (v_data E) n"
proof (induction rule: evals.induct)
  case (evals_arr els vs)
  then have "list_all2 (\<lambda>n v. v = plain_value (v_data E) n) els vs"
    by (auto simp: list_all2_conv_all_nth list_all_length)
  then show ?case by (simp add: plain_list)
next
  case (evals_obj entries vs)
  then have "list_all2 (\<lambda>n v. v = plain_value (v_data E) n) (map snd entries) vs"
    by (auto simp: list_all2_conv_all_nth list_all_length)
  from plain_list[OF this] show ?case by (simp add: zip_map_map o_def zip_same_conv_map case_prod_beta)
qed (auto elim: valueless.elims)

lemma unwrap_plain: "case j of JObj kvs \<Rightarrow> map_of kvs (lit ''value'') = None | _ \<Rightarrow> True \<Longrightarrow> unwrap (of_json j) = of_json j"
  by (cases j) (auto simp: unwrap_def map_of_json)

lemma those_all2:
  assumes "\<And>n. n \<in> set ns \<Longrightarrow> \<exists>v. f n = Some v \<and> R v (g n)"
  shows "\<exists>vs. those (map f ns) = Some vs \<and> list_all2 R vs (map g ns)"
  using assms
proof (induction ns)
  case (Cons n ns)
  then obtain v vs where "f n = Some v" "R v (g n)" "those (map f ns) = Some vs" "list_all2 R vs (map g ns)"
    by (meson list.set_intros)
  then show ?case by simp
qed simp

lemma those_fields_all2:
  assumes "\<And>e. e \<in> set es \<Longrightarrow> \<exists>v. f (snd e) = Some v \<and> R v (g (snd e))"
  shows "\<exists>kvs. those_fields (map (\<lambda>e. (fst e, f (snd e))) es) = Some kvs \<and>
    list_all2 (\<lambda>a b. fst a = fst b \<and> R (snd a) (snd b)) kvs (map (\<lambda>e. (fst e, g (snd e))) es)"
  using assms
proof (induction es)
  case (Cons e es)
  then obtain v kvs where "f (snd e) = Some v" "R v (g (snd e))" "those_fields (map (\<lambda>e. (fst e, f (snd e))) es) = Some kvs"
    "list_all2 (\<lambda>a b. fst a = fst b \<and> R (snd a) (snd b)) kvs (map (\<lambda>e. (fst e, g (snd e))) es)"
    by (meson list.set_intros)
  then show ?case by simp
qed simp

lemma sees_number: "sees (if is_fin x then VNum (read_back x) else VNull) (JNum x)"
  by (simp add: sees_to)

lemma raw_entries: "map (map_prod id raw_node) (map (\<lambda>e. (fst e, read_tree (snd e))) es) =
    map (\<lambda>e. (fst e, raw_node (read_tree (snd e)))) es"
  by simp

text \<open>The evaluator of the renderer, on the tree that is read back.\<close>

lemma eval_sees:
  assumes "distinct (map fst kvs)" "list_all (\<lambda>f. snd f = VNull) declared"
  shows "component_free n \<Longrightarrow> printable n \<Longrightarrow> plain_reads (JObj kvs) n \<Longrightarrow>
    \<exists>v. eval cat (page_state declared (JObj kvs)) (raw_node (read_tree n)) = Some v \<and> sees v (plain_value (JObj kvs) n)"
proof (induction n rule: printable.induct)
  case (1 n)
  let ?get = "page_state declared (JObj kvs)"
  note r = read_tree.simps[of n] and p = printable.simps[of n]
  have kids: "list_all printable (kids n)" using "1.prems"(2) p by simp
  have IH: "\<exists>v. eval cat ?get (raw_node (read_tree a)) = Some v \<and> sees v (plain_value (JObj kvs) a)"
    if "a \<in> set (kids n)" "component_free a" "plain_reads (JObj kvs) a" for a
    using "1.IH" kids that by (simp add: list_all_iff)
  show ?case
  proof (cases n)
    case (StateRef s)
    have s: "36 # drop (Suc 0) s = s" using "1.prems"(2) p StateRef by (simp add: state_name_dollar)
    note entry = page_state_entry[OF assms, of "drop (Suc 0) s", unfolded s]
    show ?thesis
    proof (cases "map_of kvs (drop (Suc 0) s)")
      case None
      then show ?thesis using entry r StateRef by (simp add: own_def sees_to)
    next
      case (Some j)
      then have "own (JObj kvs) (drop (Suc 0) s) = j" by (simp add: own_def)
      then show ?thesis using Some entry "1.prems"(3) unwrap_plain[of j] sees_of_json r StateRef by simp
    qed
  next
    case (Member obj f)
    then obtain v where v: "eval cat ?get (raw_node (read_tree obj)) = Some v" "sees v (plain_value (JObj kvs) obj)"
      using IH[of obj] "1.prems" by auto
    have "plain_key (plain_value (JObj kvs) obj) (Str f)" using "1.prems"(3) Member by simp
    then have "\<exists>u. read_index v (VStr f) = Some u \<and> sees u (own (plain_value (JObj kvs) obj) f)"
      by (intro sees_read_index[OF v(2)]) (auto simp: plain_key_def numeric_key_def literal_key_def)
    then show ?thesis using v(1) r Member by simp
  next
    case (Index obj i)
    then obtain v where v: "eval cat ?get (raw_node (read_tree obj)) = Some v" "sees v (plain_value (JObj kvs) obj)"
      using IH[of obj] "1.prems" by auto
    have k: "plain_key (plain_value (JObj kvs) obj) i" using "1.prems"(3) Index by simp
    obtain w where w: "eval cat ?get (raw_node (read_tree i)) = Some w" "\<not> absent w" "key_text w = Some (literal_key i)"
      "is_array (plain_value (JObj kvs) obj) \<Longrightarrow> num_str (to_num w) = literal_key i"
      using eval_key[OF k] by blast
    have "\<exists>u. read_index v w = Some u \<and> sees u (own (plain_value (JObj kvs) obj) (literal_key i))"
      by (rule sees_read_index[OF v(2) w(2,3,4)]) (use k in \<open>auto simp: plain_key_def\<close>)
    then show ?thesis using v(1) w(1) r Index by simp
  next
    case (Arr els)
    have "\<exists>vs. those (map (\<lambda>a. eval cat ?get (raw_node (read_tree a))) els) = Some vs \<and>
        list_all2 sees vs (map (plain_value (JObj kvs)) els)"
      by (rule those_all2) (use IH "1.prems" Arr in \<open>auto simp: list_all_iff\<close>)
    then show ?thesis using r Arr by (auto simp: o_def sees_to)
  next
    case (Obj es)
    have "\<exists>ks. those_fields (map (\<lambda>e. (fst e, eval cat ?get (raw_node (read_tree (snd e))))) es) = Some ks \<and>
        sees_fields ks (map (\<lambda>e. (fst e, plain_value (JObj kvs) (snd e))) es)"
      by (rule those_fields_all2) (use IH "1.prems" Obj in \<open>auto simp: list_all_iff\<close>)
    then show ?thesis using r Obj sees_put_all by (fastforce simp: o_def)
  next
    case (UnaryOp op operand)
    then show ?thesis using r by (auto simp: negated_def sees_to)
  next
    case (Num x)
    then show ?thesis using r by (auto simp: sees_to)
  qed (use "1.prems" p r in \<open>auto simp: sees_to\<close>)
qed

end
