(* ===== verification/Renderer_Agreement.thy ===== *)
theory Renderer_Agreement
  imports Renderer_Values
begin

text \<open>
  From the value of an expression to what a component gets. The builder turns an expression of a
  canonical program without components into a value that still holds its reads of the state
  (\<open>static\<close>); settling it gives the value that preflight computed. The last section shows where
  the two differ.
\<close>

section \<open>Building\<close>

text \<open>Trees without components and names; the resolver leaves them as they are.\<close>

function calm :: "rnode \<Rightarrow> bool" where
  "calm n \<longleftrightarrow>
     (case n of
        NArr els \<Rightarrow> \<forall>a \<in> set els. calm a
      | NObj es \<Rightarrow> \<forall>f \<in> set es. calm (snd f)
      | NIndex a b \<Rightarrow> calm a \<and> calm b
      | NState _ \<Rightarrow> True | NStr _ \<Rightarrow> True | NNum _ \<Rightarrow> True | NBool _ \<Rightarrow> True | NNull \<Rightarrow> True | _ \<Rightarrow> False)"
  by pat_completeness auto
termination
  by (relation "measure size") (use size_arg in force)+

declare calm.simps [simp del]

lemma calm_simps [simp]:
  "\<not> calm (NComp e args m fn)" "\<not> calm (NRef x)" "\<not> calm (NPh x)" "calm (NStr s)"
  by (simp_all add: calm.simps)

fun static :: "rnode \<Rightarrow> rval" where
  "static (NStr s) = VStr s"
| "static (NNum x) = VNum x"
| "static (NBool b) = VBool b"
| "static NNull = VNull"
| "static (NArr els) = VArr (map static els)"
| "static (NObj es) = VObj (put_all (map (map_prod id static) es))"
| "static n = VNode n"

lemma calm_raw: "component_free n \<Longrightarrow> printable n \<Longrightarrow> calm (raw_node (read_tree n))"
proof (induction n rule: printable.induct)
  case (1 n)
  note r = read_tree.simps[of n] and p = printable.simps[of n] and c = calm.simps[of "raw_node (read_tree n)"]
  have kids: "list_all printable (kids n)" using "1.prems"(2) p by simp
  have IH: "calm (raw_node (read_tree a))" if "a \<in> set (kids n)" "component_free a" for a
    using "1.IH" kids that by (simp add: list_all_iff)
  have key: "calm (raw_node (read_tree i))" if "is_literal_key i" for i
    using that by (cases i) (simp_all add: is_literal_key_def read_tree.simps calm.simps)
  show ?case
  proof (cases n)
    case (Index obj i)
    then show ?thesis using IH[of obj] key[of i] "1.prems" p r c by simp
  next
    case (Member obj f)
    then show ?thesis using IH[of obj] key[of "Str f"] "1.prems" r c by simp
  qed (use "1.prems" IH p r c in \<open>auto simp: list_all_iff\<close>)
qed

lemma traverse_same: "(\<And>x. x \<in> set xs \<Longrightarrow> f x s = (Inr (g x), s)) \<Longrightarrow> traverse f xs s = (Inr (map g xs), s)"
  by (induction xs) (simp_all add: jsm_defs)

lemma traverse_fields_same:
  assumes "\<And>e. e \<in> set es \<Longrightarrow> f (snd e) s = (Inr (g (snd e)), s)"
  shows "traverse_fields f es s = (Inr (map (map_prod id g) es), s)"
proof -
  have "traverse f (map snd es) s = (Inr (map g (map snd es)), s)" by (rule traverse_same) (use assms in auto)
  moreover have "zip (map fst es) (map g (map snd es)) = map (map_prod id g) es" by (induction es) auto
  ultimately show ?thesis by (simp add: traverse_fields_def jsm_defs)
qed

lemma array_values_same:
  "(\<And>x. x \<in> set xs \<Longrightarrow> calm x \<and> f x s = (Inr (g x), s)) \<Longrightarrow> array_values f xs s = (Inr (map g xs), s)"
proof (induction xs)
  case (Cons x xs)
  then have "array_values f xs s = (Inr (map g xs), s)" "f x s = (Inr (g x), s)" "calm x" by simp_all
  then show ?case by (cases x) (simp_all add: jsm_defs)
qed (simp add: jsm_defs)

lemma resolve_calm: "calm n \<Longrightarrow> size n < k \<Longrightarrow> resolve k c pl bound n s = (Inr n, s)"
proof (induction k arbitrary: n)
  case (Suc k)
  note c = calm.simps[of n]
  show ?case
  proof (cases n)
    case (NArr els)
    have "traverse (resolve k c pl bound) els s = (Inr (map (\<lambda>a. a) els), s)"
      by (rule traverse_same) (use Suc c NArr size_arg in \<open>fastforce intro!: Suc.IH\<close>)
    then show ?thesis using NArr by (simp add: jsm_defs)
  next
    case (NObj es)
    have "traverse_fields (resolve k c pl bound) es s = (Inr (map (map_prod id (\<lambda>a. a)) es), s)"
      by (rule traverse_fields_same) (use Suc c NObj size_arg in \<open>fastforce intro!: Suc.IH\<close>)
    then show ?thesis using NObj by (simp add: jsm_defs prod.map_id0 flip: id_def)
  next
    case (NIndex a b)
    then show ?thesis using Suc.IH[of a] Suc.IH[of b] Suc.prems c by (simp add: jsm_defs)
  qed (use Suc.prems c in \<open>simp_all add: jsm_defs\<close>)
qed simp

lemma valuate_static: "calm n \<Longrightarrow> size n < k \<Longrightarrow> valuate (Suc k) c pl n s = (Inr (static n), s)"
proof (induction k arbitrary: n)
  case (Suc k)
  note c = calm.simps[of n]
  have res: "resolve (Suc k) c pl [] n s = (Inr n, s)" by (rule resolve_calm[OF Suc.prems])
  show ?case
  proof (cases n)
    case (NArr els)
    have "array_values (valuate (Suc k) c pl) els s = (Inr (map static els), s)"
      by (rule array_values_same) (use Suc c NArr size_arg in \<open>fastforce intro!: Suc.IH\<close>)
    then show ?thesis using NArr by (simp add: jsm_defs del: valuate.simps(2)) (simp add: jsm_defs)
  next
    case (NObj es)
    have "traverse_fields (valuate (Suc k) c pl) es s = (Inr (map (map_prod id static) es), s)"
      by (rule traverse_fields_same) (use Suc c NObj size_arg in \<open>fastforce intro!: Suc.IH\<close>)
    then show ?thesis using NObj by (simp add: jsm_defs)
  qed (use res c Suc.prems(1) in \<open>simp_all add: jsm_defs del: resolve.simps\<close>)
qed simp

section \<open>Preflight's values are clean\<close>

lemma safe_index: "\<not> unsafe_key (nat_str i)"
  using nat_str_digits[of i] by (auto simp: unsafe_key_def lit_def is_digit_def)

lemma clean_array: "list_all clean_data js \<Longrightarrow> clean_data (JArr js)"
  unfolding clean_data.simps[of "JArr js"] by (auto simp: list_all_iff safe_index dest!: set_zip_leftD set_zip_rightD elim!: in_set_zipE)

lemma put_prop_entries: "set (put_prop ks k v) \<subseteq> insert (k, v) (set ks)"
  by (induction ks k v rule: put_prop.induct) auto

lemma from_entries_entries: "from_entries kvs = JObj ks \<Longrightarrow> set ks \<subseteq> set kvs"
proof -
  have "set (foldl (\<lambda>acc (k, v). put_prop acc k v) acc kvs) \<subseteq> set acc \<union> set kvs" for acc
  proof (induction kvs arbitrary: acc)
    case (Cons e kvs)
    show ?case using Cons[of "put_prop acc (fst e) (snd e)"] put_prop_entries[of acc "fst e" "snd e"]
      by (cases e) auto
  qed simp
  from this[of "[]"] show "from_entries kvs = JObj ks \<Longrightarrow> ?thesis" by (simp add: from_entries_def)
qed

lemma clean_entries:
  assumes "\<not> control_object (from_entries kvs)" "list_all (\<lambda>e. \<not> unsafe_key (fst e) \<and> clean_data (snd e)) kvs"
  shows "clean_data (from_entries kvs)"
proof -
  obtain ks where ks: "from_entries kvs = JObj ks" by (simp add: from_entries_def)
  then show ?thesis
    using assms from_entries_entries[OF ks] by (auto simp: clean_data.simps[of "JObj ks"] list_all_iff)
qed

lemma evals_clean:
  assumes "clean_data (v_data E)"
  shows "evals E n j \<Longrightarrow> component_free n \<Longrightarrow> tree_safe lib n \<Longrightarrow> clean_data j"
proof (induction rule: evals.induct)
  case (evals_member obj v field)
  then show ?case by (simp add: tree_safe.simps[of lib "Member obj field"] clean_own)
next
  case (evals_index obj v index)
  then show ?case by (simp add: tree_safe.simps[of lib "Index obj index"] clean_own)
next
  case (evals_arr els vs)
  then have "list_all clean_data vs"
    by (auto simp: tree_safe.simps[of lib "Arr els"] list_all2_conv_all_nth list_all_length)
  then show ?case by (rule clean_array)
next
  case (evals_obj entries vs)
  have safe: "\<forall>e \<in> set entries. \<not> unsafe_key (fst e)" "list_all (tree_safe lib) (map snd entries)"
    using evals_obj.prems(2) by (auto simp: tree_safe.simps[of lib "Obj entries"] list_ex_iff split: if_splits)
  have "clean_data (vs ! i)" if "i < length vs" for i
    using evals_obj.IH evals_obj.prems(1) safe(2) that by (auto simp: list_all2_conv_all_nth list_all_length)
  then have "list_all (\<lambda>e. \<not> unsafe_key (fst e) \<and> clean_data (snd e)) (zip (map fst entries) vs)"
    using safe(1) by (auto simp: list_all_length)
  then show ?case using evals_obj.hyps(1) evals_obj by (intro clean_entries) auto
qed (use assms in \<open>auto simp: clean_own clean_leaf negated_def tree_safe.simps\<close>)

section \<open>Settling\<close>

lemma sees_string: "sees (VStr s) j \<Longrightarrow> j = JStr s"
  by (cases j) (auto simp: sees_to)

lemma sees_list: "sees (VArr vs) j \<Longrightarrow> is_array j"
  by (cases j) (auto simp: sees_to)

text \<open>A property of an object that the renderer could take for control is one for preflight.\<close>

lemma calm_object:
  assumes same: "\<And>k. rel_option R (map_of kvs k) (map_of ks k)" and "\<not> control_object (JObj ks)"
    and str: "\<And>s j. R (VStr s) j \<Longrightarrow> j = JStr s" and list: "\<And>vs j. R (VArr vs) j \<Longrightarrow> is_array j"
  shows "\<not> kind_of kvs \<and> map_of kvs (lit ''type'') \<noteq> Some (VStr (lit ''element'')) \<and>
    map_of kvs (lit ''__reactive'') \<noteq> Some (VStr (lit ''assign'')) \<and>
    \<not> (case map_of kvs (lit ''steps'') of Some x \<Rightarrow> is_list x | None \<Rightarrow> False)"
proof -
  have s: "map_of ks k = Some (JStr s)" if "map_of kvs k = Some (VStr s)" for k s
    using same[of k] that str by (auto simp: option_rel_Some1)
  have "set node_kinds = set ast_kinds" by (auto simp: node_kinds_def ast_kinds_def)
  then have "\<not> kind_of kvs"
    using assms(2) s by (auto simp: kind_of_def control_object.simps(1) split: option.splits rval.splits)
  moreover have "map_of kvs (lit ''type'') \<noteq> Some (VStr (lit ''element''))"
    using assms(2) s by (auto simp: control_object.simps(1))
  moreover have "map_of kvs (lit ''__reactive'') \<noteq> Some (VStr (lit ''assign''))"
    using assms(2) s[of "lit ''__reactive''" "lit ''assign''"] by (auto simp: control_object.simps(1) lit_def)
  moreover have "\<not> (case map_of kvs (lit ''steps'') of Some x \<Rightarrow> is_list x | None \<Rightarrow> False)"
    using assms(2) same[of "lit ''steps''"] list
    by (auto simp: control_object.simps(1) option_rel_Some1 elim!: is_list.elims split: option.splits)
  ultimately show ?thesis by blast
qed

lemma sees_no_element:
  assumes "sees v j" "clean_data j"
  shows "\<not> is_element v \<and> \<not> renders_element v"
proof (cases v)
  case (VObj kvs)
  then obtain ks where ks: "j = JObj ks" "sees_fields kvs ks" using assms(1) by (auto elim: sees.cases)
  then have "\<not> control_object (JObj ks)" using assms(2) clean_data.simps[of j] by simp
  from calm_object[of sees, OF like_field[OF ks(2)] this sees_string sees_list]
  show ?thesis using VObj by (simp add: element_object_def renders_element_def)
next
  case (VElem e ps p d st)
  then show ?thesis using assms(1) by (auto elim: sees.cases)
qed (simp_all add: renders_element_def)

lemma sees_evaluated:
  assumes "sees v j" "clean_data j"
  shows "evaluated v = Some v"
proof (cases v)
  case (VObj kvs)
  then obtain ks where ks: "j = JObj ks" "sees_fields kvs ks" using assms(1) by (auto elim: sees.cases)
  then have "\<not> control_object (JObj ks)" using assms(2) clean_data.simps[of j] by simp
  from calm_object[of sees, OF like_field[OF ks(2)] this sees_string sees_list]
  show ?thesis using VObj by (auto simp: evaluated_def element_object_def)
next
  case (VArr vs)
  then obtain js where js: "j = JArr js" "list_all2 sees vs js" using assms(1) by (auto elim: sees.cases)
  have "\<not> is_element (vs ! i)" if "i < length vs" for i
    using sees_no_element[of "vs ! i" "js ! i"] js that clean_item[of js] assms(2)
    by (auto simp: list_all2_conv_all_nth)
  then show ?thesis using VArr by (auto simp: evaluated_def list_ex_length)
next
  case (VElem e ps p d st)
  then show ?thesis using assms(1) by (auto elim: sees.cases)
qed (simp_all add: evaluated_def)

definition settles :: "catalog \<Rightarrow> (jsstr \<Rightarrow> rval) \<Rightarrow> rval \<Rightarrow> jsv \<Rightarrow> bool" where
  "settles cat get v j \<longleftrightarrow> (\<exists>w. settle_value cat get v = Some w \<and> sees w j)"

lemma settles_leaf: "\<not> object_like v \<Longrightarrow> settles cat get v j \<longleftrightarrow> sees v j"
  by (cases v) (simp_all add: settles_def)

lemma settles_node:
  assumes "eval cat get n = Some v" "sees v j" "clean_data j"
  shows "settles cat get (VNode n) j"
  using assms sees_evaluated by (auto simp: settles_def)

lemma settles_array: "list_all2 (settles cat get) vs js \<Longrightarrow> settles cat get (VArr vs) (JArr js)"
proof -
  assume "list_all2 (settles cat get) vs js"
  then have "\<exists>ws. those (map (settle_value cat get) vs) = Some ws \<and> list_all2 sees ws js"
    by (induction rule: list_all2_induct) (auto simp: settles_def)
  then show ?thesis by (auto simp: settles_def sees_to)
qed

lemma settles_string: "settles cat get (VStr s) j \<Longrightarrow> j = JStr s"
  by (simp add: settles_leaf sees_string)

lemma settles_list: "settles cat get (VArr vs) j \<Longrightarrow> is_array j"
  using sees_list by (auto simp: settles_def)

lemma settles_object:
  assumes "fields_like (settles cat get) kvs ks" "\<not> control_object (JObj ks)"
  shows "settles cat get (VObj kvs) (JObj ks)"
proof -
  note calm = calm_object[of "settles cat get", OF like_field[OF assms(1)] assms(2) settles_string settles_list]
  show ?thesis
  proof (cases "list_ex (\<lambda>f. object_like (snd f)) kvs")
    case True
    have "\<exists>ws. those_fields (map (map_prod id (settle_value cat get)) kvs) = Some ws \<and> sees_fields ws ks"
      using assms(1) by (induction rule: list_all2_induct) (auto simp: settles_def)
    then show ?thesis using True calm by (auto simp: settles_def element_object_def sees_to)
  next
    case False
    have "sees_fields kvs ks"
      using assms(1) False by (induction rule: list_all2_induct) (auto simp: settles_leaf)
    then show ?thesis using False calm by (auto simp: settles_def element_object_def sees_to)
  qed
qed

lemma settles_static:
  assumes "distinct (map fst kvs)" "list_all (\<lambda>f. snd f = VNull) declared" "clean_data (JObj kvs)" "v_data E = JObj kvs"
  shows "component_free n \<Longrightarrow> printable n \<Longrightarrow> tree_safe lib n \<Longrightarrow> plain_reads (JObj kvs) n \<Longrightarrow> evals E n j \<Longrightarrow>
    settles cat (page_state declared (JObj kvs)) (static (raw_node (read_tree n))) j"
proof (induction n arbitrary: j rule: printable.induct)
  case (1 n)
  let ?get = "page_state declared (JObj kvs)"
  note r = read_tree.simps[of n]
  have kids: "list_all printable (kids n)" "list_all (tree_safe lib) (kids n)"
    using "1.prems"(2,3) by (simp_all add: printable.simps[of n] tree_safe.simps[of lib n])
  have IH: "settles cat ?get (static (raw_node (read_tree a))) k"
    if "a \<in> set (kids n)" "component_free a" "plain_reads (JObj kvs) a" "evals E a k" for a k
    using "1.IH" kids that by (simp add: list_all_iff)
  have clean: "clean_data j" using evals_clean[of E n j lib] assms(3,4) "1.prems" by simp
  have j: "j = plain_value (JObj kvs) n" using plain_value_correct[OF "1.prems"(5,1)] assms(4) by simp
  obtain v where v: "eval cat ?get (raw_node (read_tree n)) = Some v" "sees v j"
    using eval_sees[OF assms(1,2) "1.prems"(1,2,4), of cat] j by blast
  note node = settles_node[OF v clean]
  show ?case
  proof (cases n)
    case (Arr els)
    then obtain vs where vs: "j = JArr vs" "list_all2 (evals E) els vs" using "1.prems"(5) by (auto elim: evals_arrE)
    have "list_all2 (settles cat ?get) (map (\<lambda>a. static (raw_node (read_tree a))) els) vs"
      using vs(2) IH "1.prems"(1,4) Arr
      by (auto simp: list_all2_conv_all_nth list_all_length)
    then show ?thesis using r Arr vs(1) settles_array by (simp add: o_def)
  next
    case (Obj es)
    then obtain vs where vs: "j = from_entries (zip (map fst es) vs)" "list_all2 (evals E) (map snd es) vs"
        "\<not> control_object j"
      using "1.prems"(5) by (auto elim: evals_objE)
    obtain ks where ks: "j = JObj ks" using vs(1) by (simp add: from_entries_def)
    have "fields_like (settles cat ?get) (map (\<lambda>e. (fst e, static (raw_node (read_tree (snd e))))) es) (zip (map fst es) vs)"
      using vs(2) IH "1.prems"(1,4) Obj
      by (auto simp: list_all2_conv_all_nth list_all_length)
    from like_put_all[OF this] have "fields_like (settles cat ?get) (put_all (map (\<lambda>e. (fst e, static (raw_node (read_tree (snd e))))) es)) ks"
      using vs(1) ks by simp
    from settles_object[OF this] show ?thesis using vs(3) ks r Obj by (simp add: o_def)
  next
    case (Num x)
    then show ?thesis using v r by (auto simp: settles_leaf)
  next
    case (UnaryOp op operand)
    then show ?thesis using v r by (auto simp: settles_leaf split: if_splits)
  qed (use node v r "1.prems"(1,2) printable.simps[of n] in \<open>auto simp: settles_leaf\<close>)
qed

section \<open>The values of the printed tree\<close>

text \<open>A view and its expansion evaluate alike, and so every part of the expansion has a value.\<close>

lemma expands_leaf: "expands E n m \<Longrightarrow> is_literal_key n \<Longrightarrow> m = n"
  by (cases n; erule expands.cases) (auto simp: is_literal_key_def)

lemma is_num_literal: "is_num_node n \<Longrightarrow> is_literal_key n"
  by (cases n) (simp_all add: is_num_node_def is_literal_key_def)

lemma expands_evals: "expands E n m \<Longrightarrow> costs E n c \<Longrightarrow> evals E n v \<Longrightarrow> evals E m v"
proof (induction arbitrary: c v rule: expands.induct)
  case (expands_ref x d m)
  obtain d' k where "map_of (v_defs E) x = Some d'" "costs E d' k" using costs_ref[OF expands_ref.prems(1)] by blast
  then show ?case using expands_ref by (auto elim: evals_refE)
next
  case (expands_node n ms)
  obtain cs where cs: "children (v_lib E) n = Inr cs" using expands_node.prems(1) by (rule costsE)
  have kid: "evals E (ms ! i) w" if "i < length (kids n)" "evals E (kids n ! i) w" for i w
    using costs_kid[OF expands_node.prems(1) that(1)] expands_node.IH that by (auto simp: list_all2_conv_all_nth)
  have len: "length ms = length (kids n)" using expands_node.IH by (simp add: list_all2_lengthD)
  have leaf: "ms ! i = kids n ! i" if "i < length (kids n)" "is_literal_key (kids n ! i)" for i
    using expands_node.IH expands_leaf that by (auto simp: list_all2_conv_all_nth)
  have list: "list_all2 (evals E) ms vs" if "list_all2 (evals E) (kids n) vs" for vs
    using that kid len by (auto simp: list_all2_conv_all_nth)
  show ?case
  proof (cases n)
    case (Comp name args fn)
    then show ?thesis using expands_node.prems(2) list by (auto elim!: evals_compE intro!: evals_comp)
  next
    case (Arr els)
    then show ?thesis using expands_node.prems(2) list by (auto elim!: evals_arrE intro!: evals_arr)
  next
    case (Obj es)
    then obtain vs where vs: "v = from_entries (zip (map fst es) vs)" "list_all2 (evals E) (map snd es) vs" "\<not> control_object v"
      using expands_node.prems(2) by (auto elim: evals_objE)
    have "list_all2 (evals E) (map snd (zip (map fst es) ms)) vs" using list[of vs] vs(2) Obj len by simp
    moreover have "map fst (zip (map fst es) ms) = map fst es" using len Obj by simp
    ultimately show ?thesis using vs(1,3) Obj evals_obj[of E "zip (map fst es) ms" vs] by simp
  next
    case (Member obj f)
    then obtain a where "ms = [a]" using len by (auto simp: length_Suc_conv)
    then show ?thesis using expands_node.prems(2) kid[of 0] Member by (auto elim!: evals_memberE intro!: evals_member)
  next
    case (Index obj i)
    then obtain a b where ms: "ms = [a, b]" using len by (auto simp: length_Suc_conv)
    have "b = i" using leaf[of 1] cs Index ms by (simp split: if_splits)
    then show ?thesis using expands_node.prems(2) kid[of 0] Index ms by (auto elim!: evals_indexE intro!: evals_index)
  next
    case (UnaryOp op operand)
    then obtain a where ms: "ms = [a]" using len by (auto simp: length_Suc_conv)
    have "a = operand" using leaf[of 0] cs UnaryOp ms is_num_literal by (simp split: if_splits)
    then show ?thesis using expands_node.prems(2) UnaryOp ms by simp
  qed (use expands_node.prems(2) in simp_all)
qed

lemma evals_part: "evals E m v \<Longrightarrow> printable m \<Longrightarrow> sub_node m p = Some n \<Longrightarrow> \<exists>j. evals E n j"
proof (induction p arbitrary: m v)
  case (Cons i p)
  note p = printable.simps[of m]
  have i: "i < length (kids m)" "sub_node (kids m ! i) p = Some n" using Cons.prems(3) by (auto split: if_splits)
  have pk: "printable (kids m ! i)" using Cons.prems(2) p i(1) by (simp add: list_all_length)
  have "\<exists>w. evals E (kids m ! i) w"
  proof (cases m)
    case (Index obj k)
    then show ?thesis using i(1) Cons.prems(1,2) p
      by (cases k) (auto simp: less_Suc_eq nth_Cons' is_literal_key_def elim!: evals_indexE intro: evals_str evals_num)
  next
    case (UnaryOp op operand)
    then show ?thesis using i(1) Cons.prems(2) p by (cases operand) (auto intro: evals_num)
  next
    case (Comp name args fn)
    then obtain vs where "list_all2 (evals E) args vs" using Cons.prems(1) by (auto elim: evals_compE)
    then show ?thesis using i(1) Comp by (auto simp: list_all2_conv_all_nth)
  next
    case (Arr els)
    then obtain vs where "list_all2 (evals E) els vs" using Cons.prems(1) by (auto elim: evals_arrE)
    then show ?thesis using i(1) Arr by (auto simp: list_all2_conv_all_nth)
  next
    case (Obj es)
    then obtain vs where "list_all2 (evals E) (map snd es) vs" using Cons.prems(1) by (auto elim: evals_objE)
    then show ?thesis using i(1) Obj by (auto simp: list_all2_conv_all_nth)
  next
    case (Member obj f)
    then show ?thesis using i(1) Cons.prems(1) by (auto elim!: evals_memberE)
  qed (use i(1) in simp_all)
  then show ?case using Cons.IH[OF _ pk i(2)] by blast
qed auto

section \<open>Where the two differ\<close>

text \<open>
  A read of an array by another key than an index: preflight sees the length or nothing, the
  renderer reads the element 0. And an entry that is an object with a property \<open>value\<close> is
  replaced by it.
\<close>

lemma number_of_length: "str_number (lit ''length'') = NaN"
  by code_simp

lemma length_reads_first:
  "eval cat (page_state [] (JObj [(lit ''rows'', JArr [JStr (lit ''a'')])]))
      (raw_node (read_tree (Member (StateRef (lit ''$rows'')) (lit ''length'')))) = Some (VStr (lit ''a''))"
  "plain_value (JObj [(lit ''rows'', JArr [JStr (lit ''a'')])]) (Member (StateRef (lit ''$rows'')) (lit ''length'')) =
      JNum (Fin False 1 0)"
  by (simp_all add: read_tree.simps page_state_def state_entry_def from_entries_def page_store_def initialize_def take_kept_def
      empty_store_def get_state_def unwrap_def read_index_def read_field_def own_def number_of_length)
    (simp_all add: js_eval index_key_def is_digit_def digit_val_def Js_Base.num_of_nat_def num_of_decimal_def)

lemma value_unwrapped:
  "eval cat (page_state [] (JObj [(lit ''x'', JObj [(lit ''value'', JBool True)])])) (raw_node (read_tree (StateRef (lit ''$x'')))) =
      Some (VBool True)"
  "plain_value (JObj [(lit ''x'', JObj [(lit ''value'', JBool True)])]) (StateRef (lit ''$x'')) = JObj [(lit ''value'', JBool True)]"
  by (simp_all add: js_eval read_tree.simps page_state_def state_entry_def from_entries_def page_store_def initialize_def take_kept_def
      empty_store_def get_state_def unwrap_def own_def)

text \<open>So an object that preflight counts as data can become an element when it is evaluated.\<close>

definition smuggled_tree :: node where
  "smuggled_tree = Obj [(lit ''type'', Index (StateRef (lit ''$t'')) (Str (lit ''x''))), (lit ''typeName'', Str (lit ''Table'')),
     (lit ''props'', Obj []), (lit ''partial'', Bool False)]"

definition smuggled_data :: jsv where
  "smuggled_data = JObj [(lit ''t'', JArr [JStr (lit ''element'')])]"

lemma smuggled_passes:
  "preflight_view [lit ''Stack''] (JStr (lit ''root = Stack([{type:$t[\"x\"],typeName:\"Table\",props:{},partial:false}])'')) smuggled_data =
     Inr (root_text (Comp (lit ''Stack'') [Arr [smuggled_tree]] False))"
  by (simp add: js_eval smuggled_data_def smuggled_tree_def root_text_def tree_text.simps call_text_def array_text_def comma_join_def
      index_key_def is_digit_def digit_val_def cong: bindE_stage)

lemma number_of_x: "str_number (lit ''x'') = NaN"
  by code_simp

lemma smuggled_element:
  "map_option renders_element (eval cat (page_state [] smuggled_data) (raw_node (read_tree smuggled_tree))) = Some True"
  by (simp add: smuggled_tree_def smuggled_data_def read_tree.simps page_state_def state_entry_def from_entries_def page_store_def
      initialize_def take_kept_def empty_store_def get_state_def unwrap_def read_index_def read_field_def own_def number_of_x put_all_def renders_element_def)
    (simp add: js_eval index_key_def is_digit_def digit_val_def)

section \<open>Properties\<close>

lemma part_safe: "tree_safe lib m \<Longrightarrow> sub_node m p = Some n \<Longrightarrow> tree_safe lib n"
proof (induction p arbitrary: m)
  case (Cons i p)
  have "list_all (tree_safe lib) (kids m)" using Cons.prems(1) by (simp add: tree_safe.simps[of lib m])
  then show ?case using Cons by (auto simp: list_all_length split: if_splits)
qed simp

lemma admitted_part:
  assumes "admits lib s data m" "printable m" "sub_node m p = Some n"
  shows "tree_safe lib n \<and> (\<exists>j. evals (view_of lib s data) n j)"
proof -
  let ?E = "view_of lib s data"
  have a: "view_admits ?E m" using assms(1) by (simp add: admits_iff)
  then obtain v where v: "evals ?E (Ref root_name) v" "expands ?E (Ref root_name) m" by (auto simp: view_admits_def)
  obtain d where d: "map_of (v_defs ?E) root_name = Some d" "expands ?E d m" "evals ?E d v"
    using v by (auto simp: expands_ref_iff is_ref_def elim: evals_refE)
  then obtain c where "costs ?E d c" using a unfolding view_admits_def by (fastforce dest: map_of_SomeD)
  then have "evals ?E m v" using expands_evals d by blast
  moreover have "tree_safe lib m" using view_admits_bounds[OF a] by (simp add: view_of_def)
  ultimately show ?thesis using evals_part part_safe assms(2,3) by blast
qed



end
