(* ===== verification/Lang_Catalog.thy ===== *)
theory Lang_Catalog
  imports Lang_Canonical_Build
begin

text \<open>
  How the parser gets its catalog from the JSON Schema of a library: \<open>Hqt\<close>, \<open>TT\<close> and \<open>zT\<close> of the
  bundle \<open>web/artifact.js\<close>. The schema is what \<open>library.toJSONSchema()\<close> gives, which zod makes;
  it is a parameter here.
\<close>

section \<open>References\<close>

text \<open>
  \<open>zT\<close> puts the shared definitions in place of the references to them. A definition that holds a
  reference to itself has no end, so that the call stack overflows; the fuel stands for it.
\<close>

fun each :: "('a \<Rightarrow> jserr + 'b) \<Rightarrow> 'a list \<Rightarrow> jserr + 'b list" where
  "each f [] = Inr []"
| "each f (x # xs) = bindE (f x) (\<lambda>y. bindE (each f xs) (\<lambda>ys. Inr (y # ys)))"

primrec inlined :: "nat \<Rightarrow> (jsstr \<times> jsv) list \<Rightarrow> jsv \<Rightarrow> jserr + jsv" where
  "inlined 0 defs e = Inl RangeError"
| "inlined (Suc n) defs e =
     (case e of
        JArr xs \<Rightarrow> bindE (each (inlined n defs) xs) (\<lambda>ys. Inr (JArr ys))
      | JObj kvs \<Rightarrow>
          (case (case map_of kvs (lit ''$ref'') of Some (JStr r) \<Rightarrow> map_of defs r | _ \<Rightarrow> None) of
             Some d \<Rightarrow> inlined n defs d
           | None \<Rightarrow>
               (case map_of kvs (lit ''$ref'') of
                  Some (JStr r) \<Rightarrow> Inr e
                | _ \<Rightarrow> bindE (each (\<lambda>f. bindE (inlined n defs (snd f)) (\<lambda>v. Inr (fst f, v))) kvs) (\<lambda>ys. Inr (JObj ys))))
      | _ \<Rightarrow> Inr e)"

section \<open>Parameters\<close>

definition or_empty :: "jsv \<Rightarrow> jsv" where   \<comment> \<open>\<open>v ?? {}\<close>\<close>
  "or_empty v = (if nullish v then JObj [] else v)"

definition param_of :: "nat \<Rightarrow> (jsstr \<times> jsv) list \<Rightarrow> jsv \<Rightarrow> jsstr \<times> jsv \<Rightarrow> jserr + param" where
  "param_of n defs e f =
     bindE (if defs = [] then Inr (snd f) else inlined n defs (snd f)) (\<lambda>s. Inr
       \<lparr>p_name = fst f, p_required = JStr (fst f) \<in> set (elems (prop_or_undef e (lit ''required''))),
        p_default = default_of (snd f), p_schema = s\<rparr>)"

definition params_of :: "nat \<Rightarrow> (jsstr \<times> jsv) list \<Rightarrow> jsv \<Rightarrow> jserr + param list" where   \<comment> \<open>\<open>TT\<close>\<close>
  "params_of n defs e = each (param_of n defs e) (entries_of (or_empty (prop_or_undef e (lit ''properties''))))"

section \<open>The catalog\<close>

definition shared_names :: "jsstr list" where   \<comment> \<open>the keys of \<open>mae\<close>\<close>
  "shared_names = [lit ''ActionExpression'', lit ''OpenUrl'', lit ''ToAssistant'']"

definition keys_of :: "jsv \<Rightarrow> jsstr list" where   \<comment> \<open>\<open>Object.keys(v ?? {})\<close>\<close>
  "keys_of v = map fst (entries_of (or_empty v))"

definition def_ref :: "jsstr \<Rightarrow> jsstr" where
  "def_ref x = lit ''#/$defs/'' @ x"

text \<open>The names that are components, when the schema says so.\<close>

definition component_names :: "jsv \<Rightarrow> jsstr list option" where
  "component_names e =
     (if truthy (prop_or_undef e (lit ''properties'')) then Some (keys_of (prop_or_undef e (lit ''properties''))) else None)"

definition shared_defs :: "jsv \<Rightarrow> (jsstr \<times> jsv) list" where
  "shared_defs e =
     concat (map (\<lambda>x. let d = prop_or_undef (or_empty (prop_or_undef e (lit ''$defs''))) x in
         if truthy d \<and> (case component_names e of Some xs \<Rightarrow> x \<notin> set xs | None \<Rightarrow> True) then [(def_ref x, d)] else [])
       (shared_names @ keys_of (prop_or_undef e (lit ''actions''))))"

definition is_component_def :: "jsv \<Rightarrow> jsstr \<Rightarrow> bool" where
  "is_component_def e x \<longleftrightarrow>
     (case component_names e of Some xs \<Rightarrow> x \<in> set xs | None \<Rightarrow> map_of (shared_defs e) (def_ref x) = None)"

definition custom_calls :: "nat \<Rightarrow> jsv \<Rightarrow> string \<Rightarrow> bool \<Rightarrow> jserr + (jsstr \<times> call_def) list" where
  "custom_calls n e kind action =
     each (\<lambda>f. bindE (params_of n (shared_defs e) (prop_or_undef (snd f) (lit ''params''))) (\<lambda>ps. Inr
         (fst f, \<lparr>d_action = action, d_params = ps, d_builtin = False, d_lazy = False\<rparr>)))
       (entries_of (or_empty (prop_or_undef e (lit kind))))"

definition catalog_of :: "nat \<Rightarrow> jsv \<Rightarrow> jserr + catalog" where   \<comment> \<open>\<open>Hqt\<close>\<close>
  "catalog_of n e =
     bindE (each (\<lambda>f. bindE (params_of n (shared_defs e) (snd f)) (\<lambda>ps. Inr (fst f, ps)))
         (filter (\<lambda>f. is_component_def e (fst f)) (entries_of (or_empty (prop_or_undef e (lit ''$defs'')))))) (\<lambda>comps.
     bindE (custom_calls n e ''functions'' False) (\<lambda>fs.
     bindE (custom_calls n e ''actions'' True) (\<lambda>acts. Inr
       \<lparr>k_comps = comps, k_custom = put_all (fs @ acts)\<rparr>)))"

section \<open>Lemmas\<close>

lemma each_map:
  assumes "each f xs = Inr ys" "\<And>x y. f x = Inr y \<Longrightarrow> g y = h x"
  shows "map g ys = map h xs"
  using assms(1) by (induction xs arbitrary: ys) (auto simp: bindE_def assms(2) split: sum.splits)

lemma each_member: "each f xs = Inr ys \<Longrightarrow> y \<in> set ys \<Longrightarrow> \<exists>x \<in> set xs. f x = Inr y"
  by (induction xs arbitrary: ys) (auto simp: bindE_def split: sum.splits)

lemma each_total: "(\<And>x. x \<in> set xs \<Longrightarrow> \<exists>y. f x = Inr y) \<Longrightarrow> \<exists>ys. each f xs = Inr ys"
proof (induction xs)
  case (Cons x xs)
  then obtain y ys where "f x = Inr y" "each f xs = Inr ys" by (meson list.set_intros)
  then show ?case by (simp add: bindE_def)
qed simp

lemma param_name: "param_of n defs e f = Inr p \<Longrightarrow> p_name p = fst f"
  by (auto simp: param_of_def bindE_def split: sum.splits)

lemma params_names:
  assumes "params_of n defs e = Inr ps"
  shows "map p_name ps = keys_of (prop_or_undef e (lit ''properties''))"
  using each_map[OF assms[unfolded params_of_def], of p_name fst] param_name unfolding keys_of_def by blast

text \<open>The keys of an object of the language are distinct.\<close>

definition schema_keys_ok :: "jsv \<Rightarrow> bool" where
  "schema_keys_ok e \<longleftrightarrow>
     list_all (\<lambda>f. distinct (keys_of (prop_or_undef (snd f) (lit ''properties'')))) (entries_of (or_empty (prop_or_undef e (lit ''$defs''))))"

lemma catalog_params_distinct:
  assumes "schema_keys_ok e" "catalog_of n e = Inr cat"
  shows "catalog_ok cat"
proof -
  obtain comps where c: "each (\<lambda>f. bindE (params_of n (shared_defs e) (snd f)) (\<lambda>ps. Inr (fst f, ps)))
      (filter (\<lambda>f. is_component_def e (fst f)) (entries_of (or_empty (prop_or_undef e (lit ''$defs''))))) = Inr comps" "k_comps cat = comps"
    using assms(2) by (auto simp: catalog_of_def bindE_def split: sum.splits)
  have "distinct (map p_name (snd x))" if "x \<in> set comps" for x
    using each_member[OF c(1) that] assms(1) params_names
    by (fastforce simp: schema_keys_ok_def list_all_iff bindE_def split: sum.splits)
  then show ?thesis using c(2) by (simp add: catalog_ok_def)
qed

text \<open>The components of the catalog are the definitions that the schema lists, each with the
  names of its properties, in their order.\<close>

lemma catalog_components:
  assumes "catalog_of n e = Inr cat"
  shows "map (map_prod id (map p_name)) (k_comps cat) =
    map (map_prod id (\<lambda>d. keys_of (prop_or_undef d (lit ''properties''))))
      (filter (\<lambda>f. is_component_def e (fst f)) (entries_of (or_empty (prop_or_undef e (lit ''$defs'')))))"
proof -
  obtain comps where c: "each (\<lambda>f. bindE (params_of n (shared_defs e) (snd f)) (\<lambda>ps. Inr (fst f, ps)))
      (filter (\<lambda>f. is_component_def e (fst f)) (entries_of (or_empty (prop_or_undef e (lit ''$defs''))))) = Inr comps" "k_comps cat = comps"
    using assms by (auto simp: catalog_of_def bindE_def split: sum.splits)
  show ?thesis unfolding c(2)
    by (rule each_map[OF c(1)]) (use params_names in \<open>fastforce simp: bindE_def split: sum.splits\<close>)
qed

text \<open>Without shared definitions, as in the library of the page, the catalog is always made.\<close>

lemma params_returns: "\<exists>ps. params_of n [] e = Inr ps"
  unfolding params_of_def by (rule each_total) (simp add: param_of_def bindE_def)

lemma catalog_returns:
  assumes "shared_defs e = []"
  shows "\<exists>cat. catalog_of n e = Inr cat"
proof -
  have calls: "\<exists>fs. custom_calls n e kind action = Inr fs" for kind action
    unfolding custom_calls_def assms
  proof (rule each_total)
    fix f :: "jsstr \<times> jsv"
    show "\<exists>y. bindE (params_of n [] (prop_or_undef (snd f) (lit ''params''))) (\<lambda>ps. Inr
        (fst f, \<lparr>d_action = action, d_params = ps, d_builtin = False, d_lazy = False\<rparr>)) = Inr y"
      using params_returns[of n "prop_or_undef (snd f) (lit ''params'')"] by (auto simp: bindE_def)
  qed
  have "\<exists>comps. each (\<lambda>f. bindE (params_of n (shared_defs e) (snd f)) (\<lambda>ps. Inr (fst f, ps)))
      (filter (\<lambda>f. is_component_def e (fst f)) (entries_of (or_empty (prop_or_undef e (lit ''$defs''))))) = Inr comps"
    unfolding assms
  proof (rule each_total)
    fix f :: "jsstr \<times> jsv"
    show "\<exists>y. bindE (params_of n [] (snd f)) (\<lambda>ps. Inr (fst f, ps)) = Inr y"
      using params_returns[of n "snd f"] by (auto simp: bindE_def)
  qed
  then show ?thesis using calls[of "''functions''" False] calls[of "''actions''" True] by (auto simp: catalog_of_def bindE_def)
qed

end
