(* ===== verification/Artifact_Program.thy ===== *)
theory Artifact_Program
  imports Renderer_Agreement Lang_Catalog Artifact_Library
begin

text \<open>
  The whole way of an artifact with the library of \<open>library.jsx\<close>: from the snapshot that the page
  fetches to the program that the renderer builds. The JSON Schema that zod makes of the library
  is a parameter; what is asked of it is that it defines every component of the library, each
  with properties of distinct names, and no functions or actions, of which the library has none.
\<close>

section \<open>The library\<close>

lemma library_components: "list_all component_name library_names"
  by (simp add: library_names_def chart_names_def component_name_def is_upper_def ident_part_def ident_start_def is_lower_def
      is_builtin_def builtin_names_def lit_simps)

lemma char_less: "(of_char c :: nat) < 256"
  using mod_less_divisor[of 256 "of_char c :: nat"] by simp

lemma of_char_unit: "(of_char c :: code_unit) = of_char d \<longleftrightarrow> c = d"
proof
  assume "(of_char c :: code_unit) = of_char d"
  then have "word_of_nat (of_char c) = (word_of_nat (of_char d) :: code_unit)" by (simp add: of_nat_of_char)
  moreover have "(of_char c :: nat) < 2 ^ LENGTH(16)" "(of_char d :: nat) < 2 ^ LENGTH(16)"
    by (rule order.strict_trans[OF char_less], simp)+
  ultimately have "(of_char c :: nat) = of_char d" by (simp only: word_of_nat_eq_iff take_bit_nat_eq_self)
  then show "c = d" by simp
qed simp

lemma lit_eq: "lit s = lit t \<longleftrightarrow> s = t"
  by (simp add: lit_def inj_map_eq_map inj_def of_char_unit)

lemma no_library_calls: "list_all (\<lambda>x. \<not> reserved x \<and> x \<notin> set (map fst builtin_calls)) library_names"
  by (simp add: library_names_def chart_names_def builtin_calls_def reserved_def reserved_names_def lit_eq)

lemma library_calls: "x \<in> set library_names \<Longrightarrow> map_of builtin_calls x = None \<and> \<not> reserved x"
  using no_library_calls by (simp add: list_all_iff map_of_eq_None_iff)

definition library_schema :: "jsv \<Rightarrow> bool" where
  "library_schema e \<longleftrightarrow> schema_keys_ok e \<and> nullish (prop_or_undef e (lit ''functions'')) \<and> nullish (prop_or_undef e (lit ''actions'')) \<and>
     (\<forall>x \<in> set library_names. is_component_def e x \<and> x \<in> set (keys_of (prop_or_undef e (lit ''$defs''))))"

lemma no_custom_calls: "nullish (prop_or_undef e (lit kind)) \<Longrightarrow> custom_calls n e kind action = Inr []"
  by (simp add: custom_calls_def or_empty_def)

lemma library_catalog:
  assumes "library_schema e" "catalog_of n e = Inr cat"
  shows "catalog_for library_names cat \<and> catalog_ok cat"
proof -
  have "custom_calls n e ''functions'' False = Inr []" "custom_calls n e ''actions'' True = Inr []"
    using assms(1) by (simp_all add: library_schema_def no_custom_calls)
  then have "k_custom cat = []"
    using assms(2) by (auto simp: catalog_of_def bindE_def put_all_def split: sum.splits)
  then have calls: "is_call cat x = (map_of builtin_calls x \<noteq> None \<or> reserved x)" for x
    by (simp add: is_call_def call_of_def)
  have "map fst (k_comps cat) = map fst (filter (\<lambda>f. is_component_def e (fst f)) (entries_of (or_empty (prop_or_undef e (lit ''$defs'')))))"
    using arg_cong[OF catalog_components[OF assms(2)], of "map fst"] by simp
  then have "set (map fst (k_comps cat)) = {x \<in> set (keys_of (prop_or_undef e (lit ''$defs''))). is_component_def e x}"
    by (auto simp: keys_of_def simp del: set_map) (force simp: image_iff)+
  then have "map_of (k_comps cat) x \<noteq> None" if "x \<in> set library_names" for x
    using assms(1) that by (auto simp: library_schema_def map_of_eq_None_iff)
  then show ?thesis
    using library_calls calls catalog_params_distinct[OF _ assms(2)] assms(1) by (auto simp: catalog_for_def library_schema_def)
qed

section \<open>An example\<close>

definition plain_schema :: jsv where
  "plain_schema = JObj [(lit ''$defs'', JObj (map (\<lambda>x. (x, JObj [])) library_names)),
     (lit ''properties'', JObj (map (\<lambda>x. (x, JObj [])) library_names))]"

lemma plain_schema_library: "library_schema plain_schema"
  by (simp add: library_schema_def plain_schema_def schema_keys_ok_def keys_of_def or_empty_def prop_or_undef_def is_component_def_def
      component_names_def lit_eq list_all_iff o_def)

lemma library_run:
  "map_option artifact_screen
     (run_events event_enabled client_act [Response 0 (Some 200), Body 0 (Some (JObj [(lit ''view'', JStr (lit ''root = Stack([])'')),
        (lit ''data'', JObj []), (lit ''revision'', JNum (Fin False 2 0))]))] (mounted library_names [])) =
   Some (Content (JNum (Fin False 2 0)) (lit ''root = Stack([])'') (JObj []))"
  by (simp add: js_eval artifact_screen_def initial_state_def snapshot_data_def library_names_def chart_names_def cong: bindE_stage)

text \<open>A content marker in a string is set apart below: preflight lets it through, and the renderer
  takes what follows it for the program (\<open>marker_empties_program\<close>).\<close>

lemma marker_passes: "preflight_view [lit ''Stack'', lit ''Text''] (JStr marker_view) (JObj []) = Inr marker_view"
  by (simp add: js_eval marker_view_def cong: bindE_stage)

section \<open>The program of the page\<close>


lemma plain_catalog: "\<exists>cat. catalog_of 0 plain_schema = Inr cat"
  by (rule catalog_returns)
    (simp add: shared_defs_def plain_schema_def shared_names_def keys_of_def or_empty_def prop_or_undef_def library_names_def
      chart_names_def lit_eq)


end
