(* ===== verification/Renderer_Bounds.thy ===== *)
theory Renderer_Bounds
  imports Renderer_Properties
begin

text \<open>
  How many elements are built. Preflight bounds the components of the printed tree; the builder
  makes no more elements than that, whatever the schemas of the library are, since the check of a
  property never adds one and a default holds none.
\<close>

section \<open>Counting elements\<close>

text \<open>The entries of an object, without those that an earlier one hides.\<close>

fun firsts :: "('k \<times> 'v) list \<Rightarrow> ('k \<times> 'v) list" where
  "firsts [] = []"
| "firsts (e # es) = e # filter (\<lambda>f. fst f \<noteq> fst e) (firsts es)"

lemma set_firsts: "set (firsts kvs) \<subseteq> set kvs"
  by (induction kvs) auto

lemma distinct_firsts: "distinct (map fst (firsts kvs))"
  by (induction kvs) (auto simp: distinct_map_filter)

lemma map_of_filter_key: "map_of (filter (\<lambda>f. fst f \<noteq> a) kvs) k = (if k = a then None else map_of kvs k)"
  by (induction kvs) auto

lemma map_of_firsts: "map_of (firsts kvs) k = map_of kvs k"
  by (induction kvs) (auto simp: map_of_filter_key)

lemma keys_firsts: "fst ` set (firsts kvs) = fst ` set kvs"
  using dom_map_of_conv_image_fst[of "firsts kvs"] dom_map_of_conv_image_fst[of kvs] map_of_firsts[of kvs] by (simp add: dom_def)

definition count_at :: "('v \<Rightarrow> nat) \<Rightarrow> 'v option \<Rightarrow> nat" where
  "count_at g r = (case r of Some v \<Rightarrow> g v | None \<Rightarrow> 0)"

lemma sum_firsts:
  assumes "finite A" "fst ` set kvs \<subseteq> A"
  shows "sum_list (map (\<lambda>f. g (snd f)) (firsts kvs)) = (\<Sum>k\<in>A. count_at g (map_of kvs k))"
proof -
  have "sum_list (map (\<lambda>f. g (snd f)) (firsts kvs)) = sum_list (map (\<lambda>k. count_at g (map_of kvs k)) (map fst (firsts kvs)))"
  proof -
    have "g (snd f) = count_at g (map_of kvs (fst f))" if "f \<in> set (firsts kvs)" for f
      using map_of_is_SomeI[OF distinct_firsts, of "fst f" "snd f" kvs] that by (simp add: map_of_firsts count_at_def)
    then show ?thesis by (simp add: o_def cong: map_cong)
  qed
  also have "\<dots> = (\<Sum>k\<in>fst ` set kvs. count_at g (map_of kvs k))"
    using sum.distinct_set_conv_list[OF distinct_firsts[of kvs], of "\<lambda>k. count_at g (map_of kvs k)"] keys_firsts[of kvs] by simp
  also have "\<dots> = (\<Sum>k\<in>A. count_at g (map_of kvs k))"
    by (rule sum.mono_neutral_left[OF assms]) (force simp: count_at_def split: option.split dest: map_of_SomeD)
  finally show ?thesis .
qed

lemma sum_firsts_le:
  assumes "\<And>k. count_at g (map_of cur k) \<le> count_at g (map_of kvs k)"
  shows "sum_list (map (\<lambda>f. g (snd f)) (firsts cur)) \<le> sum_list (map (\<lambda>f. g (snd f)) (firsts kvs))"
  using sum_firsts[of "fst ` set cur \<union> fst ` set kvs" cur g] sum_firsts[of "fst ` set cur \<union> fst ` set kvs" kvs g]
    sum_mono[of "fst ` set cur \<union> fst ` set kvs", OF assms] by simp

lemma sum_firsts_all: "sum_list (map (\<lambda>f. g (snd f)) (firsts kvs)) \<le> (sum_list (map (\<lambda>f. g (snd f)) kvs) :: nat)"
proof (induction kvs)
  case (Cons e es)
  have "sum_list (map (\<lambda>f. g (snd f)) (filter P xs)) \<le> (sum_list (map (\<lambda>f. g (snd f)) xs) :: nat)" for P xs
    by (induction xs) auto
  from this[of "\<lambda>f. fst f \<noteq> fst e" "firsts es"] Cons show ?case by simp
qed simp

lemma sum_put: "sum_list (map (\<lambda>f. g (snd f)) (put_field kvs k v)) \<le> sum_list (map (\<lambda>f. g (snd f)) kvs) + (g v :: nat)"
  by (induction kvs) auto

lemma sum_drop: "sum_list (map (\<lambda>f. g (snd f)) (drop_field kvs k)) \<le> (sum_list (map (\<lambda>f. g (snd f)) kvs) :: nat)"
  unfolding drop_field_def by (induction kvs) auto

lemma sum_put_all: "sum_list (map (\<lambda>f. g (snd f)) (put_all kvs)) \<le> (sum_list (map (\<lambda>f. g (snd f)) kvs) :: nat)"
proof -
  have "sum_list (map (\<lambda>f. g (snd f)) (foldl (\<lambda>acc e. put_field acc (fst e) (snd e)) acc kvs)) \<le>
      sum_list (map (\<lambda>f. g (snd f)) acc) + sum_list (map (\<lambda>f. g (snd f)) kvs)" for acc
  proof (induction kvs arbitrary: acc)
    case (Cons e kvs)
    show ?case using Cons[of "put_field acc (fst e) (snd e)"] sum_put[of g acc "fst e" "snd e"] by simp
  qed simp
  from this[of "[]"] show ?thesis by (simp add: put_all_def)
qed

text \<open>The components that a tree can still be evaluated to, and the elements of a value.\<close>

fun node_comps :: "rnode \<Rightarrow> nat" where
  "node_comps (NComp e args (Some es) fn) = Suc (sum_list (map (\<lambda>f. node_comps (snd f)) es))"
| "node_comps (NComp e args None fn) = Suc (sum_list (map node_comps args))"
| "node_comps (NArr els) = sum_list (map node_comps els)"
| "node_comps (NObj es) = sum_list (map (\<lambda>f. node_comps (snd f)) es)"
| "node_comps (NIndex a b) = node_comps a + node_comps b"
| "node_comps (NMember a f) = node_comps a"
| "node_comps (NBin op a b) = node_comps a + node_comps b"
| "node_comps (NUn op a) = node_comps a"
| "node_comps (NTern a b d) = node_comps a + node_comps b + node_comps d"
| "node_comps (NAssign x a) = node_comps a"
| "node_comps _ = 0"

function elements :: "rval \<Rightarrow> nat" where
  "elements v =
     (case v of
        VNode n \<Rightarrow> node_comps n
      | VArr xs \<Rightarrow> sum_list (map elements xs)
      | VObj kvs \<Rightarrow> sum_list (map (\<lambda>f. elements (snd f)) (firsts kvs))
      | VElem e ps partial dyn st \<Rightarrow> Suc (sum_list (map (\<lambda>f. elements (snd f)) ps))
      | _ \<Rightarrow> 0)"
  by pat_completeness auto
termination
  by (relation "measure size")
    (use item_size member_size set_firsts in \<open>fastforce simp: fields_size_def\<close>)+

declare elements.simps [simp del]

lemma elements_simps [simp]:
  "elements VUndef = 0" "elements VNull = 0" "elements (VStr s) = 0" "elements (VNum x) = 0" "elements (VBool b) = 0"
  "elements (VNode n) = node_comps n" "elements (VArr xs) = sum_list (map elements xs)"
  "elements (VObj kvs) = sum_list (map (\<lambda>f. elements (snd f)) (firsts kvs))"
  "elements (VElem e ps partial dyn st) = Suc (sum_list (map (\<lambda>f. elements (snd f)) ps))"
  by (simp_all add: elements.simps)

lemma elements_json [simp]: "elements (of_json j) = 0"
proof (induction j)
  case (JObj kvs)
  have "elements (snd f) = 0" if "f \<in> set (firsts (map (map_prod id of_json) kvs))" for f
  proof -
    have "f \<in> set (map (map_prod id of_json) kvs)" using that set_firsts by blast
    then show ?thesis using JObj by auto
  qed
  then show ?case by simp
qed simp_all

section \<open>The check adds no element\<close>

abbreviation elements_at :: "fields \<Rightarrow> jsstr \<Rightarrow> nat" where
  "elements_at kvs k \<equiv> count_at elements (map_of kvs k)"

lemma fill_required_elements:
  "fill_required sc props path old ds cur = (bad, cur', is) \<Longrightarrow> elements_at cur' k \<le> elements_at cur k"
proof (induction ds arbitrary: cur bad cur' "is")
  case (Cons d ds)
  show ?case
  proof (cases "lacks old d \<and> default_of (prop_schema props d) = JUndef")
    case True
    then obtain bad' is' where "fill_required sc props path old ds cur = (bad', cur', is')"
      using Cons.prems by (auto split: prod.splits)
    then show ?thesis by (rule Cons.IH)
  next
    case False
    let ?c = "if lacks old d then put_field cur d (of_json (default_of (prop_schema props d))) else cur"
    have "fill_required sc props path old ds ?c = (bad, cur', is)"
      using Cons.prems False by (auto split: if_splits)
    then have "elements_at cur' k \<le> elements_at ?c k" by (rule Cons.IH)
    also have "\<dots> \<le> elements_at cur k" by (simp add: count_at_def)
    finally show ?thesis .
  qed
qed simp

lemma step_fields_elements:
  assumes "elements m \<le> n" "elements_at cur d \<le> n"
  shows "elements_at (step_fields cur d x m) d \<le> n" "k \<noteq> d \<Longrightarrow> elements_at (step_fields cur d x m) k \<le> elements_at cur k"
  using assms by (auto simp: step_fields_def count_at_def)

lemma check_keys_elements:
  assumes "\<And>d x s p v'. map_of kvs d = Some x \<Longrightarrow> fst (check_value sc s x p) = Some v' \<Longrightarrow> elements v' \<le> elements x"
  shows "(\<And>k. elements_at cur k \<le> elements_at kvs k) \<Longrightarrow>
    elements_at (fst (snd (check_keys sc req props path kvs ds cur))) k \<le> elements_at kvs k"
proof (induction ds arbitrary: cur)
  case (Cons d ds)
  show ?case
  proof (cases "map_of kvs d")
    case None
    then show ?thesis using Cons by simp
  next
    case (Some x)
    obtain r "is" where r: "check_value sc (prop_schema props d) x (sub_path path d) = (r, is)" by fastforce
    show ?thesis
    proof (cases "case r of Some m \<Rightarrow> Some m | None \<Rightarrow> settle (d \<in> set req) (default_of (prop_schema props d))")
      case None
      have "elements_at (fst (snd (check_keys sc req props path kvs ds cur))) k \<le> elements_at kvs k" by (rule Cons.IH[OF Cons.prems])
      then show ?thesis
        by (simp only: check_keys_Some[OF Some] r prod.case None option.case) (auto split: prod.split)
    next
      case m: (Some m)
      have "elements m \<le> elements x" using m assms[OF Some, of "prop_schema props d" "sub_path path d"] r
        by (auto simp: settle_def split: option.splits if_splits)
      then have m_le: "elements m \<le> elements_at kvs d" using Some by (simp add: count_at_def)
      have "elements_at (step_fields cur d x m) k' \<le> elements_at kvs k'" for k'
        using step_fields_elements(1)[OF m_le Cons.prems] order_trans[OF step_fields_elements(2)[OF m_le Cons.prems] Cons.prems]
        by (cases "k' = d") blast+
      then have "elements_at (fst (snd (check_keys sc req props path kvs ds (step_fields cur d x m)))) k \<le> elements_at kvs k"
        by (rule Cons.IH)
      then show ?thesis
        by (simp only: check_keys_Some[OF Some] r prod.case m option.case) (auto split: prod.split)
    qed
  qed
qed simp

lemma check_items_elements:
  "(\<And>x p v'. x \<in> set xs \<Longrightarrow> fst (check_value sc t x p) = Some v' \<Longrightarrow> elements v' \<le> elements x) \<Longrightarrow>
    sum_list (map elements (fst (check_items sc t path l xs))) \<le> sum_list (map elements xs)"
proof (induction xs arbitrary: l)
  case (Cons x xs)
  have "sum_list (map elements (fst (check_items sc t path (l + 1) xs))) \<le> sum_list (map elements xs)"
    by (rule Cons.IH) (use Cons.prems in auto)
  then show ?case using Cons.prems[of x "sub_path path (nat_str l)"] by (auto split: prod.splits option.splits intro: add_mono trans_le_add2)
qed simp

lemma check_elements: "fst (check_value sc t v path) = Some v' \<Longrightarrow> elements v' \<le> elements v"
proof (induction v arbitrary: t path v' rule: measure_induct_rule[of size])
  case (less v)
  note step = check_value.simps[of sc t v path]
  show ?case
  proof (cases "v' = v")
    case False
    then consider (object) kvs where "v = VObj kvs" "prop_or_undef t (lit ''type'') = JStr (lit ''object'')"
        "\<not> (\<not> plain_object t \<or> absent v \<or> is_node v)" "\<not> is_element v" "\<not> is_union t"
      | (array) xs where "v = VArr xs"
      using less.prems step by (cases v) (auto split: if_splits option.splits)
    then show ?thesis
    proof cases
      case object
      obtain bad1 cur is1 where fill: "fill_required sc (schema_props t) path kvs
          (if c_partial sc then [] else required_keys t) kvs = (bad1, cur, is1)" by (cases rule: prod_cases3) blast
      obtain bad2 cur' is2 where run: "check_keys sc (required_keys t) (schema_props t) path kvs
          (map fst (schema_props t)) cur = (bad2, cur', is2)" by (cases rule: prod_cases3) blast
      have v': "v' = VObj cur'"
        using less.prems step object fill run by (simp split: if_splits)
      have "elements w \<le> elements x" if x: "map_of kvs d = Some x" and w: "fst (check_value sc s x p) = Some w" for d x s p w
        by (rule less.IH[OF _ w]) (use field_size[OF x] object in \<open>simp add: fields_size_def\<close>)
      then have "elements_at cur' k \<le> elements_at kvs k" for k
        using check_keys_elements[of kvs sc cur "required_keys t" "schema_props t" path "map fst (schema_props t)" k]
          fill_required_elements[OF fill] run by simp
      then show ?thesis using v' object(1) sum_firsts_le[of elements cur' kvs] by simp
    next
      case array
      have "sum_list (map elements (fst (check_items sc (prop_or_undef t (lit ''items'')) path 0 xs))) \<le> sum_list (map elements xs)"
      proof (rule check_items_elements)
        fix x p w assume x: "x \<in> set xs" "fst (check_value sc (prop_or_undef t (lit ''items'')) x p) = Some w"
        show "elements w \<le> elements x" by (rule less.IH[OF _ x(2)]) (use item_size[OF x(1)] array in auto)
      qed
      then show ?thesis using less.prems step array False by (auto split: if_splits prod.splits option.splits)
    qed
  qed simp
qed

section \<open>Building\<close>

text \<open>The components of a tree as it was parsed.\<close>

fun arg_comps :: "rnode \<Rightarrow> nat" where
  "arg_comps (NComp e args m fn) = Suc (sum_list (map arg_comps args))"
| "arg_comps (NArr els) = sum_list (map arg_comps els)"
| "arg_comps (NObj es) = sum_list (map (\<lambda>f. arg_comps (snd f)) es)"
| "arg_comps (NIndex a b) = arg_comps a + arg_comps b"
| "arg_comps _ = 0"

abbreviation prop_elements :: "fields \<Rightarrow> nat" where
  "prop_elements props \<equiv> sum_list (map (\<lambda>f. elements (snd f)) props)"

lemma gives_weaken: "gives m P \<Longrightarrow> (\<And>x. P x \<Longrightarrow> Q x) \<Longrightarrow> gives m Q"
  by (auto simp: gives_def)

lemma gives_traverse_sum:
  "(\<And>x. x \<in> set xs \<Longrightarrow> gives (f x) (\<lambda>y. (g y :: nat) \<le> h x)) \<Longrightarrow>
    gives (traverse f xs) (\<lambda>ys. sum_list (map g ys) \<le> sum_list (map h xs))"
proof (induction xs)
  case (Cons x xs)
  have "gives (bind (traverse f xs) (\<lambda>ys. ret (y # ys))) (\<lambda>ys. sum_list (map g ys) \<le> sum_list (map h (x # xs)))"
    if "g y \<le> h x" for y
    by (rule gives_bind[OF Cons.IH]) (use Cons.prems that in \<open>auto intro!: gives_ret add_mono\<close>)
  then have rest: "gives (bind (traverse f xs) (\<lambda>ys. ret (y # ys))) (\<lambda>ys. sum_list (map g ys) \<le> sum_list (map h (x # xs)))"
    if "g y \<le> h x" for y using that by blast
  have first: "gives (f x) (\<lambda>y. g y \<le> h x)" by (rule Cons.prems) simp
  show ?case unfolding traverse.simps by (rule gives_bind[OF first]) (rule rest)
qed (simp add: gives_ret)

lemma sum_zip: "sum_list (map (\<lambda>f. g (snd f)) (zip ks ys)) \<le> (sum_list (map g ys) :: nat)"
proof (induction ks arbitrary: ys)
  case (Cons k ks)
  then show ?case by (cases ys) simp_all
qed simp

lemma gives_fields_sum:
  assumes "\<And>f. f \<in> set es \<Longrightarrow> gives (m (snd f)) (\<lambda>y. (g y :: nat) \<le> h (snd f))"
  shows "gives (traverse_fields m es) (\<lambda>kvs. sum_list (map (\<lambda>f. g (snd f)) kvs) \<le> sum_list (map (\<lambda>f. h (snd f)) es))"
proof -
  have "gives (traverse m (map snd es)) (\<lambda>ys. sum_list (map g ys) \<le> sum_list (map h (map snd es)))"
    by (rule gives_traverse_sum) (use assms in auto)
  then show ?thesis unfolding traverse_fields_def
    by (rule gives_bind) (auto intro!: gives_ret order_trans[OF sum_zip] simp: o_def)
qed

lemma resolve_comps: "settled (x_cat c) n \<Longrightarrow> gives (resolve k c pl bound n) (\<lambda>n'. node_comps n' \<le> arg_comps n)"
proof (induction k arbitrary: n bound)
  case (Suc k)
  note s = settled.simps[of "x_cat c" n]
  show ?case
  proof (cases n)
    case (NComp e args m fn)
    then have e: "loop_var c e args = None" "\<not> fn" "\<not> is_call (x_cat c) e"
      using s Suc.prems by (auto simp: loop_var_def is_call_def split: option.splits)
    obtain ps where ps: "map_of (k_comps (x_cat c)) e = Some ps" using s Suc.prems NComp by auto
    have args: "gives (traverse (resolve k c pl bound) args) (\<lambda>as. sum_list (map node_comps as) \<le> sum_list (map arg_comps args))"
      by (rule gives_traverse_sum) (use s Suc NComp in auto)
    have comps: "node_comps (NComp e as (Some (by_name as ps)) fn) \<le> Suc (sum_list (map node_comps as))" for as
      using sum_put_all[of node_comps "zip (map p_name ps) as"] sum_zip[of node_comps "map p_name ps" as] by (simp add: by_name_def)
    have "gives (bind (traverse (resolve k c pl bound) args) (\<lambda>as. ret (NComp e as (Some (by_name as ps)) fn)))
        (\<lambda>n'. node_comps n' \<le> Suc (sum_list (map arg_comps args)))"
      by (rule gives_bind[OF args], rule gives_ret, rule order_trans[OF comps]) simp
    then show ?thesis using e ps NComp by (simp add: resolve_comp_def)
  next
    case (NArr els)
    have "gives (traverse (resolve k c pl bound) els) (\<lambda>as. sum_list (map node_comps as) \<le> sum_list (map arg_comps els))"
      by (rule gives_traverse_sum) (use s Suc NArr in auto)
    then show ?thesis using NArr by (auto intro!: gives_ret elim!: gives_bind)
  next
    case (NObj es)
    have "gives (traverse_fields (resolve k c pl bound) es)
        (\<lambda>as. sum_list (map (\<lambda>f. node_comps (snd f)) as) \<le> sum_list (map (\<lambda>f. arg_comps (snd f)) es))"
      by (rule gives_fields_sum) (use s Suc NObj in auto)
    then show ?thesis using NObj by (auto intro!: gives_ret elim!: gives_bind)
  next
    case (NIndex a b)
    then have ab: "gives (resolve k c pl bound a) (\<lambda>n'. node_comps n' \<le> arg_comps a)"
        "gives (resolve k c pl bound b) (\<lambda>n'. node_comps n' \<le> arg_comps b)"
      using s Suc by auto
    then show ?thesis using NIndex by (auto intro!: gives_ret gives_bind[OF ab(1)] gives_bind[OF ab(2)])
  qed (use s Suc.prems in \<open>auto intro!: gives_ret\<close>)
qed (simp add: gives_throw)

lemma check_prop_elements: "gives (check_prop c pl e p f) (\<lambda>r. \<forall>m. r = Some m \<longrightarrow> elements m \<le> elements f)"
  unfolding check_prop_def
  by (auto intro!: gives_next gives_ret split: prod.splits dest: check_elements[of _ _ f, OF arg_cong[of _ _ fst, THEN trans]])

lemma put_prop_elements: "prop_elements (put_field props k v) \<le> prop_elements props + elements v"
  by (rule sum_put)

lemma take_prop_elements:
  "gives (take_prop c pl e p f (props, bad)) (\<lambda>st. prop_elements (fst st) \<le> prop_elements props + elements f)"
proof -
  have drop: "prop_elements (drop_field props k) \<le> prop_elements props + elements f" for k
    using sum_drop[of elements props k] by simp
  have put: "prop_elements (put_field props k m) \<le> prop_elements props + elements f" if "elements m \<le> elements f" for k m
    using put_prop_elements[of props k m] that by simp
  show ?thesis
  proof (cases "p_schema p = JUndef")
    case True
    then show ?thesis by (auto simp: take_prop_def intro!: gives_ret put)
  next
    case False
    show ?thesis unfolding take_prop_def prod.case Let_def if_not_P[OF False]
      by (rule gives_bind[OF check_prop_elements])
        (auto simp: put_put drop_put settle_def intro!: gives_ret put drop split: option.split)
  qed
qed

lemma take_props_elements:
  "(\<And>a. a \<in> set args \<Longrightarrow> gives (v pl a) (\<lambda>f. elements f \<le> arg_comps a)) \<Longrightarrow>
    gives (take_props c v pl e ps args st) (\<lambda>st'. prop_elements (fst st') \<le> prop_elements (fst st) + sum_list (map arg_comps args))"
proof (induction c v pl e ps args st rule: take_props.induct)
  case (1 c v pl e p ps a as st)
  have first: "gives (v pl a) (\<lambda>f. elements f \<le> arg_comps a)" using "1.prems" by simp
  have one: "gives (take_prop c pl e p f st) (\<lambda>st'. prop_elements (fst st') \<le> prop_elements (fst st) + elements f)" for f
    using take_prop_elements[of c pl e p f "fst st" "snd st"] by simp
  show ?case unfolding take_props.simps
  proof (rule gives_bind[OF first], rule gives_bind[OF one])
    fix f and st' :: "fields \<times> bool" assume f: "elements f \<le> arg_comps a" "prop_elements (fst st') \<le> prop_elements (fst st) + elements f"
    have "gives (take_props c v pl e ps as st') (\<lambda>s. prop_elements (fst s) \<le> prop_elements (fst st') + sum_list (map arg_comps as))"
      by (rule "1.IH") (use "1.prems" in simp)
    then show "gives (take_props c v pl e ps as st')
        (\<lambda>s. prop_elements (fst s) \<le> prop_elements (fst st) + sum_list (map arg_comps (a # as)))"
      by (rule gives_weaken) (use f in simp)
  qed
qed (simp_all add: gives_ret)

lemma defaults_elements: "prop_elements (with_defaults ps props) \<le> prop_elements props"
proof -
  have "prop_elements (foldl (\<lambda>acc p. put_field acc (p_name p) (of_json (p_default p))) props qs) \<le> prop_elements props"
    for qs :: "param list"
  proof (induction qs arbitrary: props)
    case (Cons q qs)
    show ?case using Cons[of "put_field props (p_name q) (of_json (p_default q))"]
        put_prop_elements[of props "p_name q" "of_json (p_default q)"] by simp
  qed simp
  then show ?thesis unfolding with_defaults_def .
qed

lemma element_elements:
  assumes "\<And>a. a \<in> set args \<Longrightarrow> gives (v pl a) (\<lambda>f. elements f \<le> arg_comps a)"
  shows "gives (element_value c v pl e ps args) (\<lambda>w. elements w \<le> Suc (sum_list (map arg_comps args)))"
proof -
  have "gives (take_props c v pl e ps args ([], False)) (\<lambda>st. prop_elements (fst st) \<le> sum_list (map arg_comps args))"
    using take_props_elements[of args v pl c e ps "([], False)"] assms by simp
  then show ?thesis unfolding element_value_def
    by (rule gives_bind)
      (auto intro!: gives_next gives_ret order_trans[OF defaults_elements] split: prod.split simp: gives_ret gives_next)
qed

lemma array_elements:
  "(\<And>a. a \<in> set els \<Longrightarrow> gives (f a) (\<lambda>v. elements v \<le> arg_comps a)) \<Longrightarrow>
    gives (array_values f els) (\<lambda>vs. sum_list (map elements vs) \<le> sum_list (map arg_comps els))"
proof (induction els)
  case (Cons a els)
  have rest: "gives (array_values f els) (\<lambda>vs. sum_list (map elements vs) \<le> sum_list (map arg_comps els))"
    by (rule Cons.IH) (use Cons.prems in simp)
  have "gives (bind (f a) (\<lambda>v. bind (array_values f els) (\<lambda>vs. ret (if v = VNull \<and> droppable a then vs else v # vs))))
      (\<lambda>vs. sum_list (map elements vs) \<le> sum_list (map arg_comps (a # els)))"
    by (rule gives_bind[OF Cons.prems], simp, rule gives_bind[OF rest]) (auto intro!: gives_ret)
  then show ?case using rest by (cases a) simp_all
qed (simp add: gives_ret)

lemma valuate_elements: "settled (x_cat c) n \<Longrightarrow> gives (valuate k c pl n) (\<lambda>v. elements v \<le> arg_comps n)"
proof (induction k arbitrary: n)
  case (Suc k)
  note s = settled.simps[of "x_cat c" n]
  have res: "gives (resolve k c pl [] n) (\<lambda>n'. node_comps n' \<le> arg_comps n)" by (rule resolve_comps[OF Suc.prems])
  show ?case
  proof (cases n)
    case (NComp e args m fn)
    have "gives (element_value c (valuate k c) pl e ps args) (\<lambda>w. elements w \<le> arg_comps n)" for ps
      using element_elements[of args "valuate k c" pl c e ps] s Suc NComp by simp
    then show ?thesis using s Suc NComp by (auto simp: comp_value_def)
  next
    case (NArr els)
    have "gives (array_values (valuate k c pl) els) (\<lambda>vs. sum_list (map elements vs) \<le> sum_list (map arg_comps els))"
      by (rule array_elements) (use s Suc NArr in auto)
    then show ?thesis using NArr by (auto intro!: gives_ret elim!: gives_bind)
  next
    case (NObj es)
    have "gives (traverse_fields (valuate k c pl) es) (\<lambda>kvs. prop_elements kvs \<le> sum_list (map (\<lambda>f. arg_comps (snd f)) es))"
      by (rule gives_fields_sum) (use s Suc NObj in auto)
    moreover have "elements (VObj (put_all kvs)) \<le> prop_elements kvs" for kvs
      using sum_firsts_all[of elements "put_all kvs"] sum_put_all[of elements kvs] by simp
    ultimately show ?thesis using NObj
      by (auto simp del: elements_simps intro!: gives_ret elim!: gives_bind intro: order_trans)
  next
    case (NState x)
    then show ?thesis using res by (auto intro!: gives_ret elim!: gives_bind)
  next
    case (NIndex a b)
    then show ?thesis using res by (auto intro!: gives_ret elim!: gives_bind)
  qed (use s Suc.prems in \<open>auto intro!: gives_ret\<close>)
qed (simp add: gives_throw)

section \<open>The program\<close>

lemma arg_comps_fields: "sum_list (map (\<lambda>f. arg_comps (snd f)) (map (map_prod id raw_node) es)) = sum_list (map (\<lambda>f. arg_comps (raw_node (snd f))) es)"
  by (simp add: o_def)

lemma read_comps: "printable m \<Longrightarrow> arg_comps (raw_node (read_tree m)) \<le> tree_components m"
proof (induction m rule: printable.induct)
  case (1 m)
  have kids: "list_all printable (kids m)" using "1.prems" by (simp add: printable.simps[of m])
  then have k: "sum_list (map (\<lambda>a. arg_comps (raw_node (read_tree a))) (kids m)) \<le> sum_list (map tree_components (kids m))"
    using "1.IH" by (intro sum_list_mono) (simp add: list_all_iff)
  note r = read_tree.simps[of m] and t = tree_components.simps[of m] and p = printable.simps[of m]
  show ?case
  proof (cases m)
    case (Index obj index)
    have "arg_comps (raw_node (read_tree index)) = 0"
      using "1.prems" p Index read_tree.simps[of index]
      by (cases index) (auto simp: is_literal_key_def number_node_def split: if_splits)
    then show ?thesis using r t k Index by simp
  qed (use "1.prems" k r t p in \<open>auto simp: o_def is_comp_def number_node_def split: if_splits\<close>)
qed

lemma set_statement_elements: "elements (set_statement x v) \<le> elements v"
proof -
  have "elements (VObj (put_field kvs (lit ''statementId'') (VStr x))) \<le> elements (VObj kvs)" for kvs
    unfolding elements_simps by (rule sum_firsts_le) (simp add: count_at_def)
  then show ?thesis by (cases v) (auto simp: set_statement_def simp del: elements_simps(8))
qed

text \<open>A root that is a tree to be evaluated counts the components of the tree.\<close>

definition program_elements :: "rval \<Rightarrow> rnode option \<Rightarrow> nat" where
  "program_elements v tree = elements v + count_at node_comps tree"

lemma root_elements: "program_elements (root_element start v) (root_tree v) \<le> elements v"
proof (cases v)
  case (VNode n)
  then show ?thesis by (auto simp: program_elements_def root_element_def root_tree_def count_at_def split: option.split)
qed (auto simp: program_elements_def root_element_def root_tree_def count_at_def intro: set_statement_elements order_trans[OF set_statement_elements] simp del: elements_simps(7-9) split: option.split)

lemma build_root_elements:
  assumes "settled (x_cat c) n" "x_syms c = [(root_name, n)]"
  shows "gives (build_root c es root) (\<lambda>r. program_elements (fst r) (fst (snd r)) \<le> arg_comps n)"
proof -
  have "gives (case Option.bind (find_root es root) (\<lambda>l. map_of (x_syms c) (fst l)) of
      Some t \<Rightarrow> valuate (build_fuel (x_syms c)) c pl t | None \<Rightarrow> ret VNull) (\<lambda>v. elements v \<le> arg_comps n)" for pl
    using assms by (auto intro!: valuate_elements gives_ret split: option.split bind_split split: if_splits)
  then show ?thesis unfolding build_root_def Let_def
    by (rule gives_bind)
      (auto intro!: gives_then gives_next gives_ret order_trans[OF root_elements])
qed

lemma build_program_elements:
  assumes "settled cat n" "build_program cat root [(root_name, ValueEntry n)] False count = Inr r"
  shows "program_elements (r_root r) (r_expr r) \<le> arg_comps n"
  using build_root_elements[of "\<lparr>x_syms = [(root_name, n)], x_cat = cat, x_partial = False\<rparr>" n "[(root_name, ValueEntry n)]" root] assms
  unfolding gives_def build_program_def Let_def by (fastforce split: prod.splits sum.splits)



end
