(* ===== verification/Spec2Isabelle.thy ===== *)
theory Spec2Isabelle
  imports Preflight_Properties Artifact_Client_Properties Artifact_View Artifact_Library_Properties
    Dashboard_Properties Dashboard_View_Properties Landing_Properties Chart_Render Room_Vectors Site_Pages
    Build_Scripts Artifact_Program Renderer_Bounds
begin

text \<open>
  \<^bold>\<open>The JavaScript of Cowchat\<close>

  Cowchat is a chat server for agents (Rust) with browser programs, build tools and a site in
  JavaScript. This library models the JavaScript. Line numbers and names below are those of the
  files under \<open>src/\<close>.

  \<^bold>\<open>Parts and theories\<close>

  The language. \<open>Js_Base\<close>: strings as UTF-16 code units, Numbers as the shortest decimal that reads
  back, values, property reads, errors, and the state monad \<open>jsm\<close> whose state survives a throw.
  \<open>Js_Number\<close>, \<open>Js_Json\<close>, \<open>Js_Compare\<close>: conversions, \<open>JSON.stringify\<close> and string literals,
  comparison, iteration. Objects are lists of their own properties; a property is read by names
  that no prototype has, and no object has an own \<open>toString\<close> or \<open>valueOf\<close>. \<open>Event_Machine\<close>: a page
  is a state, events that the environment may deliver, and handlers that run to completion; its
  two locales give the invariant of all reachable states and that a stopped page stays stopped.
  \<open>Capped_Log\<close>: the interface of a log that keeps its latest entries.

  Published artifacts. \<open>tools/cowchat-artifacts/preflight.mjs\<close> checks a view before it is rendered:
  \<open>Lang_Tokens\<close> and \<open>Lang_Syntax\<close> are the tokenizer, the statement splitter and the expression
  parser that it calls, as the bundle \<open>web/artifact.js\<close> has them (functions \<open>W3\<close>, \<open>K3\<close>, \<open>G3\<close>);
  \<open>Preflight_Data\<close> the walk over the data, \<open>Preflight_Layout\<close> tokens, definitions and depth,
  \<open>Preflight_Budget\<close> \<open>value\<close> and \<open>budget\<close> with their memo tables, \<open>Preflight_Serialize\<close> the
  canonical text, \<open>Preflight\<close> the whole function. \<open>Preflight_Meaning\<close> is the specification (what a
  view evaluates to and costs, without memo tables), \<open>Preflight_Simulation\<close> the proof that the code
  computes it. \<open>Artifact_Client\<close> is the effect of \<open>client.jsx\<close> (fetch loop, event source, timers,
  revocation), \<open>Artifact_View\<close> its screen and error boundary, \<open>Artifact_Library\<close> the components
  of \<open>library.jsx\<close>.

  The renderer of artifacts, which is third-party code that \<open>web/artifact.js\<close> ships minified, is
  modelled as far as \<open>preflightView\<close> lets a view reach it. \<open>Lang_Cleanup\<close>: code fences, comments,
  the cut into statements and the completion of an unfinished one (\<open>Pqt\<close>, \<open>Fqt\<close>, \<open>Bqt\<close>, \<open>Nqt\<close>).
  \<open>Lang_Bundle\<close>: which part of a response is the program (\<open>t6\<close>, \<open>rne\<close>). \<open>Lang_Schema\<close> and
  \<open>Lang_Check\<close>: the validation of a value against a JSON Schema (\<open>lh\<close>) and its issues.
  \<open>Lang_Build\<close> and \<open>Lang_Program\<close>: references, calls and elements (\<open>Ka\<close>, \<open>Rf\<close>), the root, the state,
  queries and mutations (\<open>AT\<close>). \<open>Lang_Catalog\<close>: the catalog of a library (\<open>Hqt\<close>). \<open>Lang_Eval\<close>: the
  store and the evaluation of what was built (\<open>Uae\<close>, \<open>qt\<close>, \<open>PT\<close>).

  Dashboard. \<open>Dashboard_View\<close> and \<open>Dashboard\<close> are \<open>web/dashboard.js\<close>; \<open>web/app.js\<close> is the same
  text byte for byte, and no page loads it. Landing page: \<open>Landing\<close> is \<open>web/script.js\<close>. Chart
  tool: \<open>Chart_Render\<close> is \<open>render.mjs\<close> and \<open>client.jsx\<close> of \<open>tools/cowchat-charts\<close>. \<open>Build_Scripts\<close>
  are the build scripts, \<open>Room_Vectors\<close> the script that makes the reference vectors of hosted
  rooms, \<open>Site_Copy\<close> and \<open>Site_Pages\<close> the copy buttons and the pages of the site, \<open>Markup\<close> the trees
  that components return.

  \<^bold>\<open>How the parts meet\<close>

  The artifact page asks the server for a snapshot, gives view and data to \<open>preflightView\<close>, and
  mounts the renderer with its text and a state made of the same data (\<open>client_renders_checked\<close>,
  \<open>content_is_checked\<close>, \<open>renderer_state_matches\<close>). The renderer reads the text back as the tree that
  preflight printed (\<open>Renderer_Properties\<close>), computes the values that preflight computed
  (\<open>Renderer_State\<close>, \<open>Renderer_Values\<close>, \<open>Renderer_Agreement\<close>), and builds a well-typed program of the components of \<open>library.jsx\<close>
  (\<open>Artifact_Program\<close>) with no more elements than preflight allowed components (\<open>Renderer_Bounds\<close>).

  \<^bold>\<open>What the groups of lemmas show\<close>

  \<open>Preflight_Properties\<close>: which views are accepted, the bounds and errors, no reference cycles, the
  memo tables are invisible. \<open>Canonical_Text\<close>, \<open>Canonical_Reading\<close>, \<open>Canonical_Round_Trip\<close> and
  \<open>Canonical_Output\<close>: what preflight prints is lexed, split and parsed back, and nothing in it is
  taken for a comment, a fence or the end of a statement. \<open>Lang_Check\<close>: a value that the validator
  passes conforms to its schema. \<open>Lang_Build_Total\<close>: building returns. \<open>Lang_Build_Typed\<close>: elements
  are well typed. \<open>Lang_Canonical_Build\<close>: canonical programs build without issues of names.
  \<open>Artifact_Client_Invariant\<close> and \<open>Artifact_Client_Properties\<close>: one
  request and one stream at a time, no update lost, no work after the end. \<open>Dashboard_Invariant\<close> and
  \<open>Dashboard_Properties\<close>: one connection, registration first, capped lists, rooms.
  \<open>Dashboard_View_Properties\<close>: escaping and votes. \<open>Landing_Properties\<close>: typing, tabs, copying.
  \<open>Artifact_Library_Properties\<close>: links and the order of rows.

  \<^bold>\<open>Fuel and bounds\<close>

  \<open>parse_expr\<close> has fuel one more than the number of tokens (\<open>parser_returns\<close>: never exhausted);
  \<open>node_value\<close> and \<open>budget\<close> have fuel that stands for the call stack, and \<open>preflight_view_errors\<close>
  shows that a view within the limits never exhausts it. \<open>resolve\<close> and \<open>valuate\<close> have \<open>build_fuel\<close>,
  the sizes of all definitions and one for each, since a name that is being resolved is not
  entered again (\<open>program_build_returns\<close>). \<open>inlined\<close> has fuel for the call stack: a schema that
  refers to itself overflows it; the library of the page has no shared definitions
  (\<open>catalog_returns\<close>). All other loops are structural or have
  a termination proof.

  \<^bold>\<open>Not modelled\<close>

  The Rust server and clients, the Mac app (Swift) and the Python and shell tools are in other
  languages. The rest of \<open>web/artifact.js\<close> is the minified bundle of React, OpenUI, zod and other
  packages with \<open>client.jsx\<close>. Of the renderer, what no view of an artifact reaches is left out:
  operators, calls of functions, actions, bindings, queries, responses that are still streaming,
  and the generator of prompts. React, \<open>react-markdown\<close>, the JSON Schema that zod makes of the
  library, the URL parser, esbuild, Tailwind, Playwright and the cipher of Node are parameters where the code relies on them.
  Delays of timers are kept where a property is about
  them (\<open>client.jsx\<close>); otherwise timers fire in any order.
\<close>

section \<open>Across the programs\<close>

text \<open>C16: What the artifact page mounts is the print of a tree of library components within the limits, which preflightView returned for the very data that the renderer's state is made of, and whose revision the renderer has reported no errors for; this holds in every reachable state, whatever the server sends and in whatever order.\<close>

theorem artifact_shows_checked:
  assumes "client_reachable lib path s" and "artifact_screen s = Content r view state"
  shows "\<exists>n source m. snapshot s = Some n \<and> state = initial_state (Some n) \<and> \<not> strict_eq (invalid s) r \<and>
    preflight_view lib source (prop_or_undef n (lit ''data'')) = Inr view \<and>
    view = lit ''root = '' @ tree_text m \<and> tree_safe lib m \<and> tree_components m \<le> 256 \<and> tree_depth m \<le> 32"
proof -
  obtain n source where n: "snapshot s = Some n" "state = initial_state (Some n)" "\<not> strict_eq (invalid s) r"
    "preflight_view lib source (prop_or_undef n (lit ''data'')) = Inr view"
    using content_is_checked[OF assms] client_lib[OF assms(1)] by auto
  then obtain t m where m: "admits lib t (prop_or_undef n (lit ''data'')) m" "view = lit ''root = '' @ tree_text m"
    using preflight_view_ok[where lib = lib and source = source and data = "prop_or_undef n (lit ''data'')"] by auto
  then have "view_admits (view_of lib t (prop_or_undef n (lit ''data''))) m" by (simp add: admits_iff)
  from view_admits_bounds[OF this] have "tree_safe lib m \<and> tree_components m \<le> 256 \<and> tree_depth m \<le> 32"
    by (auto simp: view_of_def)
  then show ?thesis using n m(2) by blast
qed

theorem artifact_shows_checked_witness:
  "\<exists>m. lit ''root = Stack([])'' = lit ''root = '' @ tree_text m \<and> tree_safe [lit ''Stack''] m \<and> tree_components m \<le> 256"
proof -
  obtain s where s: "run_events event_enabled client_act [Response 0 (Some 200), Body 0 (Some (JObj [(lit ''view'', JStr (lit ''root = Stack([])'')),
        (lit ''data'', JObj []), (lit ''revision'', JNum (Fin False 2 0))]))] (mounted [lit ''Stack''] []) = Some s"
    "artifact_screen s = Content (JNum (Fin False 2 0)) (lit ''root = Stack([])'') (JObj [])"
    using content_run by (auto simp: map_option_eq_Some)
  show ?thesis using artifact_shows_checked[OF reachable_run[OF s(1)] s(2)] by blast
qed

text \<open>The charts of an artifact can be rendered by the chart tool as well.\<close>

lemma shared_charts: "set chart_names \<subseteq> set chart_components"
  by (auto simp: chart_names_def chart_components_def)

text \<open>The limit of the chart tool counts the bytes that its source takes in a file.\<close>

lemma chart_source_bytes: "validate_source source = Inr () \<Longrightarrow> length (utf8 source) \<le> 65536"
  by (simp add: validate_source_def utf8_bytes max_source_def split: if_splits)

end
